(* ===== verification/Prelude.thy ===== *)
theory Prelude
  imports Main "HOL-Library.Sublist"
begin

section \<open>Prelude: names, automation and lemmas the components share\<close>

text \<open>
  Holds what every component uses: the type synonyms of the model, the datatype of
  Go's run-time panics, the collections of facts the component proofs pass to the
  simplifier, and the generic lemmas on maps, searches and updated lists. Nothing in
  this theory models a line of the program.
\<close>

subsection \<open>Types\<close>

text \<open>
  Go strings are byte sequences, and HOL's \<open>char\<close> is a byte, so a Go string is a
  \<open>string\<close>. Times and durations are nanoseconds; Go's \<open>int\<close> is 64 bits wide.
\<close>

type_synonym time = int
type_synonym bytes = "char list"
type_synonym address = nat

abbreviation minute :: time where
  "minute \<equiv> 60000000000"

abbreviation second :: time where
  "second \<equiv> 1000000000"

text \<open>A panic is a value: reading through a nil pointer, or an explicit \<open>panic\<close> call.\<close>

datatype go_panic = NilDereference | PanicCall string

subsection \<open>Collections of facts\<close>

named_theorems alloc_simps \<open>equations of the port allocator's state updates\<close>
named_theorems alloc_inv_intros \<open>operations of the port allocator keep its invariant\<close>
named_theorems str_simps \<open>equations of the Go string library\<close>

subsection \<open>Maps\<close>

lemma map_upd_eq_SomeE:
  assumes "(m(k \<mapsto> v)) k' = Some v'"
  obtains (same) "k' = k" "v' = v" | (other) "k' \<noteq> k" "m k' = Some v'"
  using assms by (cases "k' = k") auto

lemma map_del_eq_Some [simp]:
  "((m(k := None)) k' = Some v) = (k' \<noteq> k \<and> m k' = Some v)"
  by auto


subsection \<open>Lists of optional results\<close>

lemma map_filter_cong:
  "(\<And>x. x \<in> set xs \<Longrightarrow> f x = g x) \<Longrightarrow> List.map_filter f xs = List.map_filter g xs"
  by (induction xs) (auto simp: map_filter_simps split: option.splits)

lemma set_map_filter_iff: "y \<in> set (List.map_filter f xs) \<longleftrightarrow> (\<exists>x\<in>set xs. f x = Some y)"
  by (induction xs) (auto simp: map_filter_simps split: option.splits)

subsection \<open>Enumerations of a map's keys\<close>

text \<open>
  Go's \<open>range\<close> over a map visits each key once, in an order the language leaves open.
  The definitions that range over a map take that order as an argument, and the lemmas
  assume only that it enumerates the keys.
\<close>

definition enumerates :: "'k list \<Rightarrow> ('k \<rightharpoonup> 'v) \<Rightarrow> bool" where
  "enumerates ks m \<longleftrightarrow> distinct ks \<and> set ks = dom m"

lemma enumerates_distinct [dest]: "enumerates ks m \<Longrightarrow> distinct ks"
  by (simp add: enumerates_def)

lemma enumerates_set: "enumerates ks m \<Longrightarrow> set ks = dom m"
  by (simp add: enumerates_def)

lemma enumerates_iff: "enumerates ks m \<Longrightarrow> k \<in> set ks \<longleftrightarrow> m k \<noteq> None"
  by (auto simp: enumerates_def)

lemma enumerates_finite: "enumerates ks m \<Longrightarrow> finite (dom m)"
  by (metis enumerates_set List.finite_set)

lemma enumerates_exists: "finite (dom m) \<Longrightarrow> \<exists>ks. enumerates ks m"
  by (metis enumerates_def finite_distinct_list)

subsection \<open>Groups of goroutines\<close>

text \<open>
  What the code relies on of \<open>errgroup\<close>: waiting gives the first error in the order in which
  the functions of the group returned, and none if there is none.
\<close>

definition first_error :: "'e option list \<Rightarrow> 'e option" where
  "first_error rs = Option.bind (List.find (\<lambda>r. r \<noteq> None) rs) id"

definition errgroup_law :: "('e option list \<Rightarrow> 'e option) \<Rightarrow> bool" where
  "errgroup_law wait \<longleftrightarrow> (\<forall>rs. wait rs = first_error rs)"

lemma first_error_simps [simp]:
  "first_error [] = None"
  "first_error (None # rs) = first_error rs"
  "first_error (Some e # rs) = Some e"
  by (simp_all add: first_error_def)

lemma first_error_append [simp]:
  "first_error (rs @ rs') = (case first_error rs of None \<Rightarrow> first_error rs' | Some e \<Rightarrow> Some e)"
  by (induction rs) (auto simp: first_error_def)

lemma first_error_None_iff: "first_error rs = None \<longleftrightarrow> list_all (\<lambda>r. r = None) rs"
  by (induction rs) (auto simp: first_error_def)

end
