(* ===== verification/Port_Allocator.thy ===== *)
theory Port_Allocator
  imports Prelude
begin

section \<open>The port allocator\<close>

text \<open>
  Models server/port_allocation.go and server/port_allocator.go. The allocator keeps two
  Go maps from a key and from a port number to the same \<open>*PortAllocation\<close> objects, and
  it hands the pointers out (to \<open>LookupPort\<close>'s and \<open>OnConnected\<close>'s callers), so the
  objects live in an explicit store: \<open>cells\<close> is the content of every allocated object,
  \<open>next_cell\<close> the first address not yet used. Every operation runs under the
  allocator's mutex and is one state transformer here.
\<close>

subsection \<open>Data\<close>

datatype PortStatus = Freed | Allocated | Connected

record PortAllocation =
  ClientId :: string
  UserId :: string
  AppName :: string
  ClientVersion :: string
  ClientPort :: int
  MappingPort :: int
  Status :: PortStatus
  AllocTime :: "time option"
  StartTime :: "time option"

record PortAllocator =
  names :: "string \<rightharpoonup> address"
  ports :: "int \<rightharpoonup> address"
  minPort :: int
  maxPort :: int
  cells :: "address \<Rightarrow> PortAllocation"
  next_cell :: address

text \<open>The error returns of the allocator, one constructor for each.\<close>

datatype PortError =
    NoAvailablePorts
  | ClientPortConflict int int
  | MappingPortConflict int int
  | MappingPortTaken PortAllocation
  | PortNotExist int int
  | OldClientPortConflict int int int
  | PortAlreadyUsed int PortAllocation
  | PortMappingNotFound

text \<open>The object \<open>&PortAllocation{}\<close> with the status \<open>handleRequestHeader\<close> gives it.\<close>

definition empty_allocation :: PortAllocation where
  "empty_allocation = \<lparr>ClientId = '''', UserId = '''', AppName = '''', ClientVersion = '''',
     ClientPort = 0, MappingPort = 0, Status = Freed, AllocTime = None, StartTime = None\<rparr>"

definition NewPortAllocator :: "int \<Rightarrow> int \<Rightarrow> PortAllocator" where
  "NewPortAllocator lo hi = \<lparr>names = Map.empty, ports = Map.empty, minPort = lo, maxPort = hi,
     cells = (\<lambda>_. empty_allocation), next_cell = 0\<rparr>"

definition alloc_key :: "string \<Rightarrow> string \<Rightarrow> string \<Rightarrow> string" where
  "alloc_key clientId userId appName = clientId @ ''-'' @ userId @ ''-'' @ appName"

definition key_of :: "PortAllocation \<Rightarrow> string" where
  "key_of v = alloc_key (ClientId v) (UserId v) (AppName v)"

text \<open>Writing through a pointer, and registering a new object under a key and a port.\<close>

definition store :: "address \<Rightarrow> PortAllocation \<Rightarrow> PortAllocator \<Rightarrow> PortAllocator" where
  "store a v pa = pa\<lparr>cells := (cells pa)(a := v)\<rparr>"

definition new_object :: "PortAllocation \<Rightarrow> PortAllocator \<Rightarrow> address \<times> PortAllocator" where
  "new_object v pa =
     (next_cell pa, pa\<lparr>cells := (cells pa)(next_cell pa := v), next_cell := Suc (next_cell pa)\<rparr>)"

definition register :: "string \<Rightarrow> int \<Rightarrow> PortAllocation \<Rightarrow> PortAllocator \<Rightarrow> address \<times> PortAllocator" where
  "register key port v pa =
     (let (a, pa') = new_object v pa
      in (a, pa'\<lparr>names := (names pa')(key \<mapsto> a), ports := (ports pa')(port \<mapsto> a)\<rparr>))"

subsection \<open>AllocatePort\<close>

text \<open>The scan \<open>for port := lo; port <= hi; port++\<close> for the first port satisfying \<open>P\<close>.\<close>

function scan_ports :: "(int \<Rightarrow> bool) \<Rightarrow> int \<Rightarrow> int \<Rightarrow> int option" where
  "scan_ports P port hi =
     (if port \<le> hi then (if P port then Some port else scan_ports P (port + 1) hi) else None)"
  by pat_completeness auto
termination
  by (relation "measure (\<lambda>(P, port, hi). nat (hi + 1 - port))") auto

declare scan_ports.simps [simp del]

definition new_lease :: "time \<Rightarrow> string \<Rightarrow> string \<Rightarrow> string \<Rightarrow> int \<Rightarrow> int \<Rightarrow> PortAllocation" where
  "new_lease now clientId userId appName clientPort port =
     \<lparr>ClientId = clientId, UserId = userId, AppName = appName, ClientVersion = '''',
      ClientPort = clientPort, MappingPort = port, Status = Allocated,
      AllocTime = Some now, StartTime = None\<rparr>"

definition free_slot :: "PortAllocator \<Rightarrow> int \<Rightarrow> bool" where
  "free_slot pa port \<longleftrightarrow> ports pa port = None"

definition recyclable_slot :: "PortAllocator \<Rightarrow> int \<Rightarrow> bool" where
  "recyclable_slot pa port \<longleftrightarrow>
     (case ports pa port of None \<Rightarrow> False | Some a \<Rightarrow> Status (cells pa a) = Freed)"

definition AllocatePort ::
  "time \<Rightarrow> string \<Rightarrow> string \<Rightarrow> string \<Rightarrow> int \<Rightarrow> PortAllocator \<Rightarrow>
   (PortError + PortAllocation) \<times> PortAllocator" where
  "AllocatePort now clientId userId appName clientPort pa =
     (let key = alloc_key clientId userId appName in
      case names pa key of
        Some a \<Rightarrow>
          (let v = (cells pa a)\<lparr>ClientPort := clientPort, Status := Allocated,
                                AllocTime := Some now, StartTime := None\<rparr>
           in (Inr v, store a v pa))
      | None \<Rightarrow>
          (case scan_ports (free_slot pa) (minPort pa) (maxPort pa) of
             Some port \<Rightarrow>
               (let v = new_lease now clientId userId appName clientPort port
                in (Inr v, snd (register key port v pa)))
           | None \<Rightarrow>
               (case scan_ports (recyclable_slot pa) (minPort pa) (maxPort pa) of
                  Some port \<Rightarrow>
                    (let v = new_lease now clientId userId appName clientPort port
                     in (Inr v, snd (register key port v pa)))
                | None \<Rightarrow> (Inl NoAvailablePorts, pa))))"

subsection \<open>OnConnected and OnDisconnected\<close>

definition applyNew ::
  "time \<Rightarrow> string \<Rightarrow> string \<Rightarrow> string \<Rightarrow> int \<Rightarrow> int \<Rightarrow> PortAllocator \<Rightarrow>
   (PortError + address) \<times> PortAllocator" where
  "applyNew now clientId userId appName clientPort mappingPort pa =
     (let key = alloc_key clientId userId appName in
      case names pa key of
        Some a \<Rightarrow>
          (let v = cells pa a in
           if clientPort \<noteq> ClientPort v then (Inl (ClientPortConflict clientPort (ClientPort v)), pa)
           else if mappingPort \<noteq> MappingPort v
             then (Inl (MappingPortConflict mappingPort (MappingPort v)), pa)
           else (Inr a, store a (v\<lparr>Status := Connected, StartTime := Some now\<rparr>) pa))
      | None \<Rightarrow>
          (case ports pa mappingPort of
             Some a \<Rightarrow> (Inl (MappingPortTaken (cells pa a)), pa)
           | None \<Rightarrow>
               (let v = (new_lease now clientId userId appName clientPort mappingPort)
                          \<lparr>StartTime := Some now, Status := Connected\<rparr>;
                    (a, pa') = register key mappingPort v pa
                in (Inr a, pa'))))"

definition applyOld ::
  "time \<Rightarrow> int \<Rightarrow> int \<Rightarrow> PortAllocator \<Rightarrow> (PortError + address) \<times> PortAllocator" where
  "applyOld now clientPort mappingPort pa =
     (case ports pa mappingPort of
        None \<Rightarrow> (Inl (PortNotExist clientPort mappingPort), pa)
      | Some a \<Rightarrow>
          (let v = cells pa a in
           if clientPort \<noteq> ClientPort v
             then (Inl (OldClientPortConflict (MappingPort v) clientPort (ClientPort v)), pa)
           else if Status v \<noteq> Allocated then (Inl (PortAlreadyUsed (MappingPort v) v), pa)
           else (Inr a, store a (v\<lparr>StartTime := Some now, Status := Connected\<rparr>) pa)))"

definition OnConnected ::
  "time \<Rightarrow> PortAllocation \<Rightarrow> int \<Rightarrow> int \<Rightarrow> PortAllocator \<Rightarrow> (PortError + address) \<times> PortAllocator" where
  "OnConnected now c clientPort mappingPort pa =
     (if ClientId c \<noteq> '''' \<and> UserId c \<noteq> '''' \<and> AppName c \<noteq> ''''
      then applyNew now (ClientId c) (UserId c) (AppName c) clientPort mappingPort pa
      else applyOld now clientPort mappingPort pa)"

definition OnDisconnected :: "time \<Rightarrow> address \<Rightarrow> PortAllocator \<Rightarrow> PortAllocator" where
  "OnDisconnected now a pa =
     store a ((cells pa a)\<lparr>Status := Allocated, AllocTime := Some now, StartTime := None\<rparr>) pa"

subsection \<open>FreePort\<close>

text \<open>
  With no application or no user named, every allocation of the client is marked freed and
  stays in both maps; \<open>order\<close> is the order in which the loop visits the keys.
\<close>

fun free_client_loop ::
  "string \<Rightarrow> string list \<Rightarrow> PortAllocator \<Rightarrow> PortAllocation list \<times> PortAllocator" where
  "free_client_loop clientId [] pa = ([], pa)"
| "free_client_loop clientId (k # order) pa =
     (case names pa k of
        None \<Rightarrow> free_client_loop clientId order pa
      | Some a \<Rightarrow>
          (let v = cells pa a in
           if Status v = Freed then free_client_loop clientId order pa
           else if ClientId v = clientId then
             (let v' = v\<lparr>Status := Freed\<rparr>;
                  (freed, pa') = free_client_loop clientId order (store a v' pa)
              in (v' # freed, pa'))
           else free_client_loop clientId order pa))"

text \<open>The second loop: delete the entries of the copies collected by the first.\<close>

fun delete_entries :: "PortAllocation list \<Rightarrow> PortAllocator \<Rightarrow> PortAllocator" where
  "delete_entries [] pa = pa"
| "delete_entries (v # vs) pa =
     delete_entries vs
       (pa\<lparr>names := (names pa)(key_of v := None), ports := (ports pa)(MappingPort v := None)\<rparr>)"

definition FreePort ::
  "string list \<Rightarrow> string \<Rightarrow> string \<Rightarrow> string \<Rightarrow> PortAllocator \<Rightarrow>
   PortAllocation list \<times> PortAllocator" where
  "FreePort order clientId userId appName pa =
     (if appName = '''' \<or> userId = '''' then free_client_loop clientId order pa
      else (case names pa (alloc_key clientId userId appName) of
              None \<Rightarrow> ([], pa)
            | Some a \<Rightarrow>
                (let v = (cells pa a)\<lparr>Status := Freed\<rparr>
                 in ([v], delete_entries [v] (store a v pa)))))"

subsection \<open>Queries\<close>

definition LookupPort ::
  "string \<Rightarrow> string \<Rightarrow> string \<Rightarrow> PortAllocator \<Rightarrow> PortError + address" where
  "LookupPort clientId userId appName pa =
     (case names pa (alloc_key clientId userId appName) of
        None \<Rightarrow> Inl PortMappingNotFound
      | Some a \<Rightarrow> if Status (cells pa a) = Freed then Inl PortMappingNotFound else Inr a)"

definition query_match :: "string \<Rightarrow> string \<Rightarrow> string \<Rightarrow> PortAllocation \<Rightarrow> bool" where
  "query_match clientId userId appName v \<longleftrightarrow>
     \<not> (clientId \<noteq> '''' \<and> clientId \<noteq> ClientId v) \<and>
     \<not> (userId \<noteq> '''' \<and> userId \<noteq> UserId v) \<and>
     \<not> (appName \<noteq> '''' \<and> appName \<noteq> AppName v)"

fun QueryPorts ::
  "string list \<Rightarrow> string \<Rightarrow> string \<Rightarrow> string \<Rightarrow> PortAllocator \<Rightarrow> PortAllocation list" where
  "QueryPorts [] clientId userId appName pa = []"
| "QueryPorts (k # order) clientId userId appName pa =
     (case names pa k of
        None \<Rightarrow> QueryPorts order clientId userId appName pa
      | Some a \<Rightarrow>
          (if query_match clientId userId appName (cells pa a)
           then cells pa a # QueryPorts order clientId userId appName pa
           else QueryPorts order clientId userId appName pa))"

subsection \<open>FreeHangingPorts\<close>

text \<open>
  The loop reads \<open>*alloc.AllocTime\<close> of every allocated entry, so it panics where that
  pointer is nil. Go's \<open>Sub\<close> saturates at 292 years, far above the ten minutes it is
  compared with, so the difference is taken over the integers.
\<close>

fun hanging_loop ::
  "time \<Rightarrow> string list \<Rightarrow> PortAllocator \<Rightarrow> go_panic + (PortAllocation list \<times> PortAllocator)" where
  "hanging_loop now [] pa = Inr ([], pa)"
| "hanging_loop now (k # order) pa =
     (case names pa k of
        None \<Rightarrow> hanging_loop now order pa
      | Some a \<Rightarrow>
          (let v = cells pa a in
           if Status v \<noteq> Allocated then hanging_loop now order pa
           else (case AllocTime v of
                   None \<Rightarrow> Inl NilDereference
                 | Some t \<Rightarrow>
                     (if now - t > 10 * minute then
                        (let v' = v\<lparr>Status := Freed\<rparr> in
                         case hanging_loop now order (store a v' pa) of
                           Inl p \<Rightarrow> Inl p
                         | Inr (freed, pa') \<Rightarrow> Inr (v' # freed, pa'))
                      else hanging_loop now order pa))))"

definition FreeHangingPorts ::
  "time \<Rightarrow> string list \<Rightarrow> PortAllocator \<Rightarrow> go_panic + (PortAllocation list \<times> PortAllocator)" where
  "FreeHangingPorts now order pa =
     (case hanging_loop now order pa of
        Inl p \<Rightarrow> Inl p
      | Inr (freed, pa') \<Rightarrow> Inr (freed, delete_entries freed pa'))"

subsection \<open>The scan\<close>

lemma scan_ports_Some_iff:
  "scan_ports P lo hi = Some port \<longleftrightarrow>
     lo \<le> port \<and> port \<le> hi \<and> P port \<and> (\<forall>q. lo \<le> q \<and> q < port \<longrightarrow> \<not> P q)"
proof (induction P lo hi rule: scan_ports.induct)
  case (1 P lo hi)
  show ?case
  proof (cases "lo \<le> hi \<and> \<not> P lo")
    case True
    then have step: "scan_ports P lo hi = scan_ports P (lo + 1) hi"
      by (simp add: scan_ports.simps [of P lo hi])
    from True have IH: "scan_ports P (lo + 1) hi = Some port \<longleftrightarrow>
        lo + 1 \<le> port \<and> port \<le> hi \<and> P port \<and> (\<forall>q. lo + 1 \<le> q \<and> q < port \<longrightarrow> \<not> P q)"
      by (intro "1.IH") auto
    have "lo = q \<or> lo + 1 \<le> q" if "lo \<le> q" for q
      using that by auto
    with True show ?thesis unfolding step IH
      by (metis add1_zle_eq order_le_less)
  next
    case False
    then show ?thesis
      by (auto simp: scan_ports.simps [of P lo hi])
  qed
qed

lemma scan_ports_None_iff:
  "scan_ports P lo hi = None \<longleftrightarrow> (\<forall>q. lo \<le> q \<and> q \<le> hi \<longrightarrow> \<not> P q)"
proof (induction P lo hi rule: scan_ports.induct)
  case (1 P lo hi)
  then show ?case
    by (auto simp: scan_ports.simps [of P lo hi]) (metis add1_zle_eq order_le_less)
qed

end
