(* ===== verification/Port_Invariant.thy ===== *)
theory Port_Invariant
  imports Port_Allocator
begin

section \<open>Invariants of the port allocator\<close>

text \<open>
  Two invariants. \<open>pa_sound\<close> holds under every operation: an entry of either map points
  to an allocated object that carries the entry's own key (or port) and an allocation
  time. \<open>pa_exclusive\<close> adds what the allocator is for: the two maps are inverse to each
  other, so no port is given to two keys, and no registered entry is freed. It holds as
  long as an object is freed together with its entries, which is how the server calls the
  allocator.
\<close>

subsection \<open>The invariants\<close>

definition leases :: "PortAllocator \<Rightarrow> string \<rightharpoonup> PortAllocation" where
  "leases pa k = map_option (cells pa) (names pa k)"

definition pa_sound :: "PortAllocator \<Rightarrow> bool" where
  "pa_sound pa \<longleftrightarrow>
     (\<forall>k a. names pa k = Some a \<longrightarrow>
        a < next_cell pa \<and> key_of (cells pa a) = k \<and> AllocTime (cells pa a) \<noteq> None) \<and>
     (\<forall>p a. ports pa p = Some a \<longrightarrow>
        a < next_cell pa \<and> MappingPort (cells pa a) = p \<and> AllocTime (cells pa a) \<noteq> None) \<and>
     finite (dom (names pa))"

definition pa_exclusive :: "PortAllocator \<Rightarrow> bool" where
  "pa_exclusive pa \<longleftrightarrow> pa_sound pa \<and>
     (\<forall>k a. names pa k = Some a \<longrightarrow>
        ports pa (MappingPort (cells pa a)) = Some a \<and> Status (cells pa a) \<noteq> Freed) \<and>
     (\<forall>p a. ports pa p = Some a \<longrightarrow> names pa (key_of (cells pa a)) = Some a)"

lemma pa_soundD:
  assumes "pa_sound pa"
  shows "names pa k = Some a \<Longrightarrow> a < next_cell pa"
    and "names pa k = Some a \<Longrightarrow> key_of (cells pa a) = k"
    and "names pa k = Some a \<Longrightarrow> AllocTime (cells pa a) \<noteq> None"
    and "ports pa p = Some a \<Longrightarrow> a < next_cell pa"
    and "ports pa p = Some a \<Longrightarrow> MappingPort (cells pa a) = p"
    and "ports pa p = Some a \<Longrightarrow> AllocTime (cells pa a) \<noteq> None"
    and "finite (dom (names pa))"
  using assms by (auto simp: pa_sound_def)

lemma pa_exclusiveD:
  assumes "pa_exclusive pa"
  shows "pa_sound pa"
    and "names pa k = Some a \<Longrightarrow> ports pa (MappingPort (cells pa a)) = Some a"
    and "names pa k = Some a \<Longrightarrow> Status (cells pa a) \<noteq> Freed"
    and "ports pa p = Some a \<Longrightarrow> names pa (key_of (cells pa a)) = Some a"
  using assms by (auto simp: pa_exclusive_def)

lemma names_inj:
  "pa_sound pa \<Longrightarrow> names pa k = Some a \<Longrightarrow> names pa k' = Some a \<Longrightarrow> k = k'"
  by (metis pa_soundD(2))

lemma leases_Some_iff: "leases pa k = Some v \<longleftrightarrow> (\<exists>a. names pa k = Some a \<and> cells pa a = v)"
  by (auto simp: leases_def)

lemma leases_None_iff: "leases pa k = None \<longleftrightarrow> names pa k = None"
  by (simp add: leases_def)

lemma dom_leases: "dom (leases pa) = dom (names pa)"
  by (auto simp: leases_def)

subsection \<open>State updates\<close>

lemma store_simps [alloc_simps, simp]:
  "names (store a v pa) = names pa" "ports (store a v pa) = ports pa"
  "minPort (store a v pa) = minPort pa" "maxPort (store a v pa) = maxPort pa"
  "cells (store a v pa) = (cells pa)(a := v)" "next_cell (store a v pa) = next_cell pa"
  by (simp_all add: store_def)

lemma register_simps [alloc_simps, simp]:
  "fst (register k p v pa) = next_cell pa"
  "names (snd (register k p v pa)) = (names pa)(k \<mapsto> next_cell pa)"
  "ports (snd (register k p v pa)) = (ports pa)(p \<mapsto> next_cell pa)"
  "minPort (snd (register k p v pa)) = minPort pa"
  "maxPort (snd (register k p v pa)) = maxPort pa"
  "cells (snd (register k p v pa)) = (cells pa)(next_cell pa := v)"
  "next_cell (snd (register k p v pa)) = Suc (next_cell pa)"
  by (simp_all add: register_def new_object_def)

lemma new_object_simps [alloc_simps, simp]:
  "fst (new_object v pa) = next_cell pa"
  "names (snd (new_object v pa)) = names pa"
  "ports (snd (new_object v pa)) = ports pa"
  "minPort (snd (new_object v pa)) = minPort pa"
  "maxPort (snd (new_object v pa)) = maxPort pa"
  "cells (snd (new_object v pa)) = (cells pa)(next_cell pa := v)"
  "next_cell (snd (new_object v pa)) = Suc (next_cell pa)"
  by (simp_all add: new_object_def)

lemma delete_entries_eq:
  "delete_entries vs pa =
     pa\<lparr>names := names pa |` (- key_of ` set vs), ports := ports pa |` (- MappingPort ` set vs)\<rparr>"
proof (induction vs arbitrary: pa)
  case Nil
  then show ?case by simp
next
  case (Cons v vs)
  show ?case by (auto simp: Cons restrict_map_def intro!: PortAllocator.equality)
qed

lemma key_of_update [simp]:
  "key_of (v\<lparr>Status := s\<rparr>) = key_of v" "key_of (v\<lparr>AllocTime := t\<rparr>) = key_of v"
  "key_of (v\<lparr>StartTime := t\<rparr>) = key_of v" "key_of (v\<lparr>ClientPort := p\<rparr>) = key_of v"
  "key_of (v\<lparr>ClientVersion := s'\<rparr>) = key_of v"
  by (simp_all add: key_of_def)

lemma new_lease_simps [simp]:
  "key_of (new_lease now c u a cp p) = alloc_key c u a"
  "MappingPort (new_lease now c u a cp p) = p" "ClientPort (new_lease now c u a cp p) = cp"
  "Status (new_lease now c u a cp p) = Allocated"
  "AllocTime (new_lease now c u a cp p) = Some now"
  "StartTime (new_lease now c u a cp p) = None"
  "ClientId (new_lease now c u a cp p) = c" "UserId (new_lease now c u a cp p) = u"
  "AppName (new_lease now c u a cp p) = a"
  by (simp_all add: new_lease_def key_of_def)

subsection \<open>Writes that keep an object's identity\<close>

text \<open>
  \<open>keeps_identity v v'\<close>: overwriting \<open>v\<close> by \<open>v'\<close> changes neither the key nor the port
  and drops no allocation time; the writes of the allocator and of the sessions are all of
  this kind.
\<close>

definition keeps_identity :: "PortAllocation \<Rightarrow> PortAllocation \<Rightarrow> bool" where
  "keeps_identity v v' \<longleftrightarrow> key_of v' = key_of v \<and> MappingPort v' = MappingPort v \<and>
     (AllocTime v \<noteq> None \<longrightarrow> AllocTime v' \<noteq> None)"

lemma store_sound [alloc_inv_intros]:
  "pa_sound pa \<Longrightarrow> keeps_identity (cells pa a) v \<Longrightarrow> pa_sound (store a v pa)"
  by (auto simp: pa_sound_def keeps_identity_def)

lemma store_exclusive [alloc_inv_intros]:
  assumes "pa_exclusive pa" "keeps_identity (cells pa a) v"
    and "Status (cells pa a) \<noteq> Freed \<Longrightarrow> Status v \<noteq> Freed"
  shows "pa_exclusive (store a v pa)"
  using assms store_sound [of pa a v]
  by (auto simp: pa_exclusive_def keeps_identity_def)

lemma new_object_sound: "pa_sound pa \<Longrightarrow> pa_sound (snd (new_object v pa))"
  by (fastforce simp: pa_sound_def)

lemma new_object_exclusive [alloc_inv_intros]:
  assumes "pa_exclusive pa"
  shows "pa_exclusive (snd (new_object v pa))"
  using assms new_object_sound [of pa v] pa_soundD(1,4) [OF pa_exclusiveD(1) [OF assms]]
  by (fastforce simp: pa_exclusive_def)

lemma new_object_leases [simp]:
  "pa_sound pa \<Longrightarrow> leases (snd (new_object v pa)) = leases pa"
  by (rule ext, rule option.expand) (auto simp: leases_def dest: pa_soundD(1) split: option.splits)

subsection \<open>Registering and deleting\<close>

lemma register_sound [alloc_inv_intros]:
  assumes "pa_sound pa" "key_of v = k" "MappingPort v = p" "AllocTime v \<noteq> None"
  shows "pa_sound (snd (register k p v pa))"
  using assms by (auto simp: pa_sound_def less_Suc_eq)

lemma register_exclusive [alloc_inv_intros]:
  assumes ex: "pa_exclusive pa" and new: "names pa k = None" "ports pa p = None"
    and v: "key_of v = k" "MappingPort v = p" "AllocTime v \<noteq> None" "Status v \<noteq> Freed"
  shows "pa_exclusive (snd (register k p v pa))"
proof -
  note old = pa_soundD(1,4) [OF pa_exclusiveD(1) [OF ex]]
  have "pa_sound (snd (register k p v pa))"
    using pa_exclusiveD(1) [OF ex] v by (intro register_sound) auto
  moreover have "names pa k' \<noteq> Some (next_cell pa)" "ports pa p' \<noteq> Some (next_cell pa)" for k' p'
    using old by fastforce+
  ultimately show ?thesis
    using ex new v unfolding pa_exclusive_def
    by (fastforce split: if_splits)
qed

text \<open>
  Freeing entries: the keys of \<open>K\<close> leave the one map, their ports leave the other, and
  the objects of the other keys are untouched.
\<close>

text \<open>Removing a set of keys with their ports: what is left in the map of ports.\<close>

lemma removed_ports:
  assumes ex: "pa_exclusive pa"
    and ports: "ports pa' = ports pa |` (- {MappingPort (cells pa a) | k a. k \<in> K \<and> names pa k = Some a})"
    and cells: "\<And>k a. k \<notin> K \<Longrightarrow> names pa k = Some a \<Longrightarrow> cells pa' a = cells pa a"
    and p: "ports pa' p = Some a"
  shows "key_of (cells pa a) \<notin> K \<and> names pa (key_of (cells pa a)) = Some a \<and> cells pa' a = cells pa a \<and>
    MappingPort (cells pa a) = p"
proof -
  from p have "ports pa p = Some a" "p \<notin> {MappingPort (cells pa a) | k a. k \<in> K \<and> names pa k = Some a}"
    by (auto simp: ports restrict_map_def split: if_splits)
  moreover from this(1) have k: "names pa (key_of (cells pa a)) = Some a" "MappingPort (cells pa a) = p"
    using pa_exclusiveD(4) [OF ex] pa_soundD(5) [OF pa_exclusiveD(1) [OF ex]] by auto
  ultimately have "key_of (cells pa a) \<notin> K" by blast
  with k cells show ?thesis by blast
qed

lemma remove_keys_exclusive:
  assumes ex: "pa_exclusive pa"
    and names: "names pa' = names pa |` (- K)"
    and ports: "ports pa' = ports pa |` (- {MappingPort (cells pa a) | k a. k \<in> K \<and> names pa k = Some a})"
    and cells: "\<And>k a. k \<notin> K \<Longrightarrow> names pa k = Some a \<Longrightarrow> cells pa' a = cells pa a"
    and next_cell: "next_cell pa' = next_cell pa"
  shows "pa_exclusive pa'"
proof -
  note so = pa_exclusiveD(1) [OF ex]
  have kept: "key_of (cells pa a) \<notin> K \<and> names pa (key_of (cells pa a)) = Some a \<and> cells pa' a = cells pa a \<and>
      MappingPort (cells pa a) = p" if "ports pa' p = Some a" for p a
    using that by (rule removed_ports [OF ex ports, rotated]) (rule cells)
  have other: "MappingPort (cells pa a) \<noteq> MappingPort (cells pa a')"
    if "k \<notin> K" "names pa k = Some a" "k' \<in> K" "names pa k' = Some a'" for k a k' a'
    using that pa_exclusiveD(2) [OF ex] names_inj [OF so] by (metis option.inject)
  have "finite (dom (names pa'))"
    using pa_soundD(7) [OF so] by (simp add: names)
  moreover have "a < next_cell pa' \<and> key_of (cells pa' a) = k \<and> AllocTime (cells pa' a) \<noteq> None"
    if "names pa' k = Some a" for k a
  proof -
    from that have "names pa k = Some a" "cells pa' a = cells pa a"
      using cells by (auto simp: names restrict_map_def split: if_splits)
    then show ?thesis using pa_soundD(1,2,3) [OF so] by (simp add: next_cell)
  qed
  moreover have "a < next_cell pa' \<and> MappingPort (cells pa' a) = p \<and> AllocTime (cells pa' a) \<noteq> None"
    if "ports pa' p = Some a" for p a
    using kept [OF that] pa_soundD(1,3) [OF so] by (auto simp: next_cell)
  ultimately have "pa_sound pa'"
    by (simp add: pa_sound_def)
  moreover have "ports pa' (MappingPort (cells pa' a)) = Some a \<and> Status (cells pa' a) \<noteq> Freed"
    if "names pa' k = Some a" for k a
  proof -
    from that have k: "names pa k = Some a" "k \<notin> K"
      by (auto simp: names restrict_map_def split: if_splits)
    with other have "MappingPort (cells pa a) \<notin> {MappingPort (cells pa a) | k a. k \<in> K \<and> names pa k = Some a}"
      by blast
    with k pa_exclusiveD(2,3) [OF ex] cells show ?thesis by (simp add: ports)
  qed
  moreover have "names pa' (key_of (cells pa' a)) = Some a" if "ports pa' p = Some a" for p a
    using kept [OF that] by (simp add: names)
  ultimately show ?thesis by (simp add: pa_exclusive_def)
qed

lemma free_entry_exclusive [alloc_inv_intros]:
  assumes ex: "pa_exclusive pa" and a: "names pa k = Some a"
  shows "pa_exclusive (delete_entries [(cells pa a)\<lparr>Status := Freed\<rparr>]
           (store a ((cells pa a)\<lparr>Status := Freed\<rparr>) pa))"
proof (rule remove_keys_exclusive [OF ex, where K = "{k}"])
  note so = pa_exclusiveD(1) [OF ex]
  show "cells (delete_entries [(cells pa a)\<lparr>Status := Freed\<rparr>]
           (store a ((cells pa a)\<lparr>Status := Freed\<rparr>) pa)) a' = cells pa a'"
    if "k' \<notin> {k}" "names pa k' = Some a'" for k' a'
    using that a names_inj [OF so] by (auto simp: delete_entries_eq)
qed (use a pa_soundD(2) [OF pa_exclusiveD(1) [OF ex] a] in \<open>auto simp: delete_entries_eq\<close>)

subsection \<open>AllocatePort\<close>

lemma no_recyclable_slot: "pa_exclusive pa \<Longrightarrow> \<not> recyclable_slot pa p"
  by (auto simp: recyclable_slot_def split: option.splits dest: pa_exclusiveD(3,4))

lemma scan_free_slot:
  "scan_ports (free_slot pa) lo hi = Some p \<Longrightarrow> ports pa p = None"
  by (simp add: scan_ports_Some_iff free_slot_def)

lemma AllocatePort_sound [alloc_inv_intros]:
  "pa_sound pa \<Longrightarrow> pa_sound (snd (AllocatePort now c u n cp pa))"
  by (auto simp: AllocatePort_def Let_def keeps_identity_def split: option.splits
      intro!: store_sound register_sound)

lemma AllocatePort_exclusive [alloc_inv_intros]:
  assumes "pa_exclusive pa"
  shows "pa_exclusive (snd (AllocatePort now c u n cp pa))"
proof -
  from assms have "scan_ports (recyclable_slot pa) lo hi = None" for lo hi
    by (simp add: scan_ports_None_iff no_recyclable_slot)
  with assms show ?thesis
    by (auto simp: AllocatePort_def Let_def keeps_identity_def split: option.splits
        intro!: store_exclusive register_exclusive dest: scan_free_slot)
qed

subsection \<open>OnConnected and OnDisconnected\<close>

lemma applyNew_sound: "pa_sound pa \<Longrightarrow> pa_sound (snd (applyNew now c u n cp mp pa))"
  by (auto simp: applyNew_def Let_def keeps_identity_def case_prod_beta split: option.splits
      intro!: store_sound register_sound)

lemma applyOld_sound: "pa_sound pa \<Longrightarrow> pa_sound (snd (applyOld now cp mp pa))"
  by (auto simp: applyOld_def Let_def keeps_identity_def split: option.splits intro!: store_sound)

lemma OnConnected_sound [alloc_inv_intros]:
  "pa_sound pa \<Longrightarrow> pa_sound (snd (OnConnected now v cp mp pa))"
  by (simp add: OnConnected_def applyNew_sound applyOld_sound)

lemma applyNew_exclusive:
  "pa_exclusive pa \<Longrightarrow> pa_exclusive (snd (applyNew now c u n cp mp pa))"
  by (auto simp: applyNew_def Let_def keeps_identity_def case_prod_beta split: option.splits
      intro!: store_exclusive register_exclusive)

lemma applyOld_exclusive: "pa_exclusive pa \<Longrightarrow> pa_exclusive (snd (applyOld now cp mp pa))"
  by (auto simp: applyOld_def Let_def keeps_identity_def split: option.splits
      intro!: store_exclusive)

lemma OnConnected_exclusive [alloc_inv_intros]:
  "pa_exclusive pa \<Longrightarrow> pa_exclusive (snd (OnConnected now v cp mp pa))"
  by (simp add: OnConnected_def applyNew_exclusive applyOld_exclusive)

lemma OnDisconnected_exclusive [alloc_inv_intros]:
  "pa_exclusive pa \<Longrightarrow> pa_exclusive (OnDisconnected now a pa)"
  by (simp add: OnDisconnected_def keeps_identity_def store_exclusive)

subsection \<open>FreePort\<close>

lemma FreePort_exclusive [alloc_inv_intros]:
  "pa_exclusive pa \<Longrightarrow> u \<noteq> '''' \<Longrightarrow> n \<noteq> '''' \<Longrightarrow> pa_exclusive (snd (FreePort order c u n pa))"
  by (auto simp: FreePort_def Let_def split: option.splits dest: free_entry_exclusive)

lemma free_client_loop_sound: "pa_sound pa \<Longrightarrow> pa_sound (snd (free_client_loop c order pa))"
proof (induction c order pa rule: free_client_loop.induct)
  case (2 c k order pa)
  show ?case
  proof (cases "names pa k")
    case (Some a)
    then show ?thesis
      using "2.IH"(2-4) [OF Some refl] "2.prems"
      by (auto simp: Let_def case_prod_beta keeps_identity_def store_sound)
  qed (use 2 in auto)
qed auto

subsection \<open>FreeHangingPorts\<close>

text \<open>An entry hangs when it is allocated (not connected) for more than ten minutes.\<close>

definition hangs :: "time \<Rightarrow> PortAllocation \<Rightarrow> bool" where
  "hangs now v \<longleftrightarrow> Status v = Allocated \<and>
     (case AllocTime v of None \<Rightarrow> False | Some t \<Rightarrow> now - t > 10 * minute)"

text \<open>
  The loop in closed form: it collects a freed copy of every hanging entry in the order of
  the visit, marks exactly those objects, and never reads a nil time.
\<close>

text \<open>Marking one hanging lease does not change what is left to do.\<close>

lemma hanging_mark_rest:
  assumes "pa_sound pa" "names pa k = Some a" "k \<notin> set order" "hangs now (cells pa a)"
  defines "pa' \<equiv> store a ((cells pa a)\<lparr>Status := Freed\<rparr>) pa"
  shows "pa_sound pa'" "List.map_filter (leases pa') order = List.map_filter (leases pa) order"
    "(\<lambda>a'. if \<exists>k\<in>set order. names pa' k = Some a' \<and> hangs now (cells pa' a')
        then (cells pa' a')\<lparr>Status := Freed\<rparr> else cells pa' a') =
      (\<lambda>a'. if \<exists>k\<in>set (k # order). names pa k = Some a' \<and> hangs now (cells pa a')
        then (cells pa a')\<lparr>Status := Freed\<rparr> else cells pa a')"
proof -
  show "pa_sound pa'" using assms(1) by (simp add: pa'_def store_sound keeps_identity_def)
  have ne: "names pa k' \<noteq> Some a" if "k' \<in> set order" for k'
    using that assms(3) names_inj [OF assms(1,2)] by auto
  then show "List.map_filter (leases pa') order = List.map_filter (leases pa) order"
    by (intro map_filter_cong) (auto simp: pa'_def leases_def map_option_case split: option.splits)
  show "(\<lambda>a'. if \<exists>k\<in>set order. names pa' k = Some a' \<and> hangs now (cells pa' a')
        then (cells pa' a')\<lparr>Status := Freed\<rparr> else cells pa' a') =
      (\<lambda>a'. if \<exists>k\<in>set (k # order). names pa k = Some a' \<and> hangs now (cells pa a')
        then (cells pa a')\<lparr>Status := Freed\<rparr> else cells pa a')"
    using ne assms(2,4) by (auto simp: pa'_def fun_eq_iff)
qed

lemma hanging_loop_eq:
  assumes "pa_sound pa" "distinct order"
  shows "hanging_loop now order pa =
    Inr (map (\<lambda>v. v\<lparr>Status := Freed\<rparr>) (filter (hangs now) (List.map_filter (leases pa) order)),
         pa\<lparr>cells := (\<lambda>a. if \<exists>k\<in>set order. names pa k = Some a \<and> hangs now (cells pa a)
                          then (cells pa a)\<lparr>Status := Freed\<rparr> else cells pa a)\<rparr>)"
  using assms
proof (induction order arbitrary: pa)
  case Nil
  then show ?case by (simp add: map_filter_simps)
next
  case (Cons k order)
  note so = Cons.prems(1)
  show ?case
  proof (cases "names pa k")
    case None
    with Cons show ?thesis by (simp add: leases_def map_filter_simps)
  next
    case (Some a)
    let ?v = "cells pa a"
    obtain t where t: "AllocTime ?v = Some t"
      using pa_soundD(3) [OF so Some] by auto
    show ?thesis
    proof (cases "hangs now ?v")
      case False
      then have "hanging_loop now (k # order) pa = hanging_loop now order pa"
        using Some t by (auto simp: Let_def hangs_def)
      moreover from False Some
      have "(\<exists>k'\<in>set (k # order). names pa k' = Some a' \<and> hangs now (cells pa a')) \<longleftrightarrow>
          (\<exists>k'\<in>set order. names pa k' = Some a' \<and> hangs now (cells pa a'))" for a'
        by auto
      ultimately show ?thesis
        using Cons False Some by (simp add: leases_def map_filter_simps)
    next
      case True
      let ?pa = "store a (?v\<lparr>Status := Freed\<rparr>) pa"
      have "k \<notin> set order" "distinct order" using Cons.prems(2) by simp_all
      note mark = hanging_mark_rest [OF so Some this(1) True]
      note IH = Cons.IH [OF mark(1) \<open>distinct order\<close>, unfolded mark(2,3)]
      have "hanging_loop now (k # order) pa =
          (case hanging_loop now order ?pa of Inl p \<Rightarrow> Inl p
           | Inr (freed, pa') \<Rightarrow> Inr (?v\<lparr>Status := Freed\<rparr> # freed, pa'))"
        using True Some t by (simp add: Let_def hangs_def)
      moreover have "List.map_filter (leases pa) (k # order) = ?v # List.map_filter (leases pa) order"
        using Some by (simp add: map_filter_simps leases_def)
      moreover have "?pa\<lparr>cells := f\<rparr> = pa\<lparr>cells := f\<rparr>" for f
        by (simp add: store_def)
      ultimately show ?thesis
        using True by (simp only: IH) simp
    qed
  qed
qed

lemma FreeHangingPorts_effect:
  assumes ex: "pa_exclusive pa" and order: "enumerates order (names pa)"
  obtains pa' where
    "FreeHangingPorts now order pa =
       Inr (map (\<lambda>v. v\<lparr>Status := Freed\<rparr>) (filter (hangs now) (List.map_filter (leases pa) order)), pa')"
    and "names pa' = names pa |` (- {k. \<exists>v. leases pa k = Some v \<and> hangs now v})"
    and "ports pa' = ports pa |`
           (- {MappingPort (cells pa a) | k a. k \<in> {k. \<exists>v. leases pa k = Some v \<and> hangs now v} \<and>
                                              names pa k = Some a})"
    and "\<And>k a. k \<notin> {k. \<exists>v. leases pa k = Some v \<and> hangs now v} \<Longrightarrow> names pa k = Some a \<Longrightarrow>
           cells pa' a = cells pa a"
    and "next_cell pa' = next_cell pa" "minPort pa' = minPort pa" "maxPort pa' = maxPort pa"
proof -
  note so = pa_exclusiveD(1) [OF ex]
  let ?K = "{k. \<exists>v. leases pa k = Some v \<and> hangs now v}"
  let ?vs = "map (\<lambda>v. v\<lparr>Status := Freed\<rparr>) (filter (hangs now) (List.map_filter (leases pa) order))"
  let ?mark = "\<lambda>a. if \<exists>k\<in>set order. names pa k = Some a \<and> hangs now (cells pa a)
                   then (cells pa a)\<lparr>Status := Freed\<rparr> else cells pa a"
  have dom: "k \<in> set order" if "names pa k = Some a" for k a
    using that enumerates_iff [OF order] by auto
  then have visited: "v \<in> set (filter (hangs now) (List.map_filter (leases pa) order)) \<longleftrightarrow>
      (\<exists>k. leases pa k = Some v \<and> hangs now v)" for v
    by (auto simp: set_map_filter_iff leases_def)
  have keys: "key_of ` set ?vs = ?K"
  proof -
    have "key_of v = k" if "leases pa k = Some v" for k v
      using that pa_soundD(2) [OF so] by (auto simp: leases_def)
    then show ?thesis using visited by (force simp: image_iff)
  qed
  have gone: "MappingPort ` set ?vs =
      {MappingPort (cells pa a) | k a. k \<in> ?K \<and> names pa k = Some a}"
    using visited by (force simp: image_iff leases_def)
  show thesis
  proof
    show "FreeHangingPorts now order pa = Inr (?vs, delete_entries ?vs (pa\<lparr>cells := ?mark\<rparr>))"
      using hanging_loop_eq [OF so enumerates_distinct [OF order], of now]
      by (simp add: FreeHangingPorts_def)
    show "names (delete_entries ?vs (pa\<lparr>cells := ?mark\<rparr>)) = names pa |` (- ?K)"
      using keys by (simp only: delete_entries_eq) simp
    show "ports (delete_entries ?vs (pa\<lparr>cells := ?mark\<rparr>)) = ports pa |`
        (- {MappingPort (cells pa a) | k a. k \<in> ?K \<and> names pa k = Some a})"
      using gone by (simp only: delete_entries_eq) simp
    show "cells (delete_entries ?vs (pa\<lparr>cells := ?mark\<rparr>)) a = cells pa a"
      if "k \<notin> ?K" "names pa k = Some a" for k a
      using that names_inj [OF so] by (auto simp: delete_entries_eq leases_def)
  qed (simp_all add: delete_entries_eq)
qed

lemma FreeHangingPorts_exclusive [alloc_inv_intros]:
  assumes ex: "pa_exclusive pa" and order: "enumerates order (names pa)"
  shows "\<exists>freed pa'. FreeHangingPorts now order pa = Inr (freed, pa') \<and> pa_exclusive pa'"
proof (rule FreeHangingPorts_effect [OF ex order, of now])
  fix pa' :: PortAllocator
  assume eq: "FreeHangingPorts now order pa = Inr (map (\<lambda>v. v\<lparr>Status := Freed\<rparr>)
      (filter (hangs now) (List.map_filter (leases pa) order)), pa')"
    and effect: "names pa' = names pa |` (- {k. \<exists>v. leases pa k = Some v \<and> hangs now v})"
      "ports pa' = ports pa |` (- {MappingPort (cells pa a) | k a.
          k \<in> {k. \<exists>v. leases pa k = Some v \<and> hangs now v} \<and> names pa k = Some a})"
      "\<And>k a. k \<notin> {k. \<exists>v. leases pa k = Some v \<and> hangs now v} \<Longrightarrow> names pa k = Some a \<Longrightarrow>
           cells pa' a = cells pa a"
      "next_cell pa' = next_cell pa"
  have "pa_exclusive pa'"
    by (rule remove_keys_exclusive [OF ex effect])
  with eq show ?thesis by blast
qed

subsection \<open>The fresh allocator\<close>

lemma NewPortAllocator_exclusive [alloc_inv_intros]: "pa_exclusive (NewPortAllocator lo hi)"
  by (simp add: pa_exclusive_def pa_sound_def NewPortAllocator_def)

end
