(* ===== verification/Port_Leases.thy ===== *)
theory Port_Leases
  imports Port_Invariant
begin

section \<open>The allocator as a registry of leases\<close>

text \<open>
  What server/port_allocator.go promises, without pointers and without the second map: a
  registry is a map from keys to leases. Each operation of the allocator has a
  specification on registries, and the refinement theorems say that the code's operations
  compute exactly these through \<open>leases\<close>, on every branch. The locale
  \<open>lease_registry\<close> is the interface the control plane uses; the allocator
  interprets it.
\<close>

subsection \<open>Specification\<close>

type_synonym registry = "string \<rightharpoonup> PortAllocation"

definition taken_ports :: "registry \<Rightarrow> int set" where
  "taken_ports L = {MappingPort v | k v. L k = Some v}"

text \<open>The key holding a port; at most one does, by \<open>pa_exclusive\<close>.\<close>

definition holder :: "registry \<Rightarrow> int \<Rightarrow> string option" where
  "holder L p =
     (if p \<in> taken_ports L then Some (THE k. \<exists>v. L k = Some v \<and> MappingPort v = p) else None)"

definition spec_allocate ::
  "time \<Rightarrow> string \<Rightarrow> string \<Rightarrow> string \<Rightarrow> int \<Rightarrow> int \<Rightarrow> int \<Rightarrow> registry \<Rightarrow>
   (PortError + PortAllocation) \<times> registry" where
  "spec_allocate now c u n cp lo hi L =
     (let key = alloc_key c u n in
      case L key of
        Some v \<Rightarrow>
          (let v' = v\<lparr>ClientPort := cp, Status := Allocated, AllocTime := Some now, StartTime := None\<rparr>
           in (Inr v', L(key \<mapsto> v')))
      | None \<Rightarrow>
          (case scan_ports (\<lambda>p. p \<notin> taken_ports L) lo hi of
             Some p \<Rightarrow> (let v = new_lease now c u n cp p in (Inr v, L(key \<mapsto> v)))
           | None \<Rightarrow> (Inl NoAvailablePorts, L)))"

definition spec_connect ::
  "time \<Rightarrow> PortAllocation \<Rightarrow> int \<Rightarrow> int \<Rightarrow> registry \<Rightarrow> (PortError + PortAllocation) \<times> registry" where
  "spec_connect now c cp mp L =
     (if ClientId c \<noteq> '''' \<and> UserId c \<noteq> '''' \<and> AppName c \<noteq> '''' then
        (case L (key_of c) of
           Some v \<Rightarrow>
             (if cp \<noteq> ClientPort v then (Inl (ClientPortConflict cp (ClientPort v)), L)
              else if mp \<noteq> MappingPort v then (Inl (MappingPortConflict mp (MappingPort v)), L)
              else (let v' = v\<lparr>Status := Connected, StartTime := Some now\<rparr>
                    in (Inr v', L(key_of c \<mapsto> v'))))
         | None \<Rightarrow>
             (case holder L mp of
                Some k \<Rightarrow> (Inl (MappingPortTaken (the (L k))), L)
              | None \<Rightarrow>
                  (let v = (new_lease now (ClientId c) (UserId c) (AppName c) cp mp)
                             \<lparr>StartTime := Some now, Status := Connected\<rparr>
                   in (Inr v, L(key_of c \<mapsto> v)))))
      else
        (case holder L mp of
           None \<Rightarrow> (Inl (PortNotExist cp mp), L)
         | Some k \<Rightarrow>
             (let v = the (L k) in
              if cp \<noteq> ClientPort v then (Inl (OldClientPortConflict mp cp (ClientPort v)), L)
              else if Status v \<noteq> Allocated then (Inl (PortAlreadyUsed mp v), L)
              else (let v' = v\<lparr>StartTime := Some now, Status := Connected\<rparr>
                    in (Inr v', L(k \<mapsto> v'))))))"

definition spec_free :: "string \<Rightarrow> registry \<Rightarrow> PortAllocation list \<times> registry" where
  "spec_free key L =
     (case L key of None \<Rightarrow> ([], L) | Some v \<Rightarrow> ([v\<lparr>Status := Freed\<rparr>], L(key := None)))"

definition spec_reclaim :: "time \<Rightarrow> registry \<Rightarrow> registry" where
  "spec_reclaim now L k =
     (case L k of None \<Rightarrow> None | Some v \<Rightarrow> if hangs now v then None else Some v)"

subsection \<open>Reading the registry off the allocator\<close>

lemma taken_portsI: "L k = Some v \<Longrightarrow> MappingPort v = p \<Longrightarrow> p \<in> taken_ports L"
  by (auto simp: taken_ports_def)

lemma taken_ports_leases:
  assumes "pa_exclusive pa"
  shows "p \<in> taken_ports (leases pa) \<longleftrightarrow> ports pa p \<noteq> None"
proof
  assume "p \<in> taken_ports (leases pa)"
  then show "ports pa p \<noteq> None"
    using pa_exclusiveD(2) [OF assms] by (auto simp: taken_ports_def leases_Some_iff)
next
  assume "ports pa p \<noteq> None"
  then obtain a where a: "ports pa p = Some a" by auto
  with assms have "names pa (key_of (cells pa a)) = Some a" "MappingPort (cells pa a) = p"
    by (auto dest: pa_exclusiveD(4) pa_exclusiveD(1) pa_soundD(5))
  then show "p \<in> taken_ports (leases pa)"
    unfolding taken_ports_def leases_Some_iff by blast
qed

lemma leases_port_inj:
  assumes ex: "pa_exclusive pa" and "leases pa k = Some v" "leases pa k' = Some v'"
    and "MappingPort v = MappingPort v'"
  shows "k = k'"
proof -
  from assms obtain a a' where "names pa k = Some a" "names pa k' = Some a'"
    "MappingPort (cells pa a) = MappingPort (cells pa a')"
    by (auto simp: leases_Some_iff)
  with pa_exclusiveD(2) [OF ex] have "names pa k = Some a" "names pa k' = Some a"
    by (metis option.inject)+
  then show ?thesis by (rule names_inj [OF pa_exclusiveD(1) [OF ex]])
qed

lemma holder_leases:
  assumes ex: "pa_exclusive pa"
  shows "holder (leases pa) p = map_option (\<lambda>a. key_of (cells pa a)) (ports pa p)"
proof (cases "ports pa p")
  case None
  then show ?thesis using taken_ports_leases [OF ex] by (simp add: holder_def)
next
  case (Some a)
  let ?k = "key_of (cells pa a)"
  have a: "names pa ?k = Some a" "MappingPort (cells pa a) = p"
    using Some pa_exclusiveD(4) [OF ex] pa_soundD(5) [OF pa_exclusiveD(1) [OF ex]] by auto
  then have "leases pa ?k = Some (cells pa a)" by (simp add: leases_def)
  with a(2) have "(THE k. \<exists>v. leases pa k = Some v \<and> MappingPort v = p) = ?k"
    by (intro the_equality) (auto dest: leases_port_inj [OF ex])
  with Some taken_ports_leases [OF ex] show ?thesis by (simp add: holder_def)
qed

lemma leases_store:
  assumes "pa_sound pa" "names pa k = Some a"
  shows "leases (store a v pa) = (leases pa)(k \<mapsto> v)"
  using assms names_inj [OF assms(1)]
  by (intro ext) (auto simp: leases_def map_option_case split: option.splits)

lemma leases_register:
  assumes "pa_sound pa"
  shows "leases (snd (register k p v pa)) = (leases pa)(k \<mapsto> v)"
  using pa_soundD(1) [OF assms]
  by (intro ext) (fastforce simp: leases_def map_option_case split: option.splits)

lemma leases_at_port:
  assumes "pa_exclusive pa" "ports pa p = Some a"
  shows "leases pa (key_of (cells pa a)) = Some (cells pa a)"
  using pa_exclusiveD(4) [OF assms] by (simp add: leases_def)

subsection \<open>Refinement\<close>

lemma AllocatePort_effect:
  assumes ex: "pa_exclusive pa"
  shows "map_prod id leases (AllocatePort now c u n cp pa) =
         spec_allocate now c u n cp (minPort pa) (maxPort pa) (leases pa)"
proof -
  note so = pa_exclusiveD(1) [OF ex]
  have free: "(\<lambda>p. p \<notin> taken_ports (leases pa)) = free_slot pa"
    using taken_ports_leases [OF ex] by (auto simp: free_slot_def fun_eq_iff)
  have none: "scan_ports (recyclable_slot pa) lo hi = None" for lo hi
    using no_recyclable_slot [OF ex] by (simp add: scan_ports_None_iff)
  show ?thesis
  proof (cases "names pa (alloc_key c u n)")
    case None
    then have "leases pa (alloc_key c u n) = None" by (simp add: leases_def)
    with None show ?thesis
      by (simp add: AllocatePort_def spec_allocate_def Let_def free none
          leases_register [OF so] split: option.split)
  next
    case (Some a)
    then have "leases pa (alloc_key c u n) = Some (cells pa a)" by (simp add: leases_def)
    with Some show ?thesis
      by (simp add: AllocatePort_def spec_allocate_def Let_def leases_store [OF so])
  qed
qed

text \<open>
  C2: AllocatePort computes its specification on registries. The result (the refreshed
  lease, a new lease on the least port of the range that no lease holds, or the error that
  none is left) and the registry afterwards are those of \<open>spec_allocate\<close>; in particular
  the branch that recycles a freed slot is never taken while ports are exclusive.
\<close>

theorem AllocatePort_refines:
  assumes ex: "pa_exclusive pa"
  shows "map_prod id leases (AllocatePort now c u n cp pa) =
         spec_allocate now c u n cp (minPort pa) (maxPort pa) (leases pa)"
  by (rule AllocatePort_effect [OF ex])

theorem AllocatePort_refines_witness:
  "map_prod id leases (AllocatePort 7 ''m'' ''u'' ''web'' 80 (NewPortAllocator 30000 30001)) =
     spec_allocate 7 ''m'' ''u'' ''web'' 80 30000 30001 Map.empty"
  using AllocatePort_refines [OF NewPortAllocator_exclusive, of 7 "''m''" "''u''" "''web''" 80 30000 30001]
  by (simp add: NewPortAllocator_def leases_def [abs_def])

lemma OnConnected_effect:
  assumes ex: "pa_exclusive pa"
  shows "(let (r, pa') = OnConnected now v cp mp pa in (map_sum id (cells pa') r, leases pa')) =
         spec_connect now v cp mp (leases pa)"
proof -
  note so = pa_exclusiveD(1) [OF ex]
  have port: "MappingPort (cells pa a) = p" if "ports pa p = Some a" for p a
    using pa_soundD(5) [OF so that] .
  show ?thesis
  proof (cases "ClientId v \<noteq> '''' \<and> UserId v \<noteq> '''' \<and> AppName v \<noteq> ''''")
    case True
    have key: "alloc_key (ClientId v) (UserId v) (AppName v) = key_of v"
      by (simp add: key_of_def)
    show ?thesis
    proof (cases "names pa (key_of v)")
      case None
      then have "leases pa (key_of v) = None" by (simp add: leases_def)
      with None True show ?thesis
        by (simp add: OnConnected_def applyNew_def spec_connect_def Let_def key
            holder_leases [OF ex] leases_at_port [OF ex] case_prod_beta
            leases_register [OF so] split: option.split)
    next
      case (Some a)
      then have "leases pa (key_of v) = Some (cells pa a)" by (simp add: leases_def)
      with True Some show ?thesis
        by (simp add: OnConnected_def applyNew_def spec_connect_def Let_def key
            leases_store [OF so Some])
    qed
  next
    case False
    have "spec_connect now v cp mp L = (case holder L mp of
           None \<Rightarrow> (Inl (PortNotExist cp mp), L)
         | Some k \<Rightarrow>
             (let v = the (L k) in
              if cp \<noteq> ClientPort v then (Inl (OldClientPortConflict mp cp (ClientPort v)), L)
              else if Status v \<noteq> Allocated then (Inl (PortAlreadyUsed mp v), L)
              else (let v' = v\<lparr>StartTime := Some now, Status := Connected\<rparr>
                    in (Inr v', L(k \<mapsto> v')))))" for L
      using False by (auto simp: spec_connect_def)
    moreover have "OnConnected now v cp mp pa = applyOld now cp mp pa"
      using False by (auto simp: OnConnected_def)
    ultimately show ?thesis
      by (simp add: applyOld_def Let_def holder_leases [OF ex] port leases_at_port [OF ex]
          leases_store [OF so pa_exclusiveD(4) [OF ex]] split: option.split)
  qed
qed

text \<open>
  C3: OnConnected computes its specification on registries: for a client that names itself,
  the port and application port must agree with its lease, or the port must be free for a
  new lease; for an old client, the port must be leased, with the same application port,
  and not in use. On every error the allocator is unchanged, and on success the pointer
  returned is to the lease stored.
\<close>

theorem OnConnected_refines:
  assumes ex: "pa_exclusive pa"
  shows "(let (r, pa') = OnConnected now v cp mp pa in (map_sum id (cells pa') r, leases pa')) =
         spec_connect now v cp mp (leases pa)"
  by (rule OnConnected_effect [OF ex])

theorem OnConnected_refines_witness:
  "(let pa = snd (AllocatePort 7 ''m'' ''u'' ''web'' 80 (NewPortAllocator 30000 30001));
        v = new_lease 0 ''m'' ''u'' ''web'' 80 30000;
        (r, pa') = OnConnected 9 v 80 30000 pa
    in (map_sum id (cells pa') r, leases pa')) =
   spec_connect 9 (new_lease 0 ''m'' ''u'' ''web'' 80 30000) 80 30000
     (leases (snd (AllocatePort 7 ''m'' ''u'' ''web'' 80 (NewPortAllocator 30000 30001))))"
  unfolding Let_def
  by (rule OnConnected_refines [OF AllocatePort_exclusive [OF NewPortAllocator_exclusive], unfolded Let_def])

text \<open>
  FreePort with a full identity removes exactly that lease and returns its copy, marked
  freed; every other lease stays as it is.
\<close>

lemma FreePort_effect:
  assumes ex: "pa_exclusive pa" and full: "u \<noteq> ''''" "n \<noteq> ''''"
  shows "map_prod id leases (FreePort order c u n pa) = spec_free (alloc_key c u n) (leases pa)"
proof (cases "names pa (alloc_key c u n)")
  case None
  with full show ?thesis by (simp add: FreePort_def spec_free_def leases_def)
next
  case (Some a)
  note so = pa_exclusiveD(1) [OF ex]
  let ?v = "(cells pa a)\<lparr>Status := Freed\<rparr>"
  have "leases (delete_entries [?v] (store a ?v pa)) = (leases pa)(alloc_key c u n := None)"
  proof (rule ext)
    fix k
    show "leases (delete_entries [?v] (store a ?v pa)) k = ((leases pa)(alloc_key c u n := None)) k"
      using pa_soundD(2) [OF so Some] names_inj [OF so Some, of k]
      by (auto simp: leases_def map_option_case split: option.split)
  qed
  moreover have "leases pa (alloc_key c u n) = Some (cells pa a)"
    using Some by (simp add: leases_def)
  ultimately show ?thesis
    using full Some by (simp add: FreePort_def spec_free_def Let_def del: delete_entries.simps)
qed

lemma FreeHangingPorts_lease_effect:
  assumes ex: "pa_exclusive pa" and order: "enumerates order (names pa)"
  shows "\<exists>freed pa'. FreeHangingPorts now order pa = Inr (freed, pa') \<and>
           leases pa' = spec_reclaim now (leases pa) \<and>
           (\<forall>v. v \<in> set freed \<longleftrightarrow>
              (\<exists>k w. leases pa k = Some w \<and> hangs now w \<and> v = w\<lparr>Status := Freed\<rparr>))"
proof (rule FreeHangingPorts_effect [OF ex order, of now])
  fix pa' :: PortAllocator
  assume eq: "FreeHangingPorts now order pa = Inr (map (\<lambda>v. v\<lparr>Status := Freed\<rparr>)
      (filter (hangs now) (List.map_filter (leases pa) order)), pa')"
    and names: "names pa' = names pa |` (- {k. \<exists>v. leases pa k = Some v \<and> hangs now v})"
    and cells: "\<And>k a. k \<notin> {k. \<exists>v. leases pa k = Some v \<and> hangs now v} \<Longrightarrow>
      names pa k = Some a \<Longrightarrow> cells pa' a = cells pa a"
  have "leases pa' k = spec_reclaim now (leases pa) k" for k
    using names cells [of k]
    by (auto simp: leases_def spec_reclaim_def restrict_map_def split: option.split)
  moreover have "k \<in> set order" if "leases pa k = Some v" for k v
    using that enumerates_iff [OF order] by (auto simp: leases_def)
  ultimately show ?thesis
    using eq by (fastforce simp: set_map_filter_iff image_iff)
qed

lemma FreeHangingPorts_leases:
  "pa_exclusive pa \<Longrightarrow> enumerates order (names pa) \<Longrightarrow> FreeHangingPorts now order pa = Inr (freed, pa') \<Longrightarrow>
   leases pa' = spec_reclaim now (leases pa)"
  using FreeHangingPorts_lease_effect [of pa order now] by auto

text \<open>
  C4: the reclaiming pass never reads a nil time, whatever the order of its visit: it
  removes exactly the leases that were allocated, and not connected, for more than ten
  minutes, keeps every other lease unchanged, and returns a freed copy of each it removed.
\<close>

theorem FreeHangingPorts_refines:
  assumes ex: "pa_exclusive pa" and order: "enumerates order (names pa)"
  shows "\<exists>freed pa'. FreeHangingPorts now order pa = Inr (freed, pa') \<and>
           leases pa' = spec_reclaim now (leases pa) \<and>
           (\<forall>v. v \<in> set freed \<longleftrightarrow>
              (\<exists>k w. leases pa k = Some w \<and> hangs now w \<and> v = w\<lparr>Status := Freed\<rparr>))"
  by (rule FreeHangingPorts_lease_effect [OF ex order])

theorem FreeHangingPorts_refines_witness:
  "\<exists>freed pa'. FreeHangingPorts 900000000000 [''m-u-web'']
         (snd (AllocatePort 7 ''m'' ''u'' ''web'' 80 (NewPortAllocator 30000 30001))) = Inr (freed, pa') \<and>
       leases pa' = spec_reclaim 900000000000
         (leases (snd (AllocatePort 7 ''m'' ''u'' ''web'' 80 (NewPortAllocator 30000 30001)))) \<and>
       (\<forall>v. v \<in> set freed \<longleftrightarrow> (\<exists>k w.
          leases (snd (AllocatePort 7 ''m'' ''u'' ''web'' 80 (NewPortAllocator 30000 30001))) k = Some w
          \<and> hangs 900000000000 w \<and> v = w\<lparr>Status := Freed\<rparr>))"
proof (rule FreeHangingPorts_refines [OF AllocatePort_exclusive [OF NewPortAllocator_exclusive]])
  show "enumerates [''m-u-web'']
     (names (snd (AllocatePort 7 ''m'' ''u'' ''web'' 80 (NewPortAllocator 30000 30001))))"
    by (simp add: enumerates_def AllocatePort_def NewPortAllocator_def alloc_key_def free_slot_def
        scan_ports.simps Let_def)
qed

subsection \<open>The interface\<close>

text \<open>
  What the control plane relies on: a registry whose leases are found under their own key
  and never share a port, an allocation that stores the lease it returns and touches no
  other, a failure that changes nothing, and a release that removes one lease.
\<close>

locale lease_registry =
  fixes good :: "'s \<Rightarrow> bool"
    and view :: "'s \<Rightarrow> registry"
    and allocate :: "time \<Rightarrow> string \<Rightarrow> string \<Rightarrow> string \<Rightarrow> int \<Rightarrow> 's \<Rightarrow> (PortError + PortAllocation) \<times> 's"
    and free :: "string \<Rightarrow> string \<Rightarrow> string \<Rightarrow> 's \<Rightarrow> PortAllocation list \<times> 's"
  assumes allocate_good: "good s \<Longrightarrow> good (snd (allocate now c u n cp s))"
    and free_good: "good s \<Longrightarrow> u \<noteq> '''' \<Longrightarrow> n \<noteq> '''' \<Longrightarrow> good (snd (free c u n s))"
    and view_key: "good s \<Longrightarrow> view s k = Some v \<Longrightarrow> key_of v = k"
    and view_port: "good s \<Longrightarrow> view s k = Some v \<Longrightarrow> view s k' = Some v' \<Longrightarrow>
          MappingPort v = MappingPort v' \<Longrightarrow> k = k'"
    and allocate_view: "good s \<Longrightarrow> allocate now c u n cp s = (Inr v, s') \<Longrightarrow>
          view s' = (view s)(alloc_key c u n \<mapsto> v)"
    and allocate_failed: "good s \<Longrightarrow> allocate now c u n cp s = (Inl e, s') \<Longrightarrow> s' = s"
    and free_view: "good s \<Longrightarrow> u \<noteq> '''' \<Longrightarrow> n \<noteq> '''' \<Longrightarrow>
          map_prod id view (free c u n s) = spec_free (alloc_key c u n) (view s)"
begin

lemma allocate_finds:
  "good s \<Longrightarrow> allocate now c u n cp s = (Inr v, s') \<Longrightarrow> view s' (alloc_key c u n) = Some v"
  by (simp add: allocate_view)

lemma allocate_other:
  "good s \<Longrightarrow> allocate now c u n cp s = (r, s') \<Longrightarrow> k \<noteq> alloc_key c u n \<Longrightarrow> view s' k = view s k"
  by (cases r) (auto simp: allocate_view dest: allocate_failed)

lemma allocate_key:
  "good s \<Longrightarrow> allocate now c u n cp s = (Inr v, s') \<Longrightarrow> key_of v = alloc_key c u n"
  using allocate_good [of s now c u n cp] view_key allocate_finds by fastforce

text \<open>The port returned is not the port of any other lease.\<close>

lemma allocate_new_port:
  assumes "good s" "allocate now c u n cp s = (Inr v, s')"
    and "view s k = Some w" "k \<noteq> alloc_key c u n"
  shows "MappingPort w \<noteq> MappingPort v"
proof
  assume "MappingPort w = MappingPort v"
  moreover have "good s'" using assms allocate_good [of s now c u n cp] by simp
  moreover have "view s' k = Some w" using assms allocate_other by metis
  moreover have "view s' (alloc_key c u n) = Some v" using assms allocate_finds by blast
  ultimately show False using assms(4) view_port by blast
qed

lemma free_gone:
  "good s \<Longrightarrow> u \<noteq> '''' \<Longrightarrow> n \<noteq> '''' \<Longrightarrow> view (snd (free c u n s)) (alloc_key c u n) = None"
  using free_view [of s u n c] by (cases "free c u n s") (auto simp: spec_free_def split: option.splits)

lemma free_other:
  "good s \<Longrightarrow> u \<noteq> '''' \<Longrightarrow> n \<noteq> '''' \<Longrightarrow> k \<noteq> alloc_key c u n \<Longrightarrow> view (snd (free c u n s)) k = view s k"
  using free_view [of s u n c] by (cases "free c u n s") (auto simp: spec_free_def split: option.splits)

lemma free_empty_iff:
  "good s \<Longrightarrow> u \<noteq> '''' \<Longrightarrow> n \<noteq> '''' \<Longrightarrow> fst (free c u n s) = [] \<longleftrightarrow> view s (alloc_key c u n) = None"
  using free_view [of s u n c] by (cases "free c u n s") (auto simp: spec_free_def split: option.splits)

end

lemma AllocatePort_view:
  assumes "pa_exclusive pa" "AllocatePort now c u n cp pa = (Inr v, pa')"
  shows "leases pa' = (leases pa)(alloc_key c u n \<mapsto> v)"
  using AllocatePort_effect [OF assms(1), of now c u n cp] assms(2)
  by (auto simp: spec_allocate_def Let_def split: option.splits)

lemma AllocatePort_failed:
  "AllocatePort now c u n cp pa = (Inl e, pa') \<Longrightarrow> pa' = pa"
  by (auto simp: AllocatePort_def Let_def split: option.splits)

interpretation reg: lease_registry pa_exclusive leases AllocatePort "FreePort order" for order
proof unfold_locales
  show "leases pa k = Some v \<Longrightarrow> key_of v = k" if "pa_exclusive pa" for pa k v
    using pa_soundD(2) [OF pa_exclusiveD(1) [OF that]] by (auto simp: leases_Some_iff)
qed (auto intro: alloc_inv_intros leases_port_inj AllocatePort_view AllocatePort_failed
    FreePort_effect)

end
