(* ===== verification/Go_Strings.thy ===== *)
theory Go_Strings
  imports Prelude
begin

section \<open>Strings and numbers of the Go library\<close>

text \<open>
  The functions of Go's packages strings and strconv that the program calls, on byte
  strings. \<open>ToLower\<close> maps the ASCII letters: it agrees with Go's on strings whose
  non-ASCII characters have no lower case form of their own.
\<close>

subsection \<open>strings\<close>

definition HasPrefix :: "string \<Rightarrow> string \<Rightarrow> bool" where
  "HasPrefix s p \<longleftrightarrow> prefix p s"

definition HasSuffix :: "string \<Rightarrow> string \<Rightarrow> bool" where
  "HasSuffix s p \<longleftrightarrow> suffix p s"

definition TrimPrefix :: "string \<Rightarrow> string \<Rightarrow> string" where
  "TrimPrefix s p = (if HasPrefix s p then drop (length p) s else s)"

definition lower_char :: "char \<Rightarrow> char" where
  "lower_char c =
     (let n = (of_char c :: nat) in if 65 \<le> n \<and> n \<le> 90 then char_of (n + 32) else c)"

definition ToLower :: "string \<Rightarrow> string" where
  "ToLower s = map lower_char s"

text \<open>\<open>strings.Split\<close> with a separator of one byte: never the empty list.\<close>

fun split_acc :: "char \<Rightarrow> string \<Rightarrow> string \<Rightarrow> string list" where
  "split_acc sep acc [] = [rev acc]"
| "split_acc sep acc (c # cs) =
     (if c = sep then rev acc # split_acc sep [] cs else split_acc sep (c # acc) cs)"

definition Split :: "string \<Rightarrow> char \<Rightarrow> string list" where
  "Split s sep = split_acc sep [] s"

text \<open>\<open>strings.SplitN(s, sep, 2)\<close>: the text before the first separator and the rest.\<close>

definition SplitN2 :: "string \<Rightarrow> char \<Rightarrow> string list" where
  "SplitN2 s sep =
     (if sep \<in> set s
      then [takeWhile (\<lambda>c. c \<noteq> sep) s, tl (dropWhile (\<lambda>c. c \<noteq> sep) s)] else [s])"

fun Join :: "string list \<Rightarrow> string \<Rightarrow> string" where
  "Join [] sep = []"
| "Join [s] sep = s"
| "Join (s # ss) sep = s @ sep @ Join ss sep"

subsection \<open>strconv\<close>

datatype NumError = ErrSyntax | ErrRange

definition is_digit :: "char \<Rightarrow> bool" where
  "is_digit c \<longleftrightarrow> 48 \<le> (of_char c :: nat) \<and> (of_char c :: nat) \<le> 57"

fun digits_value :: "string \<Rightarrow> nat \<Rightarrow> nat option" where
  "digits_value [] acc = Some acc"
| "digits_value (c # cs) acc =
     (if is_digit c then digits_value cs (10 * acc + (of_char c - 48)) else None)"

fun sign_of :: "string \<Rightarrow> bool \<times> string" where
  "sign_of [] = (False, [])"
| "sign_of (c # cs) =
     (if c = CHR ''-'' then (True, cs) else if c = CHR ''+'' then (False, cs) else (False, c # cs))"

text \<open>
  \<open>strconv.Atoi\<close> on a 64-bit machine: an optional sign and one or more decimal digits;
  beyond the range of \<open>int\<close> it is an error too.
\<close>

definition Atoi :: "string \<Rightarrow> NumError + int" where
  "Atoi s =
     (let (neg, ds) = sign_of s in
      if ds = [] then Inl ErrSyntax
      else (case digits_value ds 0 of
              None \<Rightarrow> Inl ErrSyntax
            | Some n \<Rightarrow>
                (let v = (if neg then - int n else int n) in
                 if - (2 ^ 63) \<le> v \<and> v < 2 ^ 63 then Inr v else Inl ErrRange)))"

text \<open>
  The number \<open>Atoi\<close> returns beside its error: 0 for malformed text, the nearest bound for
  a number out of range. The server's handlers read it without looking at the error.
\<close>

definition Atoi_value :: "string \<Rightarrow> int" where
  "Atoi_value s =
     (case Atoi s of
        Inr n \<Rightarrow> n
      | Inl ErrSyntax \<Rightarrow> 0
      | Inl ErrRange \<Rightarrow> if fst (sign_of s) then - (2 ^ 63) else 2 ^ 63 - 1)"

definition digit_char :: "nat \<Rightarrow> char" where
  "digit_char d = char_of (48 + d)"

fun show_nat :: "nat \<Rightarrow> string" where
  "show_nat n = (if n < 10 then [digit_char n] else show_nat (n div 10) @ [digit_char (n mod 10)])"

declare show_nat.simps [simp del]

definition show_int :: "int \<Rightarrow> string" where
  "show_int i = (if i < 0 then ''-'' @ show_nat (nat (- i)) else show_nat (nat i))"

subsection \<open>Split and Join\<close>

lemma split_acc_no_sep: "sep \<notin> set s \<Longrightarrow> split_acc sep acc s = [rev acc @ s]"
  by (induction sep acc s rule: split_acc.induct) auto

lemma split_acc_append:
  "sep \<notin> set s \<Longrightarrow> split_acc sep acc (s @ sep # t) = (rev acc @ s) # split_acc sep [] t"
  by (induction sep acc s rule: split_acc.induct) auto

lemma Split_no_sep [str_simps]: "sep \<notin> set s \<Longrightarrow> Split s sep = [s]"
  by (simp add: Split_def split_acc_no_sep)

lemma Split_Cons [str_simps]: "sep \<notin> set s \<Longrightarrow> Split (s @ sep # t) sep = s # Split t sep"
  by (simp add: Split_def split_acc_append)

lemma Split_not_Nil [simp]: "Split s sep \<noteq> []"
proof -
  have "split_acc sep acc s \<noteq> []" for acc by (induction sep acc s rule: split_acc.induct) auto
  then show ?thesis by (simp add: Split_def)
qed

text \<open>Splitting takes a string apart at every separator: joining the parts gives it back.\<close>

lemma Split_induct_step:
  obtains (last) "sep \<notin> set s" "Split s sep = [s]"
  | (more) p t where "s = p @ sep # t" "sep \<notin> set p" "Split s sep = p # Split t sep"
proof (cases "sep \<in> set s")
  case True
  then obtain p t where "s = p @ sep # t" "sep \<notin> set p"
    by (metis in_set_conv_decomp_first)
  then show ?thesis using more [of p t] Split_Cons [of sep p t] by simp
next
  case False
  then show ?thesis using last Split_no_sep [of sep s] by simp
qed

lemma Join_Split: "Join (Split s sep) [sep] = s"
proof (induction "length s" arbitrary: s rule: less_induct)
  case less
  show ?case
  proof (cases rule: Split_induct_step [of sep s])
    case last
    then show ?thesis by simp
  next
    case (more p t)
    then have "Join (Split t sep) [sep] = t" by (intro less) simp
    with more show ?thesis by (cases "Split t sep") auto
  qed
qed

lemma Split_parts: "p \<in> set (Split s sep) \<Longrightarrow> sep \<notin> set p"
proof (induction "length s" arbitrary: s rule: less_induct)
  case less
  show ?case
  proof (cases rule: Split_induct_step [of sep s])
    case last
    with less.prems show ?thesis by simp
  next
    case (more q t)
    then have "length t < length s" by simp
    with more less.prems less.hyps [of t] show ?thesis by auto
  qed
qed

subsection \<open>Decimal numbers\<close>

lemma is_digit_digit_char [simp]: "d < 10 \<Longrightarrow> is_digit (digit_char d)"
  by (simp add: is_digit_def digit_char_def)

lemma of_digit_char [simp]: "d < 10 \<Longrightarrow> (of_char (digit_char d) :: nat) = 48 + d"
  by (simp add: digit_char_def)

lemma digits_value_append:
  "digits_value (s @ t) acc = (case digits_value s acc of None \<Rightarrow> None | Some n \<Rightarrow> digits_value t n)"
  by (induction s acc rule: digits_value.induct) auto

lemma digits_value_show_nat: "digits_value (show_nat n) 0 = Some n"
proof (induction n rule: show_nat.induct)
  case (1 n)
  then show ?case
    by (cases "n < 10") (simp_all add: show_nat.simps [of n] digits_value_append)
qed

lemma show_nat_digits: "c \<in> set (show_nat n) \<Longrightarrow> is_digit c"
proof (induction n rule: show_nat.induct)
  case (1 n)
  then show ?case
    by (cases "n < 10") (auto simp: show_nat.simps [of n])
qed

lemma show_nat_not_Nil [simp]: "show_nat n \<noteq> []"
  by (simp add: show_nat.simps [of n])

lemma digit_not_sign: "is_digit c \<Longrightarrow> c \<noteq> CHR ''-'' \<and> c \<noteq> CHR ''+''"
  by (auto simp: is_digit_def)

lemma Atoi_show_nat:
  assumes "n < 2 ^ 63"
  shows "Atoi (show_nat n) = Inr (int n)"
proof -
  obtain c cs where c: "show_nat n = c # cs" by (cases "show_nat n") auto
  then have "is_digit c" using show_nat_digits [of c n] by simp
  then have "sign_of (show_nat n) = (False, show_nat n)"
    by (simp add: c digit_not_sign)
  moreover have "int n < 2 ^ 63" using assms by (metis of_nat_less_numeral_power_cancel_iff)
  ultimately show ?thesis
    by (simp add: Atoi_def digits_value_show_nat)
qed

end
