(* ===== verification/Control_Plane.thy ===== *)
theory Control_Plane
  imports Port_Leases Go_Strings
begin

section \<open>The control-plane API\<close>

text \<open>
  Models the HTTP handlers of server/server_handler.go that manage ports: the router
  \<open>handleControlPlaneHandler\<close> and its three endpoints, with \<open>getUserId\<close> and
  \<open>toString\<close>. A request carries what net/http and encoding/json hand to the handler: the
  decoded path, the query and header lookups (the empty string where absent) and the
  decoded body (none where decoding fails). The JWT parser is third-party code and is the
  parameter \<open>parse_jwt\<close>: the claims of a token, if it parses.
\<close>

subsection \<open>Requests and responses\<close>

record PortAllocationRequest =
  ClientId_req :: string
  UserId_req :: string
  AppName_req :: string
  ClientPort_req :: int

record http_request =
  Method :: string
  Path :: string
  Query :: "string \<Rightarrow> string"
  Header :: "string \<Rightarrow> string"
  Body :: "PortAllocationRequest option"

datatype http_body =
    ErrorBody string
  | PortQueryResponse int
  | PortsBody "PortAllocation list"
  | AllocationBody PortAllocation
  | TextBody string

type_synonym http_response = "int \<times> http_body"

subsection \<open>The user of a request\<close>

text \<open>
  The dynamic values \<open>toString\<close> distinguishes. A finite \<open>float64\<close> is its sign and
  magnitude \<open>m * 2 ^ e\<close>.
\<close>

datatype go_value =
    VString string
  | VFloat64 bool nat int
  | VInt int
  | VInt64 int
  | VOther

text \<open>\<open>%.0f\<close>: the nearest integer, ties to even, in decimal, after the sign.\<close>

definition round_half_even :: "nat \<Rightarrow> int \<Rightarrow> nat" where
  "round_half_even m e =
     (if 0 \<le> e then m * 2 ^ nat e
      else (let d = 2 ^ nat (- e); q = m div d; r = m mod d in
            if d < 2 * r \<or> (2 * r = d \<and> odd q) then q + 1 else q))"

fun toString :: "go_value \<Rightarrow> string" where
  "toString (VString s) = s"
| "toString (VFloat64 neg m e) = (if neg then ''-'' else '''') @ show_nat (round_half_even m e)"
| "toString (VInt i) = show_int i"
| "toString (VInt64 i) = show_int i"
| "toString VOther = ''''"

definition getUserId :: "(string \<Rightarrow> (string \<rightharpoonup> go_value) option) \<Rightarrow> http_request \<Rightarrow> string" where
  "getUserId parse_jwt r =
     (let authHeader = Header r ''Authorization'' in
      if authHeader = '''' then ''''
      else (let tokenString = (if HasPrefix authHeader ''Bearer '' then drop 7 authHeader else authHeader) in
            case parse_jwt tokenString of
              None \<Rightarrow> ''''
            | Some claims \<Rightarrow> (case claims ''id'' of None \<Rightarrow> '''' | Some v \<Rightarrow> toString v)))"

subsection \<open>The endpoints\<close>

definition rError :: "int \<Rightarrow> string \<Rightarrow> http_response" where
  "rError code msg = (code, ErrorBody msg)"

definition rJSON :: "int \<Rightarrow> http_body \<Rightarrow> http_response" where
  "rJSON code body = (code, body)"

text \<open>
  The identity a GET asks for: from the path \<open>/cotun/api/v1/ports/{client}/{app}\<close> or from
  the query, the user from the query or else from the token.
\<close>

definition query_identity ::
  "(string \<Rightarrow> (string \<rightharpoonup> go_value) option) \<Rightarrow> http_request \<Rightarrow> string \<times> string \<times> string" where
  "query_identity parse_jwt r =
     (let paths = Split (Path r) CHR ''/'';
          (clientId, appName) =
            (if length paths = 7 then (paths ! 5, paths ! 6)
             else (Query r ''clientId'', Query r ''appName''));
          userId0 = Query r ''userId'';
          userId = (if userId0 = '''' then getUserId parse_jwt r else userId0)
      in (clientId, userId, appName))"

definition handleGetPorts ::
  "(string \<Rightarrow> (string \<rightharpoonup> go_value) option) \<Rightarrow> string list \<Rightarrow> http_request \<Rightarrow> PortAllocator \<Rightarrow>
   http_response" where
  "handleGetPorts parse_jwt order r pa =
     (let (clientId, userId, appName) = query_identity parse_jwt r;
          ports = QueryPorts order clientId userId appName pa
      in if clientId \<noteq> '''' \<and> appName \<noteq> '''' \<and> userId \<noteq> '''' then
           (case ports of
              [] \<Rightarrow> rError 404 ''Port mapping not found''
            | v # _ \<Rightarrow> rJSON 200 (PortQueryResponse (MappingPort v)))
         else rJSON 200 (PortsBody ports))"

definition handleCreatePort ::
  "(string \<Rightarrow> (string \<rightharpoonup> go_value) option) \<Rightarrow> time \<Rightarrow> http_request \<Rightarrow> PortAllocator \<Rightarrow>
   http_response \<times> PortAllocator" where
  "handleCreatePort parse_jwt now r pa =
     (case Body r of
        None \<Rightarrow> (rError 400 ''Invalid request body'', pa)
      | Some req \<Rightarrow>
          (let req = (if UserId_req req = '''' then req\<lparr>UserId_req := getUserId parse_jwt r\<rparr> else req) in
           if ClientId_req req = '''' \<or> AppName_req req = '''' \<or> UserId_req req = ''''
             then (rError 400 ''Missing required fields'', pa)
           else (case AllocatePort now (ClientId_req req) (UserId_req req) (AppName_req req)
                        (ClientPort_req req) pa of
                   (Inl _, pa') \<Rightarrow> (rError 507 ''No available ports'', pa')
                 | (Inr ret, pa') \<Rightarrow> (rJSON 200 (AllocationBody ret), pa'))))"

definition handleDeletePort ::
  "(string \<Rightarrow> (string \<rightharpoonup> go_value) option) \<Rightarrow> string list \<Rightarrow> http_request \<Rightarrow> PortAllocator \<Rightarrow>
   http_response \<times> PortAllocator" where
  "handleDeletePort parse_jwt order r pa =
     (let clientID = Query r ''clientId''; appName = Query r ''appName'';
          userId0 = Query r ''userId'';
          userId = (if userId0 = '''' then getUserId parse_jwt r else userId0)
      in if clientID = '''' \<or> appName = '''' \<or> userId = ''''
           then (rError 400 ''Missing parameters'', pa)
         else (let (freed, pa') = FreePort order clientID userId appName pa in
               if freed = [] then (rError 404 ''Port not found'', pa')
               else (rJSON 200 (TextBody ''Port deleted successfully''), pa')))"

definition handleControlPlaneHandler ::
  "(string \<Rightarrow> (string \<rightharpoonup> go_value) option) \<Rightarrow> time \<Rightarrow> string list \<Rightarrow> http_request \<Rightarrow> PortAllocator \<Rightarrow>
   http_response \<times> PortAllocator" where
  "handleControlPlaneHandler parse_jwt now order r pa =
     (let paths = Split (Path r) CHR ''/'' in
      if length paths < 5 then (rError 404 ''API endpoint not found'', pa)
      else if paths ! 1 \<noteq> ''tunnel-manager'' \<and> paths ! 1 \<noteq> ''cotun''
        then (rError 404 ''API endpoint not found'', pa)
      else if paths ! 2 \<noteq> ''api'' \<or> paths ! 3 \<noteq> ''v1'' \<or> paths ! 4 \<noteq> ''ports''
        then (rError 404 ''API endpoint not found'', pa)
      else if Method r = ''GET'' then (handleGetPorts parse_jwt order r pa, pa)
      else if Method r = ''POST'' then handleCreatePort parse_jwt now r pa
      else if Method r = ''DELETE'' then handleDeletePort parse_jwt order r pa
      else (rError 404 ''API endpoint not found'', pa))"

subsection \<open>Queries through the registry\<close>

lemma QueryPorts_eq:
  "QueryPorts order c u n pa = filter (query_match c u n) (List.map_filter (leases pa) order)"
  by (induction order) (auto simp: map_filter_simps leases_def split: option.splits)

lemma query_match_full:
  "c \<noteq> '''' \<Longrightarrow> u \<noteq> '''' \<Longrightarrow> n \<noteq> '''' \<Longrightarrow>
   query_match c u n v \<longleftrightarrow> ClientId v = c \<and> UserId v = u \<and> AppName v = n"
  by (auto simp: query_match_def)

lemma filter_map_filter_unique:
  assumes "distinct xs" and "\<And>x y. f x = Some y \<Longrightarrow> P y \<Longrightarrow> x = k"
  shows "filter P (List.map_filter f xs) =
    (if k \<in> set xs then (case f k of None \<Rightarrow> [] | Some y \<Rightarrow> if P y then [y] else []) else [])"
  using assms(1)
proof (induction xs)
  case Nil
  then show ?case by (simp add: map_filter_simps)
next
  case (Cons x xs)
  then show ?case using assms(2) [of x]
    by (auto simp: map_filter_simps split: option.splits)
qed

text \<open>A query for a full identity finds at most one lease, whatever the order of the visit.\<close>

lemma QueryPorts_full:
  assumes so: "pa_sound pa" and order: "enumerates order (names pa)"
    and full: "c \<noteq> ''''" "u \<noteq> ''''" "n \<noteq> ''''"
  shows "QueryPorts order c u n pa =
    (case leases pa (alloc_key c u n) of
       None \<Rightarrow> []
     | Some v \<Rightarrow> if ClientId v = c \<and> UserId v = u \<and> AppName v = n then [v] else [])"
proof -
  have unique: "k = alloc_key c u n" if "leases pa k = Some v" "query_match c u n v" for k v
    using that pa_soundD(2) [OF so] full
    by (auto simp: leases_Some_iff query_match_full key_of_def)
  have "QueryPorts order c u n pa =
    (if alloc_key c u n \<in> set order
     then (case leases pa (alloc_key c u n) of None \<Rightarrow> [] | Some v \<Rightarrow> if query_match c u n v then [v] else [])
     else [])"
    unfolding QueryPorts_eq
    by (rule filter_map_filter_unique [OF enumerates_distinct [OF order]]) (rule unique)
  then show ?thesis
    using enumerates_iff [OF order, of "alloc_key c u n"]
    by (auto simp: query_match_full full leases_def split: option.splits)
qed

subsection \<open>Routing\<close>

text \<open>The paths of the ports API: what is before the first slash and after \<open>ports\<close> is free.\<close>

definition ports_api_path :: "string \<Rightarrow> bool" where
  "ports_api_path p \<longleftrightarrow>
     (\<exists>x m rest. p = x @ ''/'' @ m @ ''/api/v1/ports'' @ rest \<and> CHR ''/'' \<notin> set x \<and>
        (m = ''tunnel-manager'' \<or> m = ''cotun'') \<and> (rest = [] \<or> hd rest = CHR ''/''))"

definition route_ok :: "string list \<Rightarrow> bool" where
  "route_ok paths \<longleftrightarrow> 5 \<le> length paths \<and> (paths ! 1 = ''tunnel-manager'' \<or> paths ! 1 = ''cotun'') \<and>
     paths ! 2 = ''api'' \<and> paths ! 3 = ''v1'' \<and> paths ! 4 = ''ports''"

lemma route_ok_five:
  "route_ok paths \<longleftrightarrow>
     (\<exists>x m tail. paths = [x, m, ''api'', ''v1'', ''ports''] @ tail \<and> (m = ''tunnel-manager'' \<or> m = ''cotun''))"
proof
  assume ok: "route_ok paths"
  then have "paths = [paths ! 0, paths ! 1, paths ! 2, paths ! 3, paths ! 4] @ drop 5 paths"
    by (simp add: route_ok_def Cons_nth_drop_Suc [symmetric] numeral_eq_Suc)
      (metis Cons_nth_drop_Suc Suc_le_lessD drop0 Suc_leD)
  with ok show "\<exists>x m tail. paths = [x, m, ''api'', ''v1'', ''ports''] @ tail \<and>
      (m = ''tunnel-manager'' \<or> m = ''cotun'')"
    by (metis route_ok_def)
qed (auto simp: route_ok_def)

lemma Join_append:
  "ss \<noteq> [] \<Longrightarrow> Join (ss @ ts) sep = Join ss sep @ (if ts = [] then [] else sep @ Join ts sep)"
  by (induction ss sep rule: Join.induct) (auto simp: neq_Nil_conv)

lemma route_ok_iff: "route_ok (Split p CHR ''/'') \<longleftrightarrow> ports_api_path p"
proof
  assume "route_ok (Split p CHR ''/'')"
  then obtain x m tail where split: "Split p CHR ''/'' = [x, m, ''api'', ''v1'', ''ports''] @ tail"
    and m: "m = ''tunnel-manager'' \<or> m = ''cotun''"
    by (auto simp: route_ok_five)
  have "p = Join ([x, m, ''api'', ''v1'', ''ports''] @ tail) ''/''"
    using Join_Split [of p "CHR ''/''"] unfolding split by simp
  then have "p = x @ ''/'' @ m @ ''/api/v1/ports'' @ (if tail = [] then [] else ''/'' @ Join tail ''/'')"
    by (cases tail) simp_all
  moreover have "CHR ''/'' \<notin> set x"
    using Split_parts [of x p "CHR ''/''"] split by simp
  ultimately show "ports_api_path p"
    using m unfolding ports_api_path_def
    by (intro exI [of _ x] exI [of _ m] exI [of _ "if tail = [] then [] else ''/'' @ Join tail ''/''"])
      simp
next
  assume "ports_api_path p"
  then obtain x m rest where p: "p = x @ ''/'' @ m @ ''/api/v1/ports'' @ rest" and x: "CHR ''/'' \<notin> set x"
    and m: "m = ''tunnel-manager'' \<or> m = ''cotun''" and rest: "rest = [] \<or> hd rest = CHR ''/''"
    by (auto simp: ports_api_path_def)
  have "CHR ''/'' \<notin> set m" using m by auto
  then have "Split p CHR ''/'' = [x, m, ''api'', ''v1''] @ Split (''ports'' @ rest) CHR ''/''"
    using x Split_Cons [of "CHR ''/''" x "m @ ''/api/v1/ports'' @ rest"]
      Split_Cons [of "CHR ''/''" m "''api/v1/ports'' @ rest"]
      Split_Cons [of "CHR ''/''" "''api''" "''v1/ports'' @ rest"]
      Split_Cons [of "CHR ''/''" "''v1''" "''ports'' @ rest"]
    by (simp add: p)
  moreover have "\<exists>tail. Split (''ports'' @ rest) CHR ''/'' = ''ports'' # tail"
  proof (cases rest)
    case Nil
    then show ?thesis by (simp add: Split_no_sep)
  next
    case (Cons c cs)
    with rest have "rest = CHR ''/'' # cs" by simp
    then show ?thesis using Split_Cons [of "CHR ''/''" "''ports''" cs] by simp
  qed
  ultimately show "route_ok (Split p CHR ''/'')"
    using m by (auto simp: route_ok_five)
qed

text \<open>
  The router serves exactly the paths \<open>x/tunnel-manager/api/v1/ports...\<close> and
  \<open>x/cotun/api/v1/ports...\<close> (\<open>ports\<close> being a whole segment), by method; every other path
  and every other method is answered 404 and leaves the allocator as it is.
\<close>

lemma control_plane_routing:
  "handleControlPlaneHandler parse_jwt now order r pa =
     (if ports_api_path (Path r) \<and> Method r = ''GET'' then (handleGetPorts parse_jwt order r pa, pa)
      else if ports_api_path (Path r) \<and> Method r = ''POST'' then handleCreatePort parse_jwt now r pa
      else if ports_api_path (Path r) \<and> Method r = ''DELETE'' then handleDeletePort parse_jwt order r pa
      else ((404, ErrorBody ''API endpoint not found''), pa))"
  unfolding route_ok_iff [symmetric]
  by (auto simp: handleControlPlaneHandler_def route_ok_def rError_def Let_def)

subsection \<open>The endpoints on the registry\<close>

text \<open>The identity a POST registers: the body's fields, the user from the token by default.\<close>

definition create_user ::
  "(string \<Rightarrow> (string \<rightharpoonup> go_value) option) \<Rightarrow> http_request \<Rightarrow> PortAllocationRequest \<Rightarrow> string" where
  "create_user parse_jwt r req =
     (if UserId_req req = '''' then getUserId parse_jwt r else UserId_req req)"

lemma handleCreatePort_200:
  assumes "handleCreatePort parse_jwt now r pa = ((200, AllocationBody v), pa')" "Body r = Some req"
  shows "AllocatePort now (ClientId_req req) (create_user parse_jwt r req) (AppName_req req)
           (ClientPort_req req) pa = (Inr v, pa')"
    and "ClientId_req req \<noteq> ''''" "create_user parse_jwt r req \<noteq> ''''" "AppName_req req \<noteq> ''''"
  using assms
  by (auto simp: handleCreatePort_def Let_def create_user_def rError_def rJSON_def
      split: if_splits sum.splits prod.splits)

lemma handleGetPorts_full:
  assumes "pa_sound pa" "enumerates order (names pa)" "query_identity parse_jwt g = (c, u, n)"
    and full: "c \<noteq> ''''" "u \<noteq> ''''" "n \<noteq> ''''"
  shows "handleGetPorts parse_jwt order g pa =
    (case leases pa (alloc_key c u n) of
       None \<Rightarrow> (404, ErrorBody ''Port mapping not found'')
     | Some v \<Rightarrow> if ClientId v = c \<and> UserId v = u \<and> AppName v = n
                 then (200, PortQueryResponse (MappingPort v))
                 else (404, ErrorBody ''Port mapping not found''))"
  using assms
  by (simp add: handleGetPorts_def QueryPorts_full rError_def rJSON_def split: option.split)

text \<open>
  After a POST that answers 200 with a lease, a GET for the same identity answers that
  lease's port when the lease carries the identity asked for. Otherwise (the key of the
  request was already registered by another identity with the same key text) it answers
  404.
\<close>

lemma get_after_create:
  assumes ex: "pa_exclusive pa"
    and post: "handleCreatePort parse_jwt now r pa = ((200, AllocationBody v), pa')" "Body r = Some req"
    and get: "query_identity parse_jwt g =
                (ClientId_req req, create_user parse_jwt r req, AppName_req req)"
    and order: "enumerates order (names pa')"
  shows "handleGetPorts parse_jwt order g pa' =
    (if ClientId v = ClientId_req req \<and> UserId v = create_user parse_jwt r req \<and>
        AppName v = AppName_req req
     then (200, PortQueryResponse (MappingPort v))
     else (404, ErrorBody ''Port mapping not found''))"
proof -
  note created = handleCreatePort_200 [OF post]
  have "pa_exclusive pa'"
    using reg.allocate_good [OF ex] created(1) by (metis snd_conv)
  then have "pa_sound pa'" by (rule pa_exclusiveD)
  moreover have "leases pa' (alloc_key (ClientId_req req) (create_user parse_jwt r req) (AppName_req req)) = Some v"
    by (rule reg.allocate_finds [OF ex created(1)])
  ultimately show ?thesis
    by (simp add: handleGetPorts_full [OF _ order get created(2-4)])
qed

text \<open>
  A port handed out by a POST is not the port of any lease held under another key.
\<close>

lemma create_port_unshared:
  assumes ex: "pa_exclusive pa"
    and post: "handleCreatePort parse_jwt now r pa = ((200, AllocationBody v), pa')" "Body r = Some req"
    and other: "leases pa k = Some w" "k \<noteq> key_of v"
  shows "leases pa' k = Some w \<and> MappingPort w \<noteq> MappingPort v"
proof -
  note created = handleCreatePort_200(1) [OF post]
  have key: "key_of v = alloc_key (ClientId_req req) (create_user parse_jwt r req) (AppName_req req)"
    by (rule reg.allocate_key [OF ex created])
  with other have ne: "k \<noteq> alloc_key (ClientId_req req) (create_user parse_jwt r req) (AppName_req req)"
    by simp
  with other(1) show ?thesis
    using reg.allocate_other [OF ex created ne] reg.allocate_new_port [OF ex created other(1) ne]
    by simp
qed

text \<open>
  A DELETE with a full identity answers 200 exactly when the identity's key has a lease
  (404 otherwise); afterwards a GET for that identity answers 404 and every other lease is
  as before.
\<close>

lemma get_after_delete:
  assumes ex: "pa_exclusive pa"
    and del: "Query r ''clientId'' = c" "Query r ''userId'' = u" "Query r ''appName'' = n"
    and full: "c \<noteq> ''''" "u \<noteq> ''''" "n \<noteq> ''''"
    and deleted: "handleDeletePort parse_jwt order r pa = (resp, pa')"
    and get: "query_identity parse_jwt g = (c, u, n)" "enumerates order' (names pa')"
  shows "fst resp = (if leases pa (alloc_key c u n) = None then 404 else 200) \<and>
    handleGetPorts parse_jwt order' g pa' = (404, ErrorBody ''Port mapping not found'') \<and>
    (\<forall>k. k \<noteq> alloc_key c u n \<longrightarrow> leases pa' k = leases pa k)"
proof (intro conjI)
  have pa': "pa' = snd (FreePort order c u n pa)"
    and resp: "fst resp = (if fst (FreePort order c u n pa) = [] then 404 else 200)"
    using deleted full by (auto simp: handleDeletePort_def Let_def del rError_def rJSON_def
        split: prod.splits if_splits)
  show "fst resp = (if leases pa (alloc_key c u n) = None then 404 else 200)"
    using resp reg.free_empty_iff [OF ex full(2,3)] by simp
  have "pa_sound pa'"
    using pa_exclusiveD(1) [OF reg.free_good [OF ex full(2,3)]] by (simp add: pa')
  moreover have "leases pa' (alloc_key c u n) = None"
    using reg.free_gone [OF ex full(2,3)] by (simp add: pa')
  ultimately show "handleGetPorts parse_jwt order' g pa' = (404, ErrorBody ''Port mapping not found'')"
    by (simp add: handleGetPorts_full [OF _ get(2,1) full])
  show "\<forall>k. k \<noteq> alloc_key c u n \<longrightarrow> leases pa' k = leases pa k"
    using reg.free_other [OF ex full(2,3)] by (simp add: pa')
qed

subsection \<open>Concrete requests\<close>

definition get_request :: "string \<Rightarrow> string \<Rightarrow> string \<Rightarrow> http_request" where
  "get_request c u n = \<lparr>Method = ''GET'', Path = ''/cotun/api/v1/ports'',
     Query = (\<lambda>q. if q = ''clientId'' then c else if q = ''userId'' then u
                  else if q = ''appName'' then n else ''''),
     Header = (\<lambda>_. ''''), Body = None\<rparr>"

definition post_request :: "string \<Rightarrow> string \<Rightarrow> string \<Rightarrow> int \<Rightarrow> http_request" where
  "post_request c u n cp = \<lparr>Method = ''POST'', Path = ''/cotun/api/v1/ports'', Query = (\<lambda>_. ''''),
     Header = (\<lambda>_. ''''),
     Body = Some \<lparr>ClientId_req = c, UserId_req = u, AppName_req = n, ClientPort_req = cp\<rparr>\<rparr>"

lemma query_identity_get [simp]:
  "u \<noteq> '''' \<Longrightarrow> query_identity parse_jwt (get_request c u n) = (c, u, n)"
  by (simp add: query_identity_def get_request_def Split_def Let_def)

lemma get_request_Query [simp]:
  "Query (get_request c u n) ''clientId'' = c" "Query (get_request c u n) ''userId'' = u"
  "Query (get_request c u n) ''appName'' = n"
  by (simp_all add: get_request_def)

lemmas request_eval = handleCreatePort_def handleDeletePort_def post_request_def get_request_def
  create_user_def AllocatePort_def NewPortAllocator_def alloc_key_def free_slot_def
  scan_ports.simps Let_def rError_def rJSON_def enumerates_def leases_def key_of_def

lemma post_first:
  "handleCreatePort parse_jwt now (post_request ''m'' ''u'' ''web'' 80) (NewPortAllocator 30000 30001) =
     ((200, AllocationBody (new_lease now ''m'' ''u'' ''web'' 80 30000)),
      snd (register ''m-u-web'' 30000 (new_lease now ''m'' ''u'' ''web'' 80 30000)
             (NewPortAllocator 30000 30001)))"
  by (simp add: request_eval)

lemma get_after_create_witness:
  "handleGetPorts (\<lambda>_. None) [''m-u-web''] (get_request ''m'' ''u'' ''web'')
     (snd (handleCreatePort (\<lambda>_. None) 5 (post_request ''m'' ''u'' ''web'' 80) (NewPortAllocator 30000 30001))) =
   (200, PortQueryResponse 30000)"
  by (subst post_first, unfold snd_conv,
      subst get_after_create [OF NewPortAllocator_exclusive post_first, where
        req = "\<lparr>ClientId_req = ''m'', UserId_req = ''u'', AppName_req = ''web'', ClientPort_req = 80\<rparr>"])
    (simp_all add: post_request_def create_user_def enumerates_def NewPortAllocator_def)

abbreviation one_lease :: PortAllocator where
  "one_lease \<equiv> snd (AllocatePort 1 ''m'' ''u'' ''web'' 80 (NewPortAllocator 30000 30001))"

lemma one_lease_exclusive: "pa_exclusive one_lease"
  by (intro alloc_inv_intros)

theorem create_port_unshared_witness:
  "\<exists>v pa'. handleCreatePort (\<lambda>_. None) 5 (post_request ''m2'' ''u'' ''db'' 90) one_lease =
       ((200, AllocationBody v), pa') \<and>
     leases pa' ''m-u-web'' = Some (new_lease 1 ''m'' ''u'' ''web'' 80 30000) \<and> 30000 \<noteq> MappingPort v"
proof -
  let ?v = "new_lease 5 ''m2'' ''u'' ''db'' 90 30001"
  obtain pa' where post: "handleCreatePort (\<lambda>_. None) 5 (post_request ''m2'' ''u'' ''db'' 90) one_lease =
      ((200, AllocationBody ?v), pa')"
    by (simp add: request_eval)
  have "leases one_lease ''m-u-web'' = Some (new_lease 1 ''m'' ''u'' ''web'' 80 30000)"
    by (simp add: request_eval)
  from create_port_unshared [OF one_lease_exclusive post _ this]
  have "leases pa' ''m-u-web'' = Some (new_lease 1 ''m'' ''u'' ''web'' 80 30000) \<and>
      MappingPort (new_lease 1 ''m'' ''u'' ''web'' 80 30000) \<noteq> MappingPort ?v"
    by (simp add: post_request_def alloc_key_def)
  with post show ?thesis by simp
qed

theorem get_after_delete_witness:
  "fst (fst (handleDeletePort (\<lambda>_. None) [] (get_request ''m'' ''u'' ''web'') one_lease)) = 200 \<and>
   handleGetPorts (\<lambda>_. None) [] (get_request ''m'' ''u'' ''web'')
     (snd (handleDeletePort (\<lambda>_. None) [] (get_request ''m'' ''u'' ''web'') one_lease)) =
   (404, ErrorBody ''Port mapping not found'')"
proof -
  let ?d = "handleDeletePort (\<lambda>_. None) [] (get_request ''m'' ''u'' ''web'') one_lease"
  have "names (snd ?d) = Map.empty"
    by (simp add: request_eval FreePort_def)
  then have "enumerates [] (names (snd ?d))" by (simp add: enumerates_def)
  from get_after_delete [OF one_lease_exclusive _ _ _ _ _ _ _ _ this, of "get_request ''m'' ''u'' ''web''"
      "''m''" "''u''" "''web''" "\<lambda>_. None" "[]" "fst ?d" "get_request ''m'' ''u'' ''web''"]
  moreover have "leases one_lease (alloc_key ''m'' ''u'' ''web'') \<noteq> None"
    by (simp add: request_eval)
  ultimately show ?thesis by simp
qed

text \<open>
  C23: the answers of a POST. A body that does not decode or lacks a field answers 400 and
  changes nothing. Otherwise the answer is 507, and nothing changes, exactly when the key
  has no lease and every port of the range is held by one; else it is 200.
\<close>

theorem create_answers:
  assumes ex: "pa_exclusive pa" and "handleCreatePort parse_jwt now r pa = (resp, pa')"
  shows "fst resp =
    (case Body r of
       None \<Rightarrow> 400
     | Some req \<Rightarrow>
         (if ClientId_req req = '''' \<or> AppName_req req = '''' \<or> create_user parse_jwt r req = '''' then 400
          else if leases pa (alloc_key (ClientId_req req) (create_user parse_jwt r req) (AppName_req req)) = None \<and>
                  (\<forall>p. minPort pa \<le> p \<and> p \<le> maxPort pa \<longrightarrow> p \<in> taken_ports (leases pa)) then 507
          else 200)) \<and>
    (fst resp \<noteq> 200 \<longrightarrow> pa' = pa)"
proof (cases "Body r")
  case None
  with assms(2) show ?thesis by (auto simp: handleCreatePort_def rError_def)
next
  case (Some req)
  let ?c = "ClientId_req req" and ?n = "AppName_req req" and ?u = "create_user parse_jwt r req"
  show ?thesis
  proof (cases "?c = '''' \<or> ?n = '''' \<or> ?u = ''''")
    case True
    with Some assms(2) show ?thesis
      by (auto simp: handleCreatePort_def Let_def rError_def create_user_def split: if_splits)
  next
    case False
    obtain res pa1 where alloc: "AllocatePort now ?c ?u ?n (ClientPort_req req) pa = (res, pa1)"
      by fastforce
    with False Some assms(2) have post: "pa' = pa1 \<and> fst resp = (case res of Inl _ \<Rightarrow> 507 | Inr _ \<Rightarrow> 200)"
      by (auto simp: handleCreatePort_def Let_def rError_def rJSON_def create_user_def
          split: if_splits sum.splits)
    have "res = fst (spec_allocate now ?c ?u ?n (ClientPort_req req) (minPort pa) (maxPort pa) (leases pa))"
      using AllocatePort_effect [OF ex, of now ?c ?u ?n "ClientPort_req req"] alloc
      by (metis fst_conv fst_map_prod id_apply)
    then have "(\<exists>e. res = Inl e) \<longleftrightarrow> leases pa (alloc_key ?c ?u ?n) = None \<and>
        (\<forall>p. minPort pa \<le> p \<and> p \<le> maxPort pa \<longrightarrow> p \<in> taken_ports (leases pa))"
      by (auto simp: spec_allocate_def Let_def scan_ports_None_iff split: option.splits)
        (auto simp: scan_ports_Some_iff)
    moreover have "pa1 = pa" if "res = Inl e" for e
      using alloc that AllocatePort_failed by blast
    ultimately show ?thesis
      using Some False post by (cases res) auto
  qed
qed

theorem create_answers_witness:
  "fst (fst (handleCreatePort (\<lambda>_. None) 5 (post_request ''m2'' ''u'' ''db'' 90)
       (snd (AllocatePort 1 ''m'' ''u'' ''web'' 80 (NewPortAllocator 30000 30000))))) = 507"
proof -
  let ?pa = "snd (AllocatePort 1 ''m'' ''u'' ''web'' 80 (NewPortAllocator 30000 30000))"
  have ex: "pa_exclusive ?pa" by (intro alloc_inv_intros)
  have none: "leases ?pa ''m2-u-db'' = None" by (simp add: request_eval)
  have "leases ?pa ''m-u-web'' = Some (new_lease 1 ''m'' ''u'' ''web'' 80 30000)"
    by (simp add: request_eval)
  then have "30000 \<in> taken_ports (leases ?pa)" by (rule taken_portsI) simp
  moreover have "minPort ?pa = 30000" "maxPort ?pa = 30000" by (simp_all add: request_eval)
  ultimately have "\<forall>p. minPort ?pa \<le> p \<and> p \<le> maxPort ?pa \<longrightarrow> p \<in> taken_ports (leases ?pa)"
    by (metis order_antisym)
  with create_answers [OF ex prod.collapse [symmetric],
      of "\<lambda>_. None" 5 "post_request ''m2'' ''u'' ''db'' 90"] none
  show ?thesis by (simp add: post_request_def create_user_def alloc_key_def)
qed

end
