(* ===== verification/Go_Url.thy ===== *)
theory Go_Url
  imports Go_Strings
begin

section \<open>Which strings net/url accepts as a URL\<close>

text \<open>
  The error behaviour of Go's \<open>url.Parse\<close> (Go 1.21) on a scheme-relative reference
  \<open>//authority/path?query#fragment\<close>, which is how share/settings/remote.go checks a host:
  only whether parsing fails matters there, so the parts of the URL are not built.
\<close>

definition is_hex :: "char \<Rightarrow> bool" where
  "is_hex c \<longleftrightarrow> is_digit c \<or> (97 \<le> (of_char c :: nat) \<and> (of_char c :: nat) \<le> 102)
     \<or> (65 \<le> (of_char c :: nat) \<and> (of_char c :: nat) \<le> 70)"

definition is_alnum :: "char \<Rightarrow> bool" where
  "is_alnum c \<longleftrightarrow> is_digit c \<or> (97 \<le> (of_char c :: nat) \<and> (of_char c :: nat) \<le> 122)
     \<or> (65 \<le> (of_char c :: nat) \<and> (of_char c :: nat) \<le> 90)"

definition is_control :: "char \<Rightarrow> bool" where
  "is_control c \<longleftrightarrow> (of_char c :: nat) < 32 \<or> (of_char c :: nat) = 127"

text \<open>Bytes that may stand unescaped in a host: all non-ASCII ones and those of RFC 3986.\<close>

definition host_char :: "char \<Rightarrow> bool" where
  "host_char c \<longleftrightarrow> 128 \<le> (of_char c :: nat) \<or> is_alnum c \<or> c \<in> set ''!$&()*+,;=:[]<>-_.~'' \<or>
     (of_char c :: nat) = 39 \<or> (of_char c :: nat) = 34"

text \<open>\<open>%XY\<close> with two hexadecimal digits, for every mode.\<close>

fun escapes_ok :: "string \<Rightarrow> bool" where
  "escapes_ok [] = True"
| "escapes_ok (c # cs) =
     (if c = CHR ''%'' then (case cs of x # y # r \<Rightarrow> is_hex x \<and> is_hex y \<and> escapes_ok r | _ \<Rightarrow> False)
      else escapes_ok cs)"

text \<open>
  In a host only non-ASCII bytes may be escaped, or the percent sign itself as \<open>%25\<close>; in
  the zone of an IPv6 address, anything that is legal in a host, and a space.
\<close>

definition hex_value :: "char \<Rightarrow> nat" where
  "hex_value c = (let n = of_char c in if n \<le> 57 then n - 48 else if n \<le> 70 then n - 55 else n - 87)"

fun host_ok :: "string \<Rightarrow> bool" where
  "host_ok [] = True"
| "host_ok (c # cs) =
     (if c = CHR ''%'' then
        (case cs of
           x # y # r \<Rightarrow> is_hex x \<and> is_hex y \<and> (8 \<le> hex_value x \<or> [x, y] = ''25'') \<and> host_ok r
         | _ \<Rightarrow> False)
      else host_char c \<and> host_ok cs)"

fun zone_ok :: "string \<Rightarrow> bool" where
  "zone_ok [] = True"
| "zone_ok (c # cs) =
     (if c = CHR ''%'' then
        (case cs of
           x # y # r \<Rightarrow> is_hex x \<and> is_hex y \<and>
             (let v = char_of (16 * hex_value x + hex_value y) in
              [x, y] = ''25'' \<or> v = CHR '' '' \<or> (host_char v \<and> (of_char v :: nat) < 128)) \<and> zone_ok r
         | _ \<Rightarrow> False)
      else host_char c \<and> zone_ok cs)"

definition valid_optional_port :: "string \<Rightarrow> bool" where
  "valid_optional_port s \<longleftrightarrow> s = '''' \<or> (hd s = CHR '':'' \<and> list_all is_digit (tl s))"

text \<open>The text after the last occurrence of a byte, and the text before it.\<close>

definition after_last :: "char \<Rightarrow> string \<Rightarrow> string" where
  "after_last c s = rev (takeWhile (\<lambda>x. x \<noteq> c) (rev s))"

definition before_last :: "char \<Rightarrow> string \<Rightarrow> string" where
  "before_last c s = rev (tl (dropWhile (\<lambda>x. x \<noteq> c) (rev s)))"

text \<open>The text before the first \<open>%25\<close> and the text from it on, if there is one.\<close>

fun split_zone :: "string \<Rightarrow> string \<Rightarrow> (string \<times> string) option" where
  "split_zone acc [] = None"
| "split_zone acc (c # cs) =
     (if HasPrefix (c # cs) ''%25'' then Some (rev acc, c # cs) else split_zone (c # acc) cs)"

definition parse_host_ok :: "string \<Rightarrow> bool" where
  "parse_host_ok host =
     (if HasPrefix host ''['' then
        CHR '']'' \<in> set host \<and> valid_optional_port (after_last CHR '']'' host) \<and>
        (case split_zone [] (before_last CHR '']'' host) of
           None \<Rightarrow> host_ok host
         | Some (addr, zone) \<Rightarrow>
             host_ok addr \<and> zone_ok zone \<and> host_ok (CHR '']'' # after_last CHR '']'' host))
      else (CHR '':'' \<notin> set host \<or> valid_optional_port (CHR '':'' # after_last CHR '':'' host)) \<and> host_ok host)"

definition userinfo_char :: "char \<Rightarrow> bool" where
  "userinfo_char c \<longleftrightarrow> is_alnum c \<or> c \<in> set ''-._:~!$&()*+,;=%@'' \<or> (of_char c :: nat) = 39"

definition parse_authority_ok :: "string \<Rightarrow> bool" where
  "parse_authority_ok authority =
     (if CHR ''@'' \<notin> set authority then parse_host_ok authority
      else parse_host_ok (after_last CHR ''@'' authority) \<and>
           list_all userinfo_char (before_last CHR ''@'' authority) \<and>
           escapes_ok (takeWhile (\<lambda>c. c \<noteq> CHR '':'') (before_last CHR ''@'' authority)) \<and>
           escapes_ok (dropWhile (\<lambda>c. c \<noteq> CHR '':'') (before_last CHR ''@'' authority)))"

text \<open>\<open>url.Parse("//" + s)\<close> succeeds.\<close>

definition url_parse_ok :: "string \<Rightarrow> bool" where
  "url_parse_ok s =
     (let u = takeWhile (\<lambda>c. c \<noteq> CHR ''#'') s;
          frag = tl (dropWhile (\<lambda>c. c \<noteq> CHR ''#'') s);
          rest = takeWhile (\<lambda>c. c \<noteq> CHR ''?'') u
      in \<not> list_ex is_control u \<and> escapes_ok frag \<and>
         (if HasPrefix rest ''/'' then escapes_ok rest
          else parse_authority_ok (takeWhile (\<lambda>c. c \<noteq> CHR ''/'') rest) \<and>
               escapes_ok (dropWhile (\<lambda>c. c \<noteq> CHR ''/'') rest)))"

subsection \<open>Plain host names\<close>

text \<open>Letters, digits, dots and hyphens: what a host name or an IPv4 address is made of.\<close>

definition name_char :: "char \<Rightarrow> bool" where
  "name_char c \<longleftrightarrow> is_alnum c \<or> c = CHR ''.'' \<or> c = CHR ''-''"

lemma name_char_facts:
  assumes "name_char c"
  shows "host_char c" "\<not> is_control c" "c \<noteq> CHR ''%''" "c \<noteq> CHR ''#''" "c \<noteq> CHR ''?''"
    "c \<noteq> CHR ''/''" "c \<noteq> CHR ''@''" "c \<noteq> CHR '':''" "c \<noteq> CHR ''[''" "c \<noteq> CHR '']''"
  using assms by (auto simp: name_char_def host_char_def is_control_def is_alnum_def is_digit_def)

lemma name_host_ok: "list_all name_char s \<Longrightarrow> host_ok s"
  by (induction s) (auto simp: name_char_facts)

lemma name_url_parse_ok:
  assumes "list_all name_char s"
  shows "url_parse_ok s"
proof -
  have plain: "c \<notin> set s" if "\<not> name_char c" for c
    using assms that by (auto simp: list_all_iff)
  have none: "CHR ''#'' \<notin> set s" "CHR ''?'' \<notin> set s" "CHR ''/'' \<notin> set s" "CHR ''@'' \<notin> set s"
    "CHR '':'' \<notin> set s" "CHR ''['' \<notin> set s"
    by (rule plain, simp add: name_char_def is_alnum_def is_digit_def)+
  have whole: "takeWhile (\<lambda>c. c \<noteq> x) s = s" "dropWhile (\<lambda>c. c \<noteq> x) s = []" if "x \<notin> set s" for x
    using that by (auto simp: takeWhile_eq_all_conv dropWhile_eq_Nil_conv)
  have "\<not> HasPrefix s ''/''" "\<not> HasPrefix s ''[''"
    using none by (auto simp: HasPrefix_def prefix_def)
  moreover have "\<not> list_ex is_control s"
    using assms name_char_facts(2) by (auto simp: list_ex_iff list_all_iff)
  ultimately show ?thesis
    using none assms
    by (simp add: url_parse_ok_def Let_def whole parse_authority_ok_def parse_host_ok_def name_host_ok)
qed

end
