(* ===== verification/Remotes.thy ===== *)
theory Remotes
  imports Go_Url "HOL-Library.Multiset"
begin

section \<open>Remotes\<close>

text \<open>
  Models share/settings/remote.go: decoding the command line's remote specifications,
  encoding them back, the addresses they stand for, and the split into forward and
  reversed remotes. Strings are bytes; every byte the decoder looks for is ASCII, so bytes
  of multi-byte characters are ordinary ones.
\<close>

subsection \<open>Data\<close>

record Remote =
  LocalHost :: string
  LocalPort :: string
  LocalProto :: string
  RemoteHost :: string
  RemotePort :: string
  RemoteProto :: string
  Socks :: bool
  Reverse :: bool
  Stdio :: bool

datatype RemoteError =
    InvalidRemote
  | MissingPorts
  | InvalidHost
  | CrossProtocol
  | OnlyTcpSocks
  | StdioReversed

definition revPrefix :: string where
  "revPrefix = ''R:''"

subsection \<open>The tokenizer\<close>

text \<open>
  \<open>FindAllStringSubmatch\<close> for the pattern
  \<^verbatim>\<open>(\[[^\[\]]+\]|[^\[\]:]+):?\<close>: the successive leftmost matches, each a bracketed
  text or a run of bytes other than brackets and colons, with one colon after it
  swallowed; bytes at which no match starts are skipped.
\<close>

definition not_bracket :: "char \<Rightarrow> bool" where
  "not_bracket c \<longleftrightarrow> c \<noteq> CHR ''['' \<and> c \<noteq> CHR '']''"

definition plain_char :: "char \<Rightarrow> bool" where
  "plain_char c \<longleftrightarrow> not_bracket c \<and> c \<noteq> CHR '':''"

definition skip_colon :: "string \<Rightarrow> string" where
  "skip_colon s = (if s \<noteq> [] \<and> hd s = CHR '':'' then tl s else s)"

lemma length_skip_colon: "length (skip_colon s) \<le> length s"
  by (simp add: skip_colon_def)

function remote_parts :: "string \<Rightarrow> string list" where
  "remote_parts [] = []"
| "remote_parts (c # cs) =
     (if c = CHR ''['' then
        (let body = takeWhile not_bracket cs; rest = dropWhile not_bracket cs in
         if body \<noteq> [] \<and> rest \<noteq> [] \<and> hd rest = CHR '']''
         then (c # body @ '']'') # remote_parts (skip_colon (tl rest))
         else remote_parts cs)
      else if plain_char c
        then (c # takeWhile plain_char cs) # remote_parts (skip_colon (dropWhile plain_char cs))
      else remote_parts cs)"
  by pat_completeness auto
termination
proof (relation "measure length")
  fix c cs body rest
  assume "rest = dropWhile not_bracket cs"
  then have "length (skip_colon (tl rest)) \<le> length cs"
    using length_skip_colon [of "tl rest"] length_dropWhile_le [of not_bracket cs] by simp
  then show "(skip_colon (tl rest), c # cs) \<in> measure length" by simp
next
  fix c :: char and cs
  show "(skip_colon (dropWhile plain_char cs), c # cs) \<in> measure length"
    using length_skip_colon [of "dropWhile plain_char cs"] length_dropWhile_le [of plain_char cs] by simp
qed auto

subsection \<open>Decoding\<close>

text \<open>
  \<open>(?i)\/(tcp|udp)$\<close>. As in the code, it is the text before the protocol that is
  lower-cased, not the protocol.
\<close>

definition L4Proto :: "string \<Rightarrow> string \<times> string" where
  "L4Proto s =
     (let l = length s in
      if 4 \<le> l \<and> (ToLower (drop (l - 4) s) = ''/tcp'' \<or> ToLower (drop (l - 4) s) = ''/udp'')
      then (ToLower (take (l - 4) s), drop (l - 3) s) else (s, ''''))"

definition isPort :: "string \<Rightarrow> bool" where
  "isPort s = (case Atoi s of Inl _ \<Rightarrow> False | Inr n \<Rightarrow> \<not> (n \<le> 0 \<or> n > 65535))"

definition isHost :: "string \<Rightarrow> bool" where
  "isHost s = url_parse_ok s"

text \<open>
  The body of the loop over the parts, for the part of index \<open>i\<close> of \<open>n\<close>; the loop runs
  from the last part to the first.
\<close>

definition decode_part :: "nat \<Rightarrow> nat \<Rightarrow> string \<Rightarrow> Remote \<Rightarrow> RemoteError + Remote" where
  "decode_part n i p r =
     (if i = n - 1 \<and> p = ''socks'' then Inr (r\<lparr>Socks := True\<rparr>)
      else if i = 0 \<and> p = ''stdio'' then Inr (r\<lparr>Stdio := True\<rparr>)
      else
        (let (q, proto) = L4Proto p;
             r1 = (if proto \<noteq> '''' then
                     (if RemotePort r = '''' then r\<lparr>RemoteProto := proto\<rparr>
                      else if LocalProto r = '''' then r\<lparr>LocalProto := proto\<rparr> else r)
                   else r)
         in if isPort q then
              (let r2 = (if \<not> Socks r1 \<and> RemotePort r1 = '''' then r1\<lparr>RemotePort := q\<rparr> else r1)
               in Inr (r2\<lparr>LocalPort := q\<rparr>))
            else if \<not> Socks r1 \<and> (RemotePort r1 = '''' \<and> LocalPort r1 = '''') then Inl MissingPorts
            else if \<not> isHost q then Inl InvalidHost
            else if \<not> Socks r1 \<and> RemoteHost r1 = '''' then Inr (r1\<lparr>RemoteHost := q\<rparr>)
            else Inr (r1\<lparr>LocalHost := q\<rparr>)))"

fun decode_parts :: "nat \<Rightarrow> string list \<Rightarrow> Remote \<Rightarrow> RemoteError + Remote" where
  "decode_parts n [] r = Inr r"
| "decode_parts n (p # ps) r =
     (case decode_part n (length ps) p r of Inl e \<Rightarrow> Inl e | Inr r' \<Rightarrow> decode_parts n ps r')"

definition remote_defaults :: "Remote \<Rightarrow> Remote" where
  "remote_defaults r =
     (let r1 =
        (if Socks r then
           (let r = (if LocalHost r = '''' then r\<lparr>LocalHost := ''127.0.0.1''\<rparr> else r)
            in if LocalPort r = '''' then r\<lparr>LocalPort := ''1080''\<rparr> else r)
         else
           (let r = (if LocalHost r = '''' then r\<lparr>LocalHost := ''0.0.0.0''\<rparr> else r)
            in if RemoteHost r = '''' then r\<lparr>RemoteHost := ''127.0.0.1''\<rparr> else r));
          r2 = (if RemoteProto r1 = '''' then r1\<lparr>RemoteProto := ''tcp''\<rparr> else r1)
      in if LocalProto r2 = '''' then r2\<lparr>LocalProto := RemoteProto r2\<rparr> else r2)"

definition empty_remote :: "bool \<Rightarrow> Remote" where
  "empty_remote reverse = \<lparr>LocalHost = '''', LocalPort = '''', LocalProto = '''',
     RemoteHost = '''', RemotePort = '''', RemoteProto = '''',
     Socks = False, Reverse = reverse, Stdio = False\<rparr>"

definition DecodeRemote :: "string \<Rightarrow> RemoteError + Remote" where
  "DecodeRemote s0 =
     (let reverse = HasPrefix s0 revPrefix;
          s = (if reverse then TrimPrefix s0 revPrefix else s0);
          parts = remote_parts s
      in if length parts \<le> 0 \<or> length parts \<ge> 5 then Inl InvalidRemote
         else (case decode_parts (length parts) (rev parts) (empty_remote reverse) of
                 Inl e \<Rightarrow> Inl e
               | Inr r0 \<Rightarrow>
                   (let r = remote_defaults r0 in
                    if LocalProto r \<noteq> RemoteProto r then Inl CrossProtocol
                    else if Socks r \<and> RemoteProto r \<noteq> ''tcp'' then Inl OnlyTcpSocks
                    else if Stdio r \<and> Reverse r then Inl StdioReversed
                    else Inr r)))"

subsection \<open>Encoding and addresses\<close>

definition Remote_Local :: "Remote \<Rightarrow> string" where
  "Remote_Local r =
     (if Stdio r then ''stdio''
      else (let r = (if LocalHost r = '''' then r\<lparr>LocalHost := ''0.0.0.0''\<rparr> else r)
            in LocalHost r @ '':'' @ LocalPort r))"

definition Remote_Remote :: "Remote \<Rightarrow> string" where
  "Remote_Remote r =
     (if Socks r then ''socks''
      else (let r = (if RemoteHost r = '''' then r\<lparr>RemoteHost := ''127.0.0.1''\<rparr> else r)
            in RemoteHost r @ '':'' @ RemotePort r))"

definition Remote_String :: "Remote \<Rightarrow> string" where
  "Remote_String r =
     (if Reverse r then revPrefix else '''') @ TrimPrefix (Remote_Local r) ''0.0.0.0:'' @ ''=>'' @
     TrimPrefix (Remote_Remote r) ''127.0.0.1:'' @ (if RemoteProto r = ''udp'' then ''/udp'' else '''')"

definition Remote_Encode :: "Remote \<Rightarrow> string" where
  "Remote_Encode r0 =
     (let r = (if LocalPort r0 = '''' then r0\<lparr>LocalPort := RemotePort r0\<rparr> else r0);
          local = Remote_Local r;
          remote = (if RemoteProto r = ''udp'' then Remote_Remote r @ ''/udp'' else Remote_Remote r)
      in if Reverse r then ''R:'' @ local @ '':'' @ remote else local @ '':'' @ remote)"

definition UserAddr :: "Remote \<Rightarrow> string" where
  "UserAddr r =
     (if Reverse r then ''R:'' @ LocalHost r @ '':'' @ LocalPort r
      else RemoteHost r @ '':'' @ RemotePort r)"

text \<open>
  \<open>CanListen\<close> asks the operating system to bind the local address: \<open>bind proto addr\<close> says
  whether net.Listen (for tcp), or resolving and net.ListenUDP (for udp), succeed.
\<close>

definition CanListen :: "(string \<Rightarrow> string \<Rightarrow> bool) \<Rightarrow> Remote \<Rightarrow> bool" where
  "CanListen bind r =
     (if LocalProto r = ''tcp'' then bind ''tcp'' (Remote_Local r)
      else if LocalProto r = ''udp'' then bind ''udp'' (Remote_Local r)
      else False)"

fun Reversed :: "bool \<Rightarrow> Remote list \<Rightarrow> Remote list" where
  "Reversed reverse [] = []"
| "Reversed reverse (r # rs) =
     (if Reverse r = reverse then r # Reversed reverse rs else Reversed reverse rs)"

definition Remotes_Encode :: "Remote list \<Rightarrow> string list" where
  "Remotes_Encode rs = map Remote_Encode rs"

subsection \<open>Tokens\<close>

definition is_token :: "string \<Rightarrow> bool" where
  "is_token t \<longleftrightarrow> t \<noteq> [] \<and>
     (list_all plain_char t \<or>
      (\<exists>b. t = CHR ''['' # b @ '']'' \<and> b \<noteq> [] \<and> list_all not_bracket b))"

lemma skip_colon_simps [simp]:
  "skip_colon [] = []" "skip_colon (CHR '':'' # s) = s"
  by (simp_all add: skip_colon_def)

lemma not_plain [simp]:
  "\<not> plain_char CHR '':''" "\<not> plain_char CHR ''[''" "\<not> plain_char CHR '']''"
  "\<not> not_bracket CHR ''[''" "\<not> not_bracket CHR '']''"
  by (simp_all add: plain_char_def not_bracket_def)

lemma takeWhile_run:
  "list_all P cs \<Longrightarrow> \<not> P x \<Longrightarrow> takeWhile P (cs @ x # s) = cs \<and> dropWhile P (cs @ x # s) = x # s"
  by (induction cs) auto

lemma remote_parts_token: "is_token t \<Longrightarrow> remote_parts (t @ CHR '':'' # s) = t # remote_parts s"
  by (cases t) (auto simp: is_token_def takeWhile_run plain_char_def not_bracket_def)

lemma remote_parts_last: "is_token t \<Longrightarrow> remote_parts t = [t]"
proof (cases t)
  case (Cons c cs)
  assume "is_token t"
  then consider "list_all plain_char t"
    | b where "t = CHR ''['' # b @ '']''" "b \<noteq> []" "list_all not_bracket b"
    by (auto simp: is_token_def)
  then show ?thesis
  proof cases
    case 1
    then have "takeWhile plain_char cs = cs" "dropWhile plain_char cs = []" "plain_char c" "c \<noteq> CHR ''[''"
      by (auto simp: Cons takeWhile_eq_all_conv list_all_iff)
    then have "remote_parts t = [c # cs] @ remote_parts (skip_colon [])"
      by (simp only: Cons remote_parts.simps if_False if_True append_Cons append_Nil)
    then show ?thesis by (simp add: Cons)
  next
    case 2
    then show ?thesis by (simp add: takeWhile_run)
  qed
qed (simp add: is_token_def)

subsection \<open>Ports\<close>

lemma digits_value_digits: "digits_value s acc = Some n \<Longrightarrow> list_all is_digit s"
  by (induction s acc rule: digits_value.induct) (auto split: if_splits)

lemma isPort_cases:
  assumes "isPort p"
  obtains ds where "p = ds \<or> p = CHR ''+'' # ds" "ds \<noteq> []" "list_all is_digit ds"
proof -
  obtain neg ds n where "sign_of p = (neg, ds)" "ds \<noteq> []" "digits_value ds 0 = Some n"
    and "\<not> (if neg then - int n else int n) \<le> 0"
    using assms by (auto simp: isPort_def Atoi_def Let_def split: prod.splits option.splits if_splits)
  moreover from this have "p = ds \<or> p = CHR ''+'' # ds"
    by (cases p) (auto split: if_splits)
  ultimately show thesis using that digits_value_digits by blast
qed

lemma isPort_chars:
  assumes "isPort p"
  shows "p \<noteq> []" "list_all (\<lambda>c. is_digit c \<or> c = CHR ''+'') p"
proof -
  obtain ds where "p = ds \<or> p = CHR ''+'' # ds" "ds \<noteq> []" "list_all is_digit ds"
    by (rule isPort_cases [OF assms])
  then show "p \<noteq> []" "list_all (\<lambda>c. is_digit c \<or> c = CHR ''+'') p"
    by (auto simp: list_all_iff)
qed

lemma isPort_token [simp]: "isPort p \<Longrightarrow> is_token p"
  using isPort_chars [of p]
  by (auto simp: is_token_def list_all_iff plain_char_def not_bracket_def is_digit_def)

lemma isPort_not_word: "isPort p \<Longrightarrow> p \<noteq> '''' \<and> p \<noteq> ''socks'' \<and> p \<noteq> ''stdio''"
  using isPort_chars [of p] by (auto simp: is_digit_def)

lemma ToLower_port [simp]: "isPort p \<Longrightarrow> ToLower p = p"
  using isPort_chars(2) [of p]
  by (auto simp: ToLower_def list_all_iff lower_char_def is_digit_def Let_def intro!: map_idI)

text \<open>A text without a slash names no protocol; a slash and a protocol are cut off.\<close>

lemma lower_char_slash: "lower_char c = CHR ''/'' \<longleftrightarrow> c = CHR ''/''"
proof -
  have "char_of ((of_char c :: nat) + 32) \<noteq> CHR ''/''" if "65 \<le> (of_char c :: nat)" "(of_char c :: nat) \<le> 90"
  proof
    assume "char_of ((of_char c :: nat) + 32) = CHR ''/''"
    then have "(of_char (char_of ((of_char c :: nat) + 32) :: char) :: nat) = 47" by simp
    then have "((of_char c :: nat) + 32) mod 256 = 47" by simp
    with that show False by simp
  qed
  then show ?thesis by (auto simp: lower_char_def Let_def)
qed

lemma L4Proto_no_slash:
  assumes "CHR ''/'' \<notin> set s"
  shows "L4Proto s = (s, '''')"
proof -
  have "CHR ''/'' \<notin> set (ToLower (drop k s))" for k
    using assms by (auto simp: ToLower_def dest!: in_set_dropD) (metis lower_char_slash)
  then have "ToLower (drop k s) \<noteq> ''/tcp'' \<and> ToLower (drop k s) \<noteq> ''/udp''" for k
    by (metis list.set_intros(1))
  then show ?thesis by (simp add: L4Proto_def Let_def)
qed

lemma L4Proto_udp: "L4Proto (s @ ''/udp'') = (ToLower s, ''udp'')"
proof -
  have "ToLower ''/udp'' = ''/udp''" by (simp add: ToLower_def lower_char_def)
  then show ?thesis by (simp add: L4Proto_def)
qed

lemma L4Proto_port [simp]: "isPort p \<Longrightarrow> L4Proto p = (p, '''')"
  using isPort_chars(2) [of p]
  by (intro L4Proto_no_slash) (auto simp: list_all_iff is_digit_def)

subsection \<open>Round trip\<close>

text \<open>
  The remotes whose encoding can be read back: hosts that are one token, carry no protocol
  and are not mistaken for a port or a keyword, ports that are ports, and the fields a
  stdio or SOCKS remote leaves open at their defaults.
\<close>

definition host_token :: "string \<Rightarrow> bool" where
  "host_token h \<longleftrightarrow> is_token h \<and> \<not> isPort h \<and> isHost h \<and> L4Proto h = (h, '''')"

definition wf_remote :: "Remote \<Rightarrow> bool" where
  "wf_remote r \<longleftrightarrow>
     LocalProto r = RemoteProto r \<and>
     (RemoteProto r = ''tcp'' \<or> RemoteProto r = ''udp'' \<and> \<not> Socks r) \<and>
     \<not> (Stdio r \<and> Reverse r) \<and>
     (if Socks r then RemoteHost r = '''' \<and> RemotePort r = ''''
      else host_token (RemoteHost r) \<and> isPort (RemotePort r)) \<and>
     (if Stdio r then
        LocalHost r = (if Socks r then ''127.0.0.1'' else ''0.0.0.0'') \<and>
        LocalPort r = (if Socks r then ''1080'' else RemotePort r)
      else
        host_token (LocalHost r) \<and> LocalHost r \<noteq> ''stdio'' \<and> isPort (LocalPort r) \<and>
        (Reverse r \<or> LocalHost r \<noteq> ''R''))"

lemma host_tokenD:
  "host_token h \<Longrightarrow> is_token h" "host_token h \<Longrightarrow> \<not> isPort h" "host_token h \<Longrightarrow> isHost h"
  "host_token h \<Longrightarrow> L4Proto h = (h, '''')" "host_token h \<Longrightarrow> h \<noteq> ''''"
  by (auto simp: host_token_def is_token_def)

lemma port_udp_token: "isPort p \<Longrightarrow> is_token (p @ ''/udp'')"
  using isPort_chars [of p]
  by (auto simp: is_token_def list_all_iff plain_char_def not_bracket_def is_digit_def)

lemma port_udp_not_word: "isPort p \<Longrightarrow> p @ ''/udp'' \<noteq> ''socks'' \<and> p @ ''/udp'' \<noteq> ''stdio''"
  by (auto dest: arg_cong [of _ _ last])

lemma socks_token: "is_token ''socks''" "is_token ''stdio''"
  by (simp_all add: is_token_def plain_char_def not_bracket_def)

text \<open>The parts an encoding is split into, and the prefix test on it.\<close>

definition encoded_parts :: "Remote \<Rightarrow> string list" where
  "encoded_parts r =
     (if Stdio r then [''stdio''] else [LocalHost r, LocalPort r]) @
     (if Socks r then [''socks'']
      else [RemoteHost r, if RemoteProto r = ''udp'' then RemotePort r @ ''/udp'' else RemotePort r])"

lemma parts_append2: "is_token t \<Longrightarrow> is_token t' \<Longrightarrow> remote_parts (t @ CHR '':'' # t') = [t, t']"
  by (simp add: remote_parts_token remote_parts_last)

lemma Encode_body:
  assumes "wf_remote r"
  shows "Remote_Encode r = (if Reverse r then ''R:'' else '''') @ Join (encoded_parts r) '':''"
proof -
  have "LocalPort r \<noteq> ''''" "\<not> Stdio r \<Longrightarrow> LocalHost r \<noteq> ''''" "\<not> Socks r \<Longrightarrow> RemoteHost r \<noteq> ''''"
    using assms by (auto simp: wf_remote_def host_tokenD split: if_splits dest: isPort_not_word)
  moreover have "Socks r \<Longrightarrow> RemoteProto r = ''tcp''"
    using assms by (auto simp: wf_remote_def)
  ultimately show ?thesis
    by (simp add: Remote_Encode_def Remote_Local_def Remote_Remote_def encoded_parts_def Let_def)
qed

lemma encoded_tokens:
  assumes "wf_remote r"
  shows "list_all is_token (encoded_parts r)"
  using assms
  by (auto simp: wf_remote_def encoded_parts_def host_tokenD port_udp_token socks_token split: if_splits)

lemma remote_parts_Join: "list_all is_token ts \<Longrightarrow> ts \<noteq> [] \<Longrightarrow> remote_parts (Join ts '':'') = ts"
  by (induction ts "'':''" rule: Join.induct) (auto simp: remote_parts_token remote_parts_last)

lemma not_R_prefix:
  assumes "is_token t" "t \<noteq> ''R''"
  shows "\<not> HasPrefix (t @ CHR '':'' # s) revPrefix"
proof -
  from assms(1) obtain c cs where t: "t = c # cs" by (cases t) (auto simp: is_token_def)
  with assms show ?thesis
    by (cases cs) (auto simp: HasPrefix_def revPrefix_def is_token_def)
qed

lemma R_prefix [simp]:
  "HasPrefix (CHR ''R'' # CHR '':'' # s) revPrefix" "TrimPrefix (CHR ''R'' # CHR '':'' # s) revPrefix = s"
  by (simp_all add: HasPrefix_def TrimPrefix_def revPrefix_def)

lemma Encode_no_prefix:
  assumes "wf_remote r" "\<not> Reverse r"
  shows "\<not> HasPrefix (Join (encoded_parts r) '':'') revPrefix"
proof (cases "Stdio r")
  case True
  then show ?thesis by (auto simp: encoded_parts_def HasPrefix_def revPrefix_def)
next
  case False
  with assms have "is_token (LocalHost r)" "LocalHost r \<noteq> ''R''"
    by (auto simp: wf_remote_def host_tokenD)
  from not_R_prefix [OF this] False show ?thesis
    by (simp add: encoded_parts_def)
qed

text \<open>One step of the decoding loop for each kind of part an encoding has.\<close>

lemma step_port:
  "isPort p \<Longrightarrow> decode_part n i p r =
     Inr ((if \<not> Socks r \<and> RemotePort r = '''' then r\<lparr>RemotePort := p\<rparr> else r)\<lparr>LocalPort := p\<rparr>)"
  by (simp add: decode_part_def Let_def isPort_not_word)

lemma step_port_udp:
  "isPort p \<Longrightarrow> RemotePort r = '''' \<Longrightarrow> \<not> Socks r \<Longrightarrow> decode_part n i (p @ ''/udp'') r =
     Inr (r\<lparr>RemoteProto := ''udp'', RemotePort := p, LocalPort := p\<rparr>)"
  using port_udp_not_word [of p] by (simp add: decode_part_def Let_def L4Proto_udp)

lemma step_host:
  assumes "host_token h" "h \<noteq> ''socks'' \<or> i \<noteq> n - 1" "h \<noteq> ''stdio'' \<or> i \<noteq> 0"
    and ports: "Socks r \<or> RemotePort r \<noteq> ''''"
  shows "decode_part n i h r =
     Inr (if \<not> Socks r \<and> RemoteHost r = '''' then r\<lparr>RemoteHost := h\<rparr> else r\<lparr>LocalHost := h\<rparr>)"
proof -
  have "L4Proto h = (h, '''')" "\<not> isPort h" "isHost h"
    using assms(1) by (simp_all add: host_token_def)
  moreover have "\<not> (i = n - 1 \<and> h = ''socks'')" "\<not> (i = 0 \<and> h = ''stdio'')"
    using assms by auto
  ultimately show ?thesis
    using ports by (simp only: decode_part_def Let_def if_False case_prod_conv) auto
qed

lemma step_socks: "i = n - 1 \<Longrightarrow> decode_part n i ''socks'' r = Inr (r\<lparr>Socks := True\<rparr>)"
  by (simp add: decode_part_def)

lemma step_stdio: "decode_part n 0 ''stdio'' r = Inr (r\<lparr>Stdio := True\<rparr>)"
  by (simp add: decode_part_def)

lemmas decode_steps = step_port step_port_udp step_host step_socks step_stdio

lemma decode_encoded:
  assumes wf: "wf_remote r"
  shows "map_sum id remote_defaults
    (decode_parts (length (encoded_parts r)) (rev (encoded_parts r)) (empty_remote (Reverse r))) = Inr r"
proof (cases r)
  case (fields lh lp lpr rh rp rpr so re st)
  consider (stdio_socks) "st" "so" | (stdio_tcp) "st" "\<not> so" "rpr = ''tcp''"
    | (stdio_udp) "st" "\<not> so" "rpr = ''udp''" | (socks) "\<not> st" "so"
    | (tcp) "\<not> st" "\<not> so" "rpr = ''tcp''" | (udp) "\<not> st" "\<not> so" "rpr = ''udp''"
    using wf by (auto simp: wf_remote_def fields)
  then show ?thesis
    using wf
    by cases (auto simp: fields wf_remote_def encoded_parts_def empty_remote_def decode_steps
        remote_defaults_def host_tokenD isPort_not_word)
qed

text \<open>
  C25: decoding undoes encoding: for every well-formed remote (forward or reversed, with
  tcp or udp, SOCKS or stdio), DecodeRemote of its encoding is the remote itself.
\<close>

theorem decode_encode:
  assumes wf: "wf_remote r"
  shows "DecodeRemote (Remote_Encode r) = Inr r"
proof -
  let ?parts = "encoded_parts r"
  have reverse: "HasPrefix (Remote_Encode r) revPrefix = Reverse r"
    using Encode_no_prefix [OF wf] by (simp add: Encode_body [OF wf])
  have "?parts \<noteq> []" by (simp add: encoded_parts_def)
  then have "remote_parts (Join ?parts '':'') = ?parts"
    by (rule remote_parts_Join [OF encoded_tokens [OF wf]])
  then have parts: "remote_parts (if HasPrefix (Remote_Encode r) revPrefix
      then TrimPrefix (Remote_Encode r) revPrefix else Remote_Encode r) = ?parts"
    by (cases "Reverse r") (simp_all add: reverse, simp_all add: Encode_body [OF wf])
  have length: "0 < length ?parts" "length ?parts < 5" by (auto simp: encoded_parts_def)
  from decode_encoded [OF wf] obtain r0
    where "decode_parts (length ?parts) (rev ?parts) (empty_remote (Reverse r)) = Inr r0" "remote_defaults r0 = r"
    by (auto simp: map_sum_def split: sum.splits)
  then show ?thesis
    using wf length unfolding DecodeRemote_def Let_def parts
    by (auto simp: reverse wf_remote_def)
qed

text \<open>A well-formed sample: \<open>R:[::]:30001:localhost:8080/udp\<close> as in the tests' style.\<close>

definition sample_remote :: Remote where
  "sample_remote = \<lparr>LocalHost = ''[::]'', LocalPort = ''30001'', LocalProto = ''udp'',
     RemoteHost = ''localhost'', RemotePort = ''8080'', RemoteProto = ''udp'',
     Socks = False, Reverse = True, Stdio = False\<rparr>"

lemmas text_eval = Atoi_def isPort_def isHost_def L4Proto_def is_token_def not_bracket_def plain_char_def
  is_digit_def url_parse_ok_def parse_authority_ok_def parse_host_ok_def host_char_def is_alnum_def
  is_control_def HasPrefix_def valid_optional_port_def after_last_def before_last_def ToLower_def
  lower_char_def Let_def

lemma sample_remote_wf: "wf_remote sample_remote"
  by (simp add: wf_remote_def sample_remote_def host_token_def text_eval)

theorem decode_encode_witness:
  "Remote_Encode sample_remote = ''R:[::]:30001:localhost:8080/udp'' \<and>
   DecodeRemote (Remote_Encode sample_remote) = Inr sample_remote"
  by (simp add: decode_encode [OF sample_remote_wf])
    (simp add: Remote_Encode_def Remote_Local_def Remote_Remote_def sample_remote_def Let_def)

subsection \<open>What a decoded remote is like\<close>

text \<open>The invariant of the decoding loop.\<close>

definition decoding_ok :: "bool \<Rightarrow> Remote \<Rightarrow> bool" where
  "decoding_ok reverse r \<longleftrightarrow>
     Reverse r = reverse \<and>
     (RemotePort r \<noteq> '''' \<longrightarrow> isPort (RemotePort r) \<and> \<not> Socks r \<and> LocalPort r \<noteq> '''') \<and>
     (LocalPort r \<noteq> '''' \<longrightarrow> isPort (LocalPort r)) \<and>
     (RemoteHost r \<noteq> '''' \<longrightarrow> isHost (RemoteHost r) \<and> \<not> Socks r) \<and>
     (LocalHost r \<noteq> '''' \<longrightarrow> isHost (LocalHost r)) \<and>
     ToLower (RemoteProto r) \<in> {'''', ''tcp'', ''udp''} \<and>
     ToLower (LocalProto r) \<in> {'''', ''tcp'', ''udp''}"

lemma L4Proto_proto:
  assumes "L4Proto s = (q, proto)"
  shows "ToLower proto \<in> {'''', ''tcp'', ''udp''}"
proof (cases "4 \<le> length s")
  case True
  then have "length s - 3 = Suc (length s - 4)" by simp
  then have "ToLower (drop (length s - 3) s) = tl (ToLower (drop (length s - 4) s))"
    by (simp add: ToLower_def drop_Suc tl_drop flip: map_tl)
  with assms True show ?thesis
    by (auto simp: L4Proto_def Let_def split: if_splits) (auto simp: ToLower_def)
next
  case False
  with assms show ?thesis by (auto simp: L4Proto_def Let_def ToLower_def)
qed

lemma decoding_ok_simps:
  assumes ok: "decoding_ok reverse r"
  shows "isPort q \<Longrightarrow> decoding_ok reverse (r\<lparr>LocalPort := q\<rparr>)"
    and "isPort q \<Longrightarrow> \<not> Socks r \<Longrightarrow> decoding_ok reverse (r\<lparr>RemotePort := q, LocalPort := q\<rparr>)"
    and "isHost q \<Longrightarrow> \<not> Socks r \<Longrightarrow> decoding_ok reverse (r\<lparr>RemoteHost := q\<rparr>)"
    and "isHost q \<Longrightarrow> decoding_ok reverse (r\<lparr>LocalHost := q\<rparr>)"
    and "ToLower proto \<in> {'''', ''tcp'', ''udp''} \<Longrightarrow> decoding_ok reverse (r\<lparr>RemoteProto := proto\<rparr>)"
    and "ToLower proto \<in> {'''', ''tcp'', ''udp''} \<Longrightarrow> decoding_ok reverse (r\<lparr>LocalProto := proto\<rparr>)"
    and "decoding_ok reverse (r\<lparr>Stdio := True\<rparr>)"
    and "RemotePort r = '''' \<Longrightarrow> RemoteHost r = '''' \<Longrightarrow> decoding_ok reverse (r\<lparr>Socks := True\<rparr>)"
  using ok by (auto simp: decoding_ok_def dest: isPort_not_word)

lemma decode_part_ok:
  assumes ok: "decoding_ok reverse r" and step: "decode_part n i p r = Inr r'"
    and socks: "i \<noteq> n - 1 \<or> RemotePort r = '''' \<and> RemoteHost r = ''''"
  shows "decoding_ok reverse r'"
proof -
  obtain q proto where l4: "L4Proto p = (q, proto)" by fastforce
  define r1 where "r1 = (if proto \<noteq> '''' then
                     (if RemotePort r = '''' then r\<lparr>RemoteProto := proto\<rparr>
                      else if LocalProto r = '''' then r\<lparr>LocalProto := proto\<rparr> else r)
                   else r)"
  have r1: "decoding_ok reverse r1"
    using decoding_ok_simps(5,6) [OF ok L4Proto_proto [OF l4]] ok by (simp add: r1_def)
  from step show ?thesis
    unfolding decode_part_def l4 Let_def prod.case r1_def [symmetric]
    using decoding_ok_simps(7,8) [OF ok] decoding_ok_simps(1-4) [OF r1, of q] socks
    by (auto split: if_split_asm)
qed

text \<open>Once the last part is read, a remote has its ports or is a SOCKS one.\<close>

definition has_target :: "Remote \<Rightarrow> bool" where
  "has_target r \<longleftrightarrow> Socks r \<or> RemotePort r \<noteq> ''''"

lemma decode_part_target:
  assumes "decode_part n i p r = Inr r'" "has_target r \<or> LocalPort r = '''' \<and> \<not> (i = 0 \<and> p = ''stdio'')"
  shows "has_target r'"
proof -
  obtain q proto where l4: "L4Proto p = (q, proto)" by fastforce
  define r1 where "r1 = (if proto \<noteq> '''' then
                     (if RemotePort r = '''' then r\<lparr>RemoteProto := proto\<rparr>
                      else if LocalProto r = '''' then r\<lparr>LocalProto := proto\<rparr> else r)
                   else r)"
  have r1: "Socks r1 = Socks r" "RemotePort r1 = RemotePort r" "LocalPort r1 = LocalPort r"
    by (simp_all add: r1_def)
  from assms show ?thesis
    unfolding decode_part_def l4 Let_def prod.case r1_def [symmetric]
    by (auto simp: r1 has_target_def dest: isPort_not_word split: if_split_asm)
qed

lemma decode_parts_ok:
  "decode_parts n ps r = Inr r' \<Longrightarrow> length ps < n \<Longrightarrow> decoding_ok reverse r \<Longrightarrow> has_target r \<Longrightarrow>
   decoding_ok reverse r' \<and> has_target r'"
proof (induction ps arbitrary: r)
  case (Cons p ps)
  from Cons.prems(1) obtain r1 where step: "decode_part n (length ps) p r = Inr r1"
    and rest: "decode_parts n ps r1 = Inr r'"
    by (auto split: sum.splits)
  have "decoding_ok reverse r1"
    by (rule decode_part_ok [OF Cons.prems(3) step]) (use Cons.prems(2) in simp)
  moreover have "has_target r1"
    using decode_part_target [OF step] Cons.prems(4) by simp
  ultimately show ?case
    using Cons.IH [OF rest] Cons.prems(2) by simp
qed simp

lemma decode_parts_from_empty:
  assumes "decode_parts (length ps) ps (empty_remote reverse) = Inr r" "ps \<noteq> []"
  shows "decoding_ok reverse r \<and> (has_target r \<or> r = (empty_remote reverse)\<lparr>Stdio := True\<rparr>)"
proof (cases ps)
  case (Cons p qs)
  let ?e = "empty_remote reverse"
  from assms(1) Cons obtain r1 where step: "decode_part (length ps) (length qs) p ?e = Inr r1"
    and rest: "decode_parts (length ps) qs r1 = Inr r"
    by (auto split: sum.splits)
  have e: "decoding_ok reverse ?e" by (simp add: decoding_ok_def empty_remote_def ToLower_def)
  have r1: "decoding_ok reverse r1"
    by (rule decode_part_ok [OF e step]) (simp add: empty_remote_def)
  show ?thesis
  proof (cases "has_target r1")
    case True
    with decode_parts_ok [OF rest _ r1] Cons show ?thesis by simp
  next
    case False
    moreover have "LocalPort ?e = ''''" by (simp add: empty_remote_def)
    ultimately have "length qs = 0 \<and> p = ''stdio''"
      using decode_part_target [OF step] by blast
    then have qs: "qs = []" "p = ''stdio''" by simp_all
    with step rest r1 show ?thesis by (simp add: qs Cons decode_part_def)
  qed
qed (use assms in simp)

lemma remote_defaults_sel:
  "LocalHost (remote_defaults r) =
     (if LocalHost r = '''' then (if Socks r then ''127.0.0.1'' else ''0.0.0.0'') else LocalHost r)"
  "LocalPort (remote_defaults r) = (if Socks r \<and> LocalPort r = '''' then ''1080'' else LocalPort r)"
  "RemoteHost (remote_defaults r) = (if \<not> Socks r \<and> RemoteHost r = '''' then ''127.0.0.1'' else RemoteHost r)"
  "RemotePort (remote_defaults r) = RemotePort r"
  "RemoteProto (remote_defaults r) = (if RemoteProto r = '''' then ''tcp'' else RemoteProto r)"
  "Socks (remote_defaults r) = Socks r"
  "Reverse (remote_defaults r) = Reverse r"
  "Stdio (remote_defaults r) = Stdio r"
  by (simp_all add: remote_defaults_def Let_def)

lemma ToLower_tcp: "ToLower ''tcp'' = ''tcp''" "ToLower s = '''' \<longleftrightarrow> s = ''''"
  by (simp_all add: ToLower_def lower_char_def)

lemma decoded_remote_facts:
  assumes "DecodeRemote s = Inr r"
  shows "Reverse r = HasPrefix s revPrefix \<and>
    LocalProto r = RemoteProto r \<and> ToLower (RemoteProto r) \<in> {''tcp'', ''udp''} \<and>
    LocalHost r \<noteq> '''' \<and> isHost (LocalHost r) \<and> \<not> (Stdio r \<and> Reverse r) \<and>
    (if Socks r then RemoteProto r = ''tcp'' \<and> isPort (LocalPort r) \<and> RemoteHost r = '''' \<and> RemotePort r = ''''
     else RemoteHost r \<noteq> '''' \<and> isHost (RemoteHost r) \<and>
       (isPort (RemotePort r) \<and> isPort (LocalPort r) \<or> Stdio r \<and> RemotePort r = '''' \<and> LocalPort r = ''''))"
proof -
  let ?rev = "HasPrefix s revPrefix"
  define ps where "ps = rev (remote_parts (if ?rev then TrimPrefix s revPrefix else s))"
  have parts: "remote_parts (if ?rev then TrimPrefix s revPrefix else s) = rev ps" by (simp add: ps_def)
  have D: "DecodeRemote s = (if length ps \<le> 0 \<or> length ps \<ge> 5 then Inl InvalidRemote
         else (case decode_parts (length ps) ps (empty_remote ?rev) of
                 Inl e \<Rightarrow> Inl e
               | Inr r0 \<Rightarrow>
                   (let r = remote_defaults r0 in
                    if LocalProto r \<noteq> RemoteProto r then Inl CrossProtocol
                    else if Socks r \<and> RemoteProto r \<noteq> ''tcp'' then Inl OnlyTcpSocks
                    else if Stdio r \<and> Reverse r then Inl StdioReversed
                    else Inr r)))"
    unfolding DecodeRemote_def Let_def parts length_rev rev_rev_ident ..
  with assms have ps: "ps \<noteq> []" by auto
  obtain r0 where dec: "decode_parts (length ps) ps (empty_remote ?rev) = Inr r0"
    using assms D by (auto split: if_splits sum.splits)
  with assms D have r: "r = remote_defaults r0" "LocalProto r = RemoteProto r"
      "Socks r \<Longrightarrow> RemoteProto r = ''tcp''" "\<not> (Stdio r \<and> Reverse r)"
    by (simp_all add: Let_def split: if_split_asm)
  have ok: "decoding_ok ?rev r0" and target: "has_target r0 \<or> r0 = (empty_remote ?rev)\<lparr>Stdio := True\<rparr>"
    using decode_parts_from_empty [OF dec ps] by auto
  have hosts: "isHost ''127.0.0.1''" "isHost ''0.0.0.0''" "isPort ''1080''"
    by (simp_all add: text_eval)
  have protos: "ToLower (RemoteProto r) \<in> {''tcp'', ''udp''}"
    using ok by (auto simp: r(1) remote_defaults_sel decoding_ok_def ToLower_tcp)
  note sel = remote_defaults_sel [of r0, folded r(1)]
  show ?thesis
  proof (cases "Socks r0")
    case True
    then show ?thesis
      using ok r(2-4) protos hosts by (simp add: decoding_ok_def sel)
  next
    case False
    with target consider "RemotePort r0 \<noteq> ''''" | "r0 = (empty_remote ?rev)\<lparr>Stdio := True\<rparr>"
      by (auto simp: has_target_def)
    then show ?thesis
      using ok r(2-4) protos hosts False
      by cases (auto simp: decoding_ok_def sel empty_remote_def)
  qed
qed

text \<open>
  C27: what every accepted remote specification gives: the reverse flag is the prefix's; both
  protocols agree and are tcp or udp up to case; the local host is never empty and both
  hosts are accepted by the URL parser; a SOCKS remote is tcp, has a local port and no remote
  end; any other remote has valid ports on both ends, except the bare \<open>stdio\<close>, which has
  none; and a reversed remote is never stdio.
\<close>

theorem decoded_remote_ok:
  assumes "DecodeRemote s = Inr r"
  shows "Reverse r = HasPrefix s revPrefix \<and>
    LocalProto r = RemoteProto r \<and> ToLower (RemoteProto r) \<in> {''tcp'', ''udp''} \<and>
    LocalHost r \<noteq> '''' \<and> isHost (LocalHost r) \<and> \<not> (Stdio r \<and> Reverse r) \<and>
    (if Socks r then RemoteProto r = ''tcp'' \<and> isPort (LocalPort r) \<and> RemoteHost r = '''' \<and> RemotePort r = ''''
     else RemoteHost r \<noteq> '''' \<and> isHost (RemoteHost r) \<and>
       (isPort (RemotePort r) \<and> isPort (LocalPort r) \<or> Stdio r \<and> RemotePort r = '''' \<and> LocalPort r = ''''))"
  using assms by (rule decoded_remote_facts)

lemmas decode_eval = DecodeRemote_def remote_defaults_def empty_remote_def decode_part_def
  revPrefix_def TrimPrefix_def skip_colon_def text_eval

theorem decoded_remote_ok_witness:
  "DecodeRemote ''R:2222:db:22'' = Inr \<lparr>LocalHost = ''0.0.0.0'', LocalPort = ''2222'', LocalProto = ''tcp'',
     RemoteHost = ''db'', RemotePort = ''22'', RemoteProto = ''tcp'',
     Socks = False, Reverse = True, Stdio = False\<rparr> \<and> isPort ''2222'' \<and> isHost ''db''"
proof -
  have dec: "DecodeRemote ''R:2222:db:22'' = Inr \<lparr>LocalHost = ''0.0.0.0'', LocalPort = ''2222'', LocalProto = ''tcp'',
     RemoteHost = ''db'', RemotePort = ''22'', RemoteProto = ''tcp'',
     Socks = False, Reverse = True, Stdio = False\<rparr>"
    by (simp add: decode_eval)
  from decoded_remote_ok [OF dec] dec show ?thesis by simp
qed

text \<open>The table of remote_test.go: inputs, decoded remotes and encodings.\<close>

definition plain_remote :: "string \<Rightarrow> string \<Rightarrow> string \<Rightarrow> string \<Rightarrow> string \<Rightarrow> bool \<Rightarrow> Remote" where
  "plain_remote lh lp rh rp proto reverse = \<lparr>LocalHost = lh, LocalPort = lp, LocalProto = proto,
     RemoteHost = rh, RemotePort = rp, RemoteProto = proto, Socks = False, Reverse = reverse, Stdio = False\<rparr>"

lemma remote_test_table:
  "DecodeRemote ''3000'' = Inr (plain_remote ''0.0.0.0'' ''3000'' ''127.0.0.1'' ''3000'' ''tcp'' False)"
  "DecodeRemote ''google.com:80'' = Inr (plain_remote ''0.0.0.0'' ''80'' ''google.com'' ''80'' ''tcp'' False)"
  "DecodeRemote ''R:google.com:80'' = Inr (plain_remote ''0.0.0.0'' ''80'' ''google.com'' ''80'' ''tcp'' True)"
  "DecodeRemote ''1.1.1.1:53/udp'' = Inr (plain_remote ''0.0.0.0'' ''53'' ''1.1.1.1'' ''53'' ''udp'' False)"
  "DecodeRemote ''localhost:5353:1.1.1.1:53/udp'' =
     Inr (plain_remote ''localhost'' ''5353'' ''1.1.1.1'' ''53'' ''udp'' False)"
  "DecodeRemote ''[::1]:8080:google.com:80'' = Inr (plain_remote ''[::1]'' ''8080'' ''google.com'' ''80'' ''tcp'' False)"
  "DecodeRemote ''R:[::]:3000:[::1]:3000'' = Inr (plain_remote ''[::]'' ''3000'' ''[::1]'' ''3000'' ''tcp'' True)"
  by (simp_all add: decode_eval plain_remote_def)

text \<open>
  The protocol is not lower-cased: a remote given as \<open>53/UDP\<close> keeps \<open>UDP\<close>, cannot be
  listened on, and its encoding reads back as a tcp remote. A bare \<open>stdio\<close> is accepted
  with no port at all.
\<close>

lemma lower_UDP:
  "char_of (117::nat) = CHR ''u''" "char_of (100::nat) = CHR ''d''" "char_of (112::nat) = CHR ''p''"
  by code_simp+

lemma upper_case_protocol:
  "DecodeRemote ''53/UDP'' = Inr (plain_remote ''0.0.0.0'' ''53'' ''127.0.0.1'' ''53'' ''UDP'' False)"
  "CanListen bind (plain_remote ''0.0.0.0'' ''53'' ''127.0.0.1'' ''53'' ''UDP'' False) = False"
  "DecodeRemote (Remote_Encode (plain_remote ''0.0.0.0'' ''53'' ''127.0.0.1'' ''53'' ''UDP'' False)) =
     Inr (plain_remote ''0.0.0.0'' ''53'' ''127.0.0.1'' ''53'' ''tcp'' False)"
  by (simp_all add: decode_eval lower_UDP plain_remote_def CanListen_def Remote_Encode_def Remote_Local_def
      Remote_Remote_def)

lemma bare_stdio:
  "DecodeRemote ''stdio'' = Inr \<lparr>LocalHost = ''0.0.0.0'', LocalPort = '''', LocalProto = ''tcp'',
     RemoteHost = ''127.0.0.1'', RemotePort = '''', RemoteProto = ''tcp'',
     Socks = False, Reverse = False, Stdio = True\<rparr>"
  by (simp add: decode_eval)

subsection \<open>Splitting remotes\<close>

text \<open>
  The server and the client split a list of remotes by direction: the two halves are
  the forward and the reversed remotes, each in order, together a permutation of the list,
  and Reversed is idempotent and commutes with appending.
\<close>

lemma Reversed_partition:
  "Reversed b rs = [r \<leftarrow> rs. Reverse r = b] \<and>
   mset (Reversed True rs) + mset (Reversed False rs) = mset rs \<and>
   Reversed b (Reversed b rs) = Reversed b rs \<and> Reversed (\<not> b) (Reversed b rs) = [] \<and>
   Reversed b (rs @ rs') = Reversed b rs @ Reversed b rs'"
proof -
  have filter: "Reversed b rs = [r \<leftarrow> rs. Reverse r = b]" for b rs
    by (induction rs) auto
  have "mset [r \<leftarrow> rs. Reverse r = True] + mset [r \<leftarrow> rs. Reverse r = False] = mset rs"
    by (induction rs) auto
  then show ?thesis by (auto simp: filter filter_empty_conv)
qed

end
