(* ===== verification/Users.thy ===== *)
theory Users
  imports Go_Strings "HOL-Library.Finite_Map" "HOL-Library.Word"
begin

section \<open>Users\<close>

text \<open>
  Models share/settings/user.go and share/settings/users.go: the users with their password
  and address patterns, the index of users by name, loading it from a file and reloading it
  when the file is written. The server also keeps its authenticated sessions in such an
  index. Regular expressions are those of Go's regexp package: \<open>compile\<close> and \<open>matches\<close> are
  parameters, as are the reading of the file and the decoding of its JSON.
\<close>

subsection \<open>Data\<close>

record 're User =
  Name :: string
  Pass :: string
  Addrs :: "'re list"

text \<open>\<open>Users.inner\<close>, a Go map; its mutex makes every operation one step.\<close>

type_synonym 're users = "(string, 're User) fmap"

record 're UserIndex =
  inner :: "'re users"
  configFile :: string

text \<open>The content of the auth file, in the order in which Go's map iteration visits it.\<close>

type_synonym raw_users = "(string \<times> string list) list"

datatype LoadError =
    ConfigNotSet
  | ReadFailed
  | InvalidJSON
  | InvalidUserPass
  | InvalidAddress
  | WatcherFailed
  | WatchFailed

subsection \<open>user.go\<close>

definition ParseAuth :: "string \<Rightarrow> string \<times> string" where
  "ParseAuth auth =
     (if CHR '':'' \<in> set auth
      then (let pair = SplitN2 auth CHR '':'' in (pair ! 0, pair ! 1))
      else ('''', ''''))"

fun has_access_loop :: "('re \<Rightarrow> string \<Rightarrow> bool) \<Rightarrow> 're list \<Rightarrow> string \<Rightarrow> bool" where
  "has_access_loop matches [] addr = False"
| "has_access_loop matches (r # rs) addr =
     (if matches r addr then True else has_access_loop matches rs addr)"

definition HasAccess :: "('re \<Rightarrow> string \<Rightarrow> bool) \<Rightarrow> 're User \<Rightarrow> string \<Rightarrow> bool" where
  "HasAccess matches u addr = has_access_loop matches (Addrs u) addr"

subsection \<open>The index\<close>

definition NewUsers :: "'re users" where
  "NewUsers = fmempty"

definition Users_Len :: "'re users \<Rightarrow> nat" where
  "Users_Len m = fcard (fmdom m)"

definition Users_Get :: "string \<Rightarrow> 're users \<Rightarrow> 're User option" where
  "Users_Get key m = fmlookup m key"

definition Users_Set :: "string \<Rightarrow> 're User \<Rightarrow> 're users \<Rightarrow> 're users" where
  "Users_Set key user m = fmupd key user m"

definition Users_Del :: "string \<Rightarrow> 're users \<Rightarrow> 're users" where
  "Users_Del key m = fmdrop key m"

definition Users_AddUser :: "'re User \<Rightarrow> 're users \<Rightarrow> 're users" where
  "Users_AddUser user m = Users_Set (Name user) user m"

fun reset_loop :: "'re User list \<Rightarrow> 're users \<Rightarrow> 're users" where
  "reset_loop [] m = m"
| "reset_loop (u # us) m = reset_loop us (fmupd (Name u) u m)"

definition Users_Reset :: "'re User list \<Rightarrow> 're users \<Rightarrow> 're users" where
  "Users_Reset users m = reset_loop users fmempty"

definition NewUserIndex :: "'re UserIndex" where
  "NewUserIndex = \<lparr>inner = NewUsers, configFile = ''''\<rparr>"

subsection \<open>Loading the auth file\<close>

text \<open>\<open>UserAllowAll\<close> is the compiled empty pattern, which matches every string.\<close>

fun parse_addrs :: "(string \<Rightarrow> 're option) \<Rightarrow> 're \<Rightarrow> string list \<Rightarrow> LoadError + 're list" where
  "parse_addrs compile allow_all [] = Inr []"
| "parse_addrs compile allow_all (r # rs) =
     (if r = '''' \<or> r = ''*'' then map_sum id (Cons allow_all) (parse_addrs compile allow_all rs)
      else (case compile r of
              None \<Rightarrow> Inl InvalidAddress
            | Some re \<Rightarrow> map_sum id (Cons re) (parse_addrs compile allow_all rs)))"

fun parse_users :: "(string \<Rightarrow> 're option) \<Rightarrow> 're \<Rightarrow> raw_users \<Rightarrow> LoadError + 're User list" where
  "parse_users compile allow_all [] = Inr []"
| "parse_users compile allow_all ((auth, remotes) # raw) =
     (let (name, pass) = ParseAuth auth in
      if name = '''' then Inl InvalidUserPass
      else (case parse_addrs compile allow_all remotes of
              Inl e \<Rightarrow> Inl e
            | Inr addrs \<Rightarrow>
                map_sum id (Cons \<lparr>Name = name, Pass = pass, Addrs = addrs\<rparr>)
                  (parse_users compile allow_all raw)))"

definition loadUserIndex ::
  "(string \<Rightarrow> 're option) \<Rightarrow> 're \<Rightarrow> (string \<Rightarrow> bytes option) \<Rightarrow> (bytes \<Rightarrow> raw_users option) \<Rightarrow>
   're UserIndex \<Rightarrow> LoadError option \<times> 're UserIndex" where
  "loadUserIndex compile allow_all read_file unmarshal u =
     (if configFile u = '''' then (Some ConfigNotSet, u)
      else (case read_file (configFile u) of
              None \<Rightarrow> (Some ReadFailed, u)
            | Some b \<Rightarrow>
                (case unmarshal b of
                   None \<Rightarrow> (Some InvalidJSON, u)
                 | Some raw \<Rightarrow>
                     (case parse_users compile allow_all raw of
                        Inl e \<Rightarrow> (Some e, u)
                      | Inr users \<Rightarrow> (None, u\<lparr>inner := Users_Reset users (inner u)\<rparr>)))))"

text \<open>
  \<open>LoadUsers\<close> remembers the file, loads it and installs the watcher; \<open>watcher\<close> and
  \<open>watch\<close> say whether creating the watcher and adding the file to it succeed.
\<close>

definition LoadUsers ::
  "(string \<Rightarrow> 're option) \<Rightarrow> 're \<Rightarrow> (string \<Rightarrow> bytes option) \<Rightarrow> (bytes \<Rightarrow> raw_users option) \<Rightarrow>
   bool \<Rightarrow> (string \<Rightarrow> bool) \<Rightarrow> string \<Rightarrow> 're UserIndex \<Rightarrow> LoadError option \<times> 're UserIndex" where
  "LoadUsers compile allow_all read_file unmarshal watcher watch file u =
     (case loadUserIndex compile allow_all read_file unmarshal (u\<lparr>configFile := file\<rparr>) of
        (Some e, u') \<Rightarrow> (Some e, u')
      | (None, u') \<Rightarrow>
          (if \<not> watcher then (Some WatcherFailed, u')
           else if \<not> watch (configFile u') then (Some WatchFailed, u')
           else (None, u')))"

text \<open>
  The watcher's loop, one event: only events with the write bit reload the file. The bit
  \<open>write_op\<close> is fsnotify's constant, a parameter.
\<close>

definition watch_event ::
  "(string \<Rightarrow> 're option) \<Rightarrow> 're \<Rightarrow> (string \<Rightarrow> bytes option) \<Rightarrow> (bytes \<Rightarrow> raw_users option) \<Rightarrow>
   32 word \<Rightarrow> 32 word \<Rightarrow> 're UserIndex \<Rightarrow> 're UserIndex" where
  "watch_event compile allow_all read_file unmarshal write_op op u =
     (if and op write_op \<noteq> write_op then u
      else snd (loadUserIndex compile allow_all read_file unmarshal u))"

subsection \<open>The store's interface\<close>

text \<open>
  What the index, the session table and their clients rely on: a store read by key. The
  lemmas on adding a list of values hold for every such store; \<open>Users\<close> is one.
\<close>

locale keyed_store =
  fixes empty :: 'm
    and get :: "'k \<Rightarrow> 'm \<Rightarrow> 'v option"
    and set_key :: "'k \<Rightarrow> 'v \<Rightarrow> 'm \<Rightarrow> 'm"
    and del :: "'k \<Rightarrow> 'm \<Rightarrow> 'm"
  assumes get_empty: "get k empty = None"
    and get_set: "get k (set_key k' v m) = (if k = k' then Some v else get k m)"
    and get_del: "get k (del k' m) = (if k = k' then None else get k m)"
begin

lemma get_fold:
  "get k (fold (\<lambda>v. set_key (key v) v) vs m) =
     (case find (\<lambda>v. key v = k) (rev vs) of None \<Rightarrow> get k m | Some v \<Rightarrow> Some v)"
proof (induction vs rule: rev_induct)
  case (snoc v vs)
  show ?case by (auto simp: get_set snoc)
qed simp

lemma get_fold_empty: "get k (fold (\<lambda>v. set_key (key v) v) vs empty) = find (\<lambda>v. key v = k) (rev vs)"
  by (simp add: get_fold get_empty split: option.splits)

lemma claim_once: "get k (del k (set_key k v m)) = None"
  by (simp add: get_del)

end

interpretation users: keyed_store NewUsers Users_Get Users_Set Users_Del
  by unfold_locales (auto simp: NewUsers_def Users_Get_def Users_Set_def Users_Del_def)

lemma Users_Len_0 [simp]: "Users_Len m = 0 \<longleftrightarrow> m = fmempty"
proof -
  have "m = fmempty" if "fmdom m = {||}"
    using that by (intro fmap_ext) (simp add: fmdom_notD)
  then show ?thesis by (auto simp: Users_Len_def fcard_0_eq)
qed

lemma reset_loop_fold: "reset_loop us m = fold (\<lambda>u. Users_Set (Name u) u) us m"
  by (induction us arbitrary: m) (simp_all add: Users_Set_def)

lemma Reset_Get: "Users_Get n (Users_Reset us m) = find (\<lambda>u. Name u = n) (rev us)"
  using users.get_fold_empty [of n Name us]
  by (simp add: Users_Reset_def reset_loop_fold NewUsers_def)

subsection \<open>Parsing credentials\<close>

lemma first_sep_unique:
  "x \<notin> set n \<Longrightarrow> x \<notin> set m \<Longrightarrow> n @ x # p = m @ x # q \<Longrightarrow> n = m \<and> p = q"
proof (induction n arbitrary: m)
  case Nil
  then show ?case by (cases m) auto
next
  case (Cons y n)
  then show ?case by (cases m) auto
qed

text \<open>
  A credential is split at its first colon: ParseAuth gives a name and a password
  exactly when the text is the name, a colon and the password, with no colon in the name;
  without a colon both are empty.
\<close>

lemma ParseAuth_iff:
  "ParseAuth auth = (name, pass) \<longleftrightarrow>
     (if CHR '':'' \<in> set auth then auth = name @ CHR '':'' # pass \<and> CHR '':'' \<notin> set name
      else name = '''' \<and> pass = '''')"
proof (cases "CHR '':'' \<in> set auth")
  case True
  then obtain n p where auth: "auth = n @ CHR '':'' # p" "CHR '':'' \<notin> set n"
    by (metis in_set_conv_decomp_first)
  then have "takeWhile (\<lambda>c. c \<noteq> CHR '':'') auth = n" "dropWhile (\<lambda>c. c \<noteq> CHR '':'') auth = CHR '':'' # p"
    by (auto simp: takeWhile_append dropWhile_append)
  then have split: "ParseAuth auth = (n, p)"
    using True by (simp add: ParseAuth_def SplitN2_def)
  have uniq: "n = name \<and> p = pass" if "auth = name @ CHR '':'' # pass" "CHR '':'' \<notin> set name"
    using that auth first_sep_unique [of "CHR '':''" n name p pass] by simp
  have "(auth = name @ CHR '':'' # pass \<and> CHR '':'' \<notin> set name) \<longleftrightarrow> n = name \<and> p = pass"
    using auth uniq by blast
  then show ?thesis using True split by simp
qed (auto simp: ParseAuth_def)

subsection \<open>What a loaded file means\<close>

text \<open>The entries of a file that load, and the user an entry stands for.\<close>

definition wildcard :: "string \<Rightarrow> bool" where
  "wildcard r \<longleftrightarrow> r = '''' \<or> r = ''*''"

definition addr_pattern :: "(string \<Rightarrow> 're option) \<Rightarrow> 're \<Rightarrow> string \<Rightarrow> 're" where
  "addr_pattern compile allow_all r = (if wildcard r then allow_all else the (compile r))"

definition entry_ok :: "(string \<Rightarrow> 're option) \<Rightarrow> string \<times> string list \<Rightarrow> bool" where
  "entry_ok compile = (\<lambda>(auth, remotes). fst (ParseAuth auth) \<noteq> '''' \<and>
     list_all (\<lambda>r. wildcard r \<or> compile r \<noteq> None) remotes)"

definition entry_user :: "(string \<Rightarrow> 're option) \<Rightarrow> 're \<Rightarrow> string \<times> string list \<Rightarrow> 're User" where
  "entry_user compile allow_all = (\<lambda>(auth, remotes).
     \<lparr>Name = fst (ParseAuth auth), Pass = snd (ParseAuth auth),
      Addrs = map (addr_pattern compile allow_all) remotes\<rparr>)"

lemma parse_addrs_eq:
  "parse_addrs compile allow_all rs =
     (if list_all (\<lambda>r. wildcard r \<or> compile r \<noteq> None) rs
      then Inr (map (addr_pattern compile allow_all) rs) else Inl InvalidAddress)"
proof (induction rs)
  case (Cons r rs)
  show ?case
  proof (cases "wildcard r")
    case True
    then show ?thesis by (simp add: Cons addr_pattern_def flip: wildcard_def)
  next
    case False
    then show ?thesis
      by (cases "compile r") (simp_all add: Cons addr_pattern_def flip: wildcard_def)
  qed
qed simp

lemma parse_users_eq:
  "(if list_all (entry_ok compile) raw
    then parse_users compile allow_all raw = Inr (map (entry_user compile allow_all) raw)
    else \<exists>e. parse_users compile allow_all raw = Inl e)"
proof (induction raw)
  case (Cons e raw)
  then show ?case
    by (cases e; cases "ParseAuth (fst e)")
      (auto simp: entry_ok_def entry_user_def parse_addrs_eq split: if_split_asm)
qed simp

lemma HasAccess_iff: "HasAccess matches u addr \<longleftrightarrow> (\<exists>r\<in>set (Addrs u). matches r addr)"
proof -
  have "has_access_loop matches rs addr \<longleftrightarrow> (\<exists>r\<in>set rs. matches r addr)" for rs
    by (induction rs) auto
  then show ?thesis by (simp add: HasAccess_def)
qed

lemma addr_pattern_matches:
  "matches allow_all addr \<Longrightarrow>
   matches (addr_pattern compile allow_all r) addr \<longleftrightarrow> wildcard r \<or> matches (the (compile r)) addr"
  by (simp add: addr_pattern_def)

text \<open>The last entry of a file for a user name.\<close>

definition last_entry :: "string \<Rightarrow> raw_users \<Rightarrow> (string \<times> string list) option" where
  "last_entry n raw = find (\<lambda>e. fst (ParseAuth (fst e)) = n) (rev raw)"

lemma find_map: "find P (map f xs) = map_option f (find (P \<circ> f) xs)"
  by (induction xs) auto

lemma entry_user_Name [simp]: "Name (entry_user compile allow_all e) = fst (ParseAuth (fst e))"
  by (cases e) (simp add: entry_user_def)

lemma Reset_entries:
  "Users_Get n (Users_Reset (map (entry_user compile allow_all) raw) m) =
     map_option (entry_user compile allow_all) (last_entry n raw)"
  by (simp add: Reset_Get rev_map find_map last_entry_def comp_def)

text \<open>
  Loading or reloading the auth file is all or nothing: if every entry has a name and
  every pattern compiles, each name is looked up as the last entry for it and no other name
  is known; otherwise the load fails and the users stay exactly as they were.
\<close>

lemma loadUserIndex_effect:
  assumes "configFile u \<noteq> ''''" "read_file (configFile u) = Some b" "unmarshal b = Some raw"
    and load: "loadUserIndex compile allow_all read_file unmarshal u = (e, u')"
  shows "if list_all (entry_ok compile) raw
    then e = None \<and> configFile u' = configFile u \<and>
      (\<forall>n. Users_Get n (inner u') = map_option (entry_user compile allow_all) (last_entry n raw))
    else e \<noteq> None \<and> u' = u"
  using assms parse_users_eq [of compile raw allow_all]
  by (auto simp: loadUserIndex_def Reset_entries split: if_splits)

lemma loadUserIndex_file:
  assumes "configFile u \<noteq> ''''" "read_file (configFile u) = Some b" "unmarshal b = Some raw"
    and "loadUserIndex compile allow_all read_file unmarshal u = (None, u')"
  shows "Users_Get n (inner u') = map_option (entry_user compile allow_all) (last_entry n raw)"
  using loadUserIndex_effect [OF assms] by (simp split: if_splits)

text \<open>
  What a loaded file permits: a user may reach an address exactly when its last entry
  in the file has an empty or \<open>*\<close> pattern or a pattern that matches the address.
\<close>

lemma loaded_access:
  assumes all: "\<And>addr. matches allow_all addr"
    and load: "loadUserIndex compile allow_all read_file unmarshal u = (None, u')"
    and raw: "read_file (configFile u) = Some b" "unmarshal b = Some raw"
  shows "(case Users_Get n (inner u') of None \<Rightarrow> False | Some user \<Rightarrow> HasAccess matches user addr) \<longleftrightarrow>
    (\<exists>auth rs. last_entry n raw = Some (auth, rs) \<and>
      (\<exists>r\<in>set rs. wildcard r \<or> matches (the (compile r)) addr))"
proof -
  have "configFile u \<noteq> ''''" using load by (auto simp: loadUserIndex_def)
  moreover have "list_all (entry_ok compile) raw"
    using load raw parse_users_eq [of compile raw allow_all]
    by (auto simp: loadUserIndex_def split: if_splits sum.splits)
  ultimately have "Users_Get n (inner u') = map_option (entry_user compile allow_all) (last_entry n raw)"
    using load raw parse_users_eq [of compile raw allow_all]
    by (auto simp: loadUserIndex_def Reset_entries)
  then show ?thesis
    using all
    by (auto simp: entry_user_def HasAccess_iff addr_pattern_matches [where matches = matches, OF all]
        simp del: image_iff split: option.splits prod.splits)
qed

text \<open>A sample auth file, with two entries for one name.\<close>

definition sample_raw :: raw_users where
  "sample_raw = [(''bob:old'', [''*'']), (''eve:pw'', ['''']), (''bob:new'', [''db:22''])]"

definition sample_compile :: "string \<Rightarrow> string option" where
  "sample_compile s = (if s = ''('' then None else Some s)"

definition sample_matches :: "string \<Rightarrow> string \<Rightarrow> bool" where
  "sample_matches re addr \<longleftrightarrow> re = '''' \<or> re = addr"

definition sample_index :: "string UserIndex" where
  "sample_index = \<lparr>inner = fmempty, configFile = ''users.json''\<rparr>"

lemma sample_auths: "ParseAuth ''bob:old'' = (''bob'', ''old'')" "ParseAuth ''eve:pw'' = (''eve'', ''pw'')"
  "ParseAuth ''bob:new'' = (''bob'', ''new'')"
  by (simp_all add: ParseAuth_def SplitN2_def)

lemma sample_last: "last_entry ''bob'' sample_raw = Some (''bob:new'', [''db:22''])"
  by (simp add: last_entry_def sample_raw_def sample_auths)

lemma sample_ok: "list_all (entry_ok sample_compile) sample_raw"
  by (simp add: sample_raw_def entry_ok_def sample_auths sample_compile_def)

theorem loaded_access_witness:
  "\<exists>u'. loadUserIndex sample_compile '''' (\<lambda>_. Some []) (\<lambda>_. Some sample_raw) sample_index = (None, u') \<and>
    (case Users_Get ''bob'' (inner u') of None \<Rightarrow> False | Some user \<Rightarrow> HasAccess sample_matches user ''db:22'') \<and>
    \<not> (case Users_Get ''bob'' (inner u') of None \<Rightarrow> False | Some user \<Rightarrow> HasAccess sample_matches user ''db:23'')"
proof -
  have "parse_users sample_compile '''' sample_raw = Inr (map (entry_user sample_compile '''') sample_raw)"
    using parse_users_eq [of sample_compile sample_raw "''''"] by (simp add: sample_ok)
  then obtain u' where
    "loadUserIndex sample_compile '''' (\<lambda>_. Some []) (\<lambda>_. Some sample_raw) sample_index = (None, u')"
    by (simp add: loadUserIndex_def sample_index_def)
  moreover from this have "(case Users_Get ''bob'' (inner u') of None \<Rightarrow> False
      | Some user \<Rightarrow> HasAccess sample_matches user addr) \<longleftrightarrow> addr = ''db:22''" for addr
    by (subst loaded_access [where allow_all = "''''" and compile = sample_compile and u = sample_index])
      (auto simp: sample_last sample_matches_def wildcard_def sample_compile_def)
  ultimately show ?thesis by auto
qed

end
