(* ===== verification/Session.thy ===== *)
theory Session
  imports Control_Plane Remotes Users
begin

section \<open>Client sessions\<close>

text \<open>
  Models the client side of server/server_handler.go (\<open>handleClientHandler\<close>,
  \<open>handleWebsocket\<close>, \<open>handleRequestHeader\<close>, \<open>handleRemote\<close>) and \<open>authUser\<close> of
  server/server.go. The WebSocket and SSH libraries, the operating system's answer to a
  listen, the JSON decoder and the regular expressions are parameters.
\<close>

subsection \<open>State\<close>

record ServerConfig =
  KeySeed :: string
  KeyFile :: string
  AuthFile :: string
  Auth :: string
  ProxyURL :: string
  Socks5 :: bool
  ReverseEnabled :: bool
  KeepAlive :: time
  TLSKey :: string
  TLSCert :: string
  TLSDomains :: "string list"
  TLSCA :: string
  ControlPort :: string
  MinPort :: int
  MaxPort :: int

record 're Server =
  config :: ServerConfig
  sessCount :: "32 word"
  sessions :: "'re users"
  index :: "'re UserIndex"
  reverseProxy :: "string option"
  allocator :: PortAllocator

definition ProtocolVersion :: string where
  "ProtocolVersion = ''costrict-v3''"

subsection \<open>Routing a client's request\<close>

datatype client_answer =
    ServeWebsocket
  | ServeProxy
  | Respond int string

text \<open>\<open>build\<close> is \<open>BuildVersion\<close>, which the linker sets.\<close>

definition handleClientHandler :: "string \<Rightarrow> 're Server \<Rightarrow> http_request \<Rightarrow> client_answer" where
  "handleClientHandler build s r =
     (let upgrade = ToLower (Header r ''Upgrade'');
          protocol = Header r ''Sec-WebSocket-Protocol''
      in if upgrade = ''websocket'' \<and> protocol = ProtocolVersion then ServeWebsocket
         else if reverseProxy s \<noteq> None then ServeProxy
         else if Path r = ''/health'' then Respond 200 ''OK\<newline>''
         else if Path r = ''/version'' then Respond 200 build
         else Respond 404 ''Not found'')"

subsection \<open>Authentication\<close>

text \<open>
  The SSH password callback: whether the login is accepted, and the session it records.
\<close>

definition authUser :: "string \<Rightarrow> string \<Rightarrow> string \<Rightarrow> 're Server \<Rightarrow> bool \<times> 're Server" where
  "authUser sid n password s =
     (if Users_Len (inner (index s)) = 0 then (True, s)
      else (case Users_Get n (inner (index s)) of
              None \<Rightarrow> (False, s)
            | Some user \<Rightarrow>
                (if Pass user \<noteq> password then (False, s)
                 else (True, s\<lparr>sessions := Users_Set sid user (sessions s)\<rparr>))))"

text \<open>\<open>handleWebsocket\<close> pulls the user out of the session table.\<close>

definition claim_user :: "string \<Rightarrow> 're Server \<Rightarrow> go_panic + ('re User option \<times> 're Server)" where
  "claim_user sid s =
     (if Users_Len (inner (index s)) > 0 then
        (case Users_Get sid (sessions s) of
           None \<Rightarrow> Inl (PanicCall ''bug in ssh auth handler'')
         | Some u \<Rightarrow> Inr (Some u, s\<lparr>sessions := Users_Del sid (sessions s)\<rparr>))
      else Inr (None, s))"

subsection \<open>The remotes of a session\<close>

definition handleRequestHeader :: "(string \<Rightarrow> string) \<Rightarrow> PortAllocation" where
  "handleRequestHeader header =
     empty_allocation\<lparr>Status := Freed, ClientId := header ''X-Client-Id'',
       AppName := header ''X-App-Name'', UserId := header ''X-User-Id''\<rparr>"

text \<open>The result is the pointer \<open>alloc\<close>, none for nil.\<close>

definition handleRemote ::
  "time \<Rightarrow> address option \<Rightarrow> Remote \<Rightarrow> PortAllocator \<Rightarrow> go_panic + (address option \<times> PortAllocator)" where
  "handleRemote now alloc r pa =
     (if (case alloc of None \<Rightarrow> False | Some a \<Rightarrow> Status (cells pa a) \<noteq> Freed) then Inr (alloc, pa)
      else if \<not> Reverse r then Inr (alloc, pa)
      else (let clientPort = Atoi_value (RemotePort r); mappingPort = Atoi_value (LocalPort r) in
            case alloc of
              None \<Rightarrow> Inl NilDereference
            | Some a \<Rightarrow>
                (let c = cells pa a in
                 if ClientPort c \<noteq> 0 \<and> ClientPort c \<noteq> clientPort then Inr (alloc, pa)
                 else if MappingPort c \<noteq> 0 \<and> MappingPort c \<noteq> mappingPort then Inr (alloc, pa)
                 else (case OnConnected now c clientPort mappingPort pa of
                         (Inl _, pa') \<Rightarrow> Inr (None, pa')
                       | (Inr b, pa') \<Rightarrow> Inr (Some b, pa')))))"

datatype config_failure =
    AllocFailed Remote
  | AccessDenied string
  | ReverseDisabled
  | CannotListen Remote

text \<open>
  The loop over the remotes of the client's configuration, which stops at the first one
  that is refused. The decoded remotes are pointers; a nil one is dereferenced, by
  \<open>handleRemote\<close> or, once the session has its lease, by the checks that follow.
\<close>

fun validate_remotes ::
  "time \<Rightarrow> ('re \<Rightarrow> string \<Rightarrow> bool) \<Rightarrow> (string \<Rightarrow> string \<Rightarrow> bool) \<Rightarrow> bool \<Rightarrow> 're User option \<Rightarrow>
   Remote option list \<Rightarrow> address \<Rightarrow> PortAllocator \<Rightarrow> go_panic + ((config_failure + address) \<times> PortAllocator)" where
  "validate_remotes now matches bind reverse user [] a pa = Inr (Inr a, pa)"
| "validate_remotes now matches bind reverse user (None # rs) a pa = Inl NilDereference"
| "validate_remotes now matches bind reverse user (Some r # rs) a pa =
     (case handleRemote now (Some a) r pa of
        Inl p \<Rightarrow> Inl p
      | Inr (None, pa') \<Rightarrow> Inr (Inl (AllocFailed r), pa')
      | Inr (Some b, pa') \<Rightarrow>
          (if (case user of None \<Rightarrow> False | Some u \<Rightarrow> \<not> HasAccess matches u (UserAddr r))
             then Inr (Inl (AccessDenied (UserAddr r)), pa')
           else if Reverse r \<and> \<not> reverse then Inr (Inl ReverseDisabled, pa')
           else if Reverse r \<and> \<not> CanListen bind r then Inr (Inl (CannotListen r), pa')
           else validate_remotes now matches bind reverse user rs b pa'))"

subsection \<open>handleWebsocket\<close>

text \<open>What the wait for the client's first SSH request ends with.\<close>

datatype first_request =
    RequestTimeout
  | RequestsClosed
  | Request string bytes

datatype session_end =
    UpgradeFailed
  | HandshakeFailed
  | ConfigTimeout
  | NotConfig
  | BadConfig
  | Refused config_failure
  | Served

definition client_version :: "string \<Rightarrow> string" where
  "client_version v = (let cv = TrimPrefix v ''v'' in if cv = '''' then ''<unknown>'' else cv)"

definition set_allocator :: "PortAllocator \<Rightarrow> 're Server \<Rightarrow> 're Server" where
  "set_allocator pa s = s\<lparr>allocator := pa\<rparr>"

text \<open>The first phase: count the session and make the object for the request's headers.\<close>

definition open_session :: "(string \<Rightarrow> string) \<Rightarrow> 're Server \<Rightarrow> address \<times> 're Server" where
  "open_session header s =
     (let s = s\<lparr>sessCount := sessCount s + 1\<rparr>;
          (a, pa) = new_object (handleRequestHeader header) (allocator s)
      in (a, set_allocator pa s))"

text \<open>From the client's first request to the end of the validation of its remotes.\<close>

definition configure_session ::
  "time \<Rightarrow> ('re \<Rightarrow> string \<Rightarrow> bool) \<Rightarrow> (string \<Rightarrow> string \<Rightarrow> bool) \<Rightarrow> (bytes \<Rightarrow> (string \<times> Remote option list) option) \<Rightarrow>
   first_request \<Rightarrow> 're User option \<Rightarrow> address \<Rightarrow> 're Server \<Rightarrow>
   go_panic + ((session_end + address) \<times> 're Server)" where
  "configure_session now matches bind decode request user a s =
     (case request of
        RequestTimeout \<Rightarrow> Inr (Inl ConfigTimeout, s)
      | RequestsClosed \<Rightarrow> Inl NilDereference
      | Request ty payload \<Rightarrow>
          (if ty \<noteq> ''config'' then Inr (Inl NotConfig, s)
           else (case decode payload of
                   None \<Rightarrow> Inr (Inl BadConfig, s)
                 | Some (version, remotes) \<Rightarrow>
                     (let pa = allocator s;
                          pa1 = store a ((cells pa a)\<lparr>ClientVersion := client_version version\<rparr>) pa
                      in case validate_remotes now matches bind (ReverseEnabled (config s)) user remotes a pa1 of
                           Inl p \<Rightarrow> Inl p
                         | Inr (Inl e, pa') \<Rightarrow> Inr (Inl (Refused e), set_allocator pa' s)
                         | Inr (Inr b, pa') \<Rightarrow> Inr (Inr b, set_allocator pa' s)))))"

text \<open>The last statement: the lease is only marked idle, without taking the allocator's lock.\<close>

definition close_session :: "address \<Rightarrow> 're Server \<Rightarrow> 're Server" where
  "close_session a s =
     set_allocator (store a ((cells (allocator s) a)\<lparr>Status := Allocated\<rparr>) (allocator s)) s"

text \<open>
  The whole handler. \<open>upgraded\<close> and \<open>sid\<close> say whether the WebSocket upgrade and the SSH
  handshake succeed (with the session's id; the callback \<open>authUser\<close> has then run);
  \<open>handshaking\<close> and \<open>serving\<close> are what the rest of the server does to the state during the
  handshake and while the tunnel is up.
\<close>

definition handleWebsocket ::
  "time \<Rightarrow> ('re \<Rightarrow> string \<Rightarrow> bool) \<Rightarrow> (string \<Rightarrow> string \<Rightarrow> bool) \<Rightarrow> (bytes \<Rightarrow> (string \<times> Remote option list) option) \<Rightarrow>
   bool \<Rightarrow> string option \<Rightarrow> first_request \<Rightarrow> ('re Server \<Rightarrow> 're Server) \<Rightarrow> ('re Server \<Rightarrow> 're Server) \<Rightarrow>
   (string \<Rightarrow> string) \<Rightarrow> 're Server \<Rightarrow> go_panic + (session_end \<times> 're Server)" where
  "handleWebsocket now matches bind decode upgraded sid request handshaking serving header s =
     (let (a, s1) = open_session header s in
      if \<not> upgraded then Inr (UpgradeFailed, s1)
      else (case sid of
              None \<Rightarrow> Inr (HandshakeFailed, handshaking s1)
            | Some i \<Rightarrow>
                (case claim_user i (handshaking s1) of
                   Inl p \<Rightarrow> Inl p
                 | Inr (user, s2) \<Rightarrow>
                     (case configure_session now matches bind decode request user a s2 of
                        Inl p \<Rightarrow> Inl p
                      | Inr (Inl e, s3) \<Rightarrow> Inr (e, s3)
                      | Inr (Inr b, s3) \<Rightarrow> Inr (Served, close_session b (serving s3))))))"

subsection \<open>Authentication: what a login and its claim give\<close>

lemma authUser_cases:
  "authUser sid n pw s =
     (case Users_Get n (inner (index s)) of
        None \<Rightarrow> (inner (index s) = fmempty, s)
      | Some u \<Rightarrow> if Pass u = pw then (True, s\<lparr>sessions := Users_Set sid u (sessions s)\<rparr>) else (False, s))"
proof (cases "inner (index s) = fmempty")
  case True
  then have "Users_Get n (inner (index s)) = None" by (simp add: Users_Get_def)
  then show ?thesis by (simp add: authUser_def True)
next
  case False
  then show ?thesis by (simp add: authUser_def split: option.split)
qed

text \<open>
  The password callback accepts a login exactly when no users are configured or the
  name is a user's and the password is that user's, and it records the user under the
  session's id in just the second case; a refused login leaves the server as it was.
\<close>

lemma authUser_spec:
  "authUser sid n pw s =
     (case Users_Get n (inner (index s)) of
        None \<Rightarrow> (inner (index s) = fmempty, s)
      | Some u \<Rightarrow> if Pass u = pw then (True, s\<lparr>sessions := Users_Set sid u (sessions s)\<rparr>) else (False, s))"
  by (rule authUser_cases)

text \<open>
  What the handler claims for a session whose login was accepted, whatever happened to
  the users since, as long as the session table is as the login left it. With no users by
  then, the session runs without a user, so without access checks. Otherwise it runs as the
  user that logged in, once: the record is removed. If there were no users at the login but
  there are now, the handler panics (unless an older record has the same id).
\<close>

lemma claim_after_login:
  assumes login: "authUser sid n pw s = (True, s1)" and table: "sessions s2 = sessions s1"
  shows "claim_user sid s2 =
    (if inner (index s2) = fmempty then Inr (None, s2)
     else (case (if inner (index s) = fmempty then Users_Get sid (sessions s)
                 else Users_Get n (inner (index s))) of
             None \<Rightarrow> Inl (PanicCall ''bug in ssh auth handler'')
           | Some u \<Rightarrow> Inr (Some u, s2\<lparr>sessions := Users_Del sid (sessions s2)\<rparr>))) \<and>
    (inner (index s) \<noteq> fmempty \<longrightarrow> map_option Pass (Users_Get n (inner (index s))) = Some pw)"
proof (cases "inner (index s) = fmempty")
  case True
  then have "s1 = s" using login by (simp add: authUser_def)
  with True table show ?thesis by (simp add: claim_user_def zero_less_iff_neq_zero)
next
  case False
  then obtain u where u: "Users_Get n (inner (index s)) = Some u" "Pass u = pw"
    "s1 = s\<lparr>sessions := Users_Set sid u (sessions s)\<rparr>"
    using login by (auto simp: authUser_cases split: option.splits if_splits)
  then have "Users_Get sid (sessions s2) = Some u" by (simp add: table users.get_set)
  with False u show ?thesis by (simp add: claim_user_def zero_less_iff_neq_zero)
qed

subsection \<open>Validating the remotes\<close>

text \<open>A remote the configuration loop lets pass, and what each refusal says.\<close>

definition permitted ::
  "('re \<Rightarrow> string \<Rightarrow> bool) \<Rightarrow> (string \<Rightarrow> string \<Rightarrow> bool) \<Rightarrow> bool \<Rightarrow> 're User option \<Rightarrow> Remote \<Rightarrow> bool" where
  "permitted matches bind reverse user r \<longleftrightarrow>
     (case user of None \<Rightarrow> True | Some u \<Rightarrow> HasAccess matches u (UserAddr r)) \<and>
     (Reverse r \<longrightarrow> reverse \<and> CanListen bind r)"

fun refusal_of ::
  "('re \<Rightarrow> string \<Rightarrow> bool) \<Rightarrow> (string \<Rightarrow> string \<Rightarrow> bool) \<Rightarrow> bool \<Rightarrow> 're User option \<Rightarrow> Remote \<Rightarrow>
   config_failure \<Rightarrow> bool" where
  "refusal_of matches bind reverse user r (AllocFailed r') \<longleftrightarrow> r' = r \<and> Reverse r"
| "refusal_of matches bind reverse user r (AccessDenied addr) \<longleftrightarrow>
     addr = UserAddr r \<and> (\<exists>u. user = Some u \<and> \<not> HasAccess matches u addr)"
| "refusal_of matches bind reverse user r ReverseDisabled \<longleftrightarrow> Reverse r \<and> \<not> reverse"
| "refusal_of matches bind reverse user r (CannotListen r') \<longleftrightarrow> r' = r \<and> Reverse r \<and> \<not> CanListen bind r"

lemma handleRemote_no_panic: "\<exists>x. handleRemote now (Some a) r pa = Inr x"
  by (auto simp: handleRemote_def Let_def split: prod.splits sum.splits)

lemma handleRemote_None:
  "handleRemote now (Some a) r pa = Inr (None, pa') \<Longrightarrow> Reverse r"
  by (auto simp: handleRemote_def split: if_splits)

lemma validate_step:
  obtains (nil) pa' where "handleRemote now (Some a) r pa = Inr (None, pa')"
      "validate_remotes now matches bind reverse user (Some r # rs) a pa = Inr (Inl (AllocFailed r), pa')" "Reverse r"
  | (refused) b pa' e where "handleRemote now (Some a) r pa = Inr (Some b, pa')"
      "validate_remotes now matches bind reverse user (Some r # rs) a pa = Inr (Inl e, pa')"
      "refusal_of matches bind reverse user r e" "\<not> permitted matches bind reverse user r" "e \<noteq> AllocFailed r"
  | (passed) b pa' where "handleRemote now (Some a) r pa = Inr (Some b, pa')"
      "permitted matches bind reverse user r"
      "validate_remotes now matches bind reverse user (Some r # rs) a pa =
         validate_remotes now matches bind reverse user rs b pa'"
proof -
  obtain x pa' where h: "handleRemote now (Some a) r pa = Inr (x, pa')"
    using handleRemote_no_panic by (metis surj_pair)
  show thesis
  proof (cases x)
    case None
    with h nil show ?thesis by (auto dest: handleRemote_None)
  next
    case (Some b)
    let ?denied = "case user of None \<Rightarrow> False | Some u \<Rightarrow> \<not> HasAccess matches u (UserAddr r)"
    note h = h [unfolded Some]
    consider (denied) u where "?denied" "user = Some u" | (disabled) "\<not> ?denied" "Reverse r" "\<not> reverse"
      | (taken) "\<not> ?denied" "Reverse r" "reverse" "\<not> CanListen bind r"
      | (ok) "\<not> ?denied" "Reverse r \<longrightarrow> reverse \<and> CanListen bind r"
      by (cases user) auto
    then show ?thesis
    proof cases
      case denied
      with h show ?thesis by (intro refused [OF h]) (auto simp: permitted_def)
    next
      case disabled
      with h show ?thesis by (intro refused [OF h]) (auto simp: permitted_def)
    next
      case taken
      with h show ?thesis by (intro refused [OF h]) (auto simp: permitted_def)
    next
      case ok
      with h show ?thesis by (intro passed [OF h]) (auto simp: permitted_def split: option.splits)
    qed
  qed
qed

lemma validate_passed:
  assumes "handleRemote now (Some a) r pa = Inr (Some b, pa')" "permitted matches bind reverse user r"
  shows "validate_remotes now matches bind reverse user (Some r # rs) a pa =
    validate_remotes now matches bind reverse user rs b pa'"
  using assms by (cases user) (auto simp: permitted_def)

lemma validate_decides:
  "(case validate_remotes now matches bind reverse user rs a pa of
      Inl p \<Rightarrow> p = NilDereference \<and>
        (\<exists>pre post. rs = map Some pre @ None # post \<and> list_all (permitted matches bind reverse user) pre)
    | Inr (Inr b, pa') \<Rightarrow> (\<exists>xs. rs = map Some xs \<and> list_all (permitted matches bind reverse user) xs)
    | Inr (Inl e, pa') \<Rightarrow>
        (\<exists>pre r post b q x. rs = map Some pre @ Some r # post \<and> list_all (permitted matches bind reverse user) pre \<and>
           validate_remotes now matches bind reverse user (map Some pre) a pa = Inr (Inr b, q) \<and>
           handleRemote now (Some b) r q = Inr (x, pa') \<and> (x = None \<longleftrightarrow> e = AllocFailed r) \<and>
           refusal_of matches bind reverse user r e))"
proof (induction rs arbitrary: a pa)
  case (Cons x rs)
  show ?case
  proof (cases x)
    case None
    then show ?thesis by (auto intro: exI [of _ "[]"])
  next
    case (Some r)
    show ?thesis
    proof (cases rule: validate_step [of now a r pa matches bind reverse user rs])
      case (nil pa')
      then show ?thesis
        unfolding Some by (simp del: validate_remotes.simps(2-)) (rule exI [of _ "[]"], simp)
    next
      case (refused b pa' e)
      then show ?thesis
        unfolding Some by (simp del: validate_remotes.simps(2-)) (rule exI [of _ "[]"], simp)
    next
      case (passed b pa')
      let ?P = "permitted matches bind reverse user" and ?v = "validate_remotes now matches bind reverse user rs b pa'"
      have lift: "\<exists>pre' post'. Some r # rs = map Some pre' @ z # post' \<and> list_all ?P pre'"
        if "rs = map Some pre @ z # post" "list_all ?P pre" for pre z post
        using that passed(2) by (intro exI [of _ "r # pre"] exI [of _ post]) simp
      have all: "\<exists>xs'. Some r # rs = map Some xs' \<and> list_all ?P xs'" if "rs = map Some xs" "list_all ?P xs" for xs
        using that passed(2) by (intro exI [of _ "r # xs"]) simp
      consider (panic) p where "?v = Inl p" | (refuse) e q where "?v = Inr (Inl e, q)"
        | (accept) c q where "?v = Inr (Inr c, q)"
        by (metis sumE surj_pair)
      then show ?thesis
      proof cases
        case panic
        with Cons.IH [of b pa'] lift show ?thesis unfolding Some passed(3) by fastforce
      next
        case refuse
        with Cons.IH [of b pa'] obtain pre s post c u x where v: "rs = map Some pre @ Some s # post" "list_all ?P pre"
          "validate_remotes now matches bind reverse user (map Some pre) b pa' = Inr (Inr c, u)"
          "handleRemote now (Some c) s u = Inr (x, q)" "x = None \<longleftrightarrow> e = AllocFailed s" "refusal_of matches bind reverse user s e"
          by auto
        have "validate_remotes now matches bind reverse user (map Some (r # pre)) a pa = Inr (Inr c, u)"
          using validate_passed [OF passed(1,2), of "map Some pre"] v(3) by simp
        moreover have "Some r # rs = map Some (r # pre) @ Some s # post" "list_all ?P (r # pre)"
          using v(1,2) passed(2) by simp_all
        ultimately show ?thesis unfolding Some passed(3) refuse sum.case prod.case using v(4-6) by blast
      next
        case accept
        with Cons.IH [of b pa'] all show ?thesis unfolding Some passed(3) by fastforce
      qed
    qed
  qed
qed simp

subsection \<open>The lease of a session\<close>

lemma handleRemote_forward: "\<not> Reverse r \<Longrightarrow> handleRemote now (Some a) r pa = Inr (Some a, pa)"
  by (simp add: handleRemote_def)

lemma handleRemote_held: "Status (cells pa a) \<noteq> Freed \<Longrightarrow> handleRemote now (Some a) r pa = Inr (Some a, pa)"
  by (simp add: handleRemote_def)

text \<open>A call of OnConnected that succeeds returns the pointer to a connected lease of the port.\<close>

lemma OnConnected_Inr:
  assumes "pa_exclusive pa" "OnConnected now c cp mp pa = (Inr b, pa')"
  shows "Status (cells pa' b) = Connected" "MappingPort (cells pa' b) = mp" "ClientPort (cells pa' b) = cp"
    "ports pa' mp = Some b" "names pa' (key_of (cells pa' b)) = Some b"
proof -
  note so = pa_soundD [OF pa_exclusiveD(1) [OF assms(1)]]
  have new: "Status (cells pa' b) = Connected \<and> MappingPort (cells pa' b) = mp \<and> ClientPort (cells pa' b) = cp
      \<and> ports pa' mp = Some b \<and> names pa' (key_of (cells pa' b)) = Some b"
    if "applyNew now i u n cp mp pa = (Inr b, pa')" for i u n
    using that pa_exclusiveD(2) [OF assms(1)] so(2)
    by (auto simp: applyNew_def Let_def case_prod_beta split: option.splits if_splits)
  have old: "Status (cells pa' b) = Connected \<and> MappingPort (cells pa' b) = mp \<and> ClientPort (cells pa' b) = cp
      \<and> ports pa' mp = Some b \<and> names pa' (key_of (cells pa' b)) = Some b"
    if "applyOld now cp mp pa = (Inr b, pa')"
    using that pa_exclusiveD(4) [OF assms(1)] so(5)
    by (auto simp: applyOld_def Let_def split: option.splits if_splits)
  from assms(2) new old
  show "Status (cells pa' b) = Connected" "MappingPort (cells pa' b) = mp" "ClientPort (cells pa' b) = cp"
    "ports pa' mp = Some b" "names pa' (key_of (cells pa' b)) = Some b"
    by (auto simp: OnConnected_def split: if_splits)
qed

text \<open>
  C21: the configuration loop decides as it should: if it accepts, no remote is nil, the
  user may reach every remote, and every reversed remote is allowed by the server and can
  be listened on; if it refuses, all remotes before some remote passed, and the failure it
  reports is true of that remote, an allocation failure exactly when the allocator refused it
  in the state in which the remotes before it had left the server; and it panics only on a nil remote, after all before it
  passed.
\<close>

theorem validate_remotes_decision:
  "(case validate_remotes now matches bind reverse user rs a pa of
      Inl p \<Rightarrow> p = NilDereference \<and>
        (\<exists>pre post. rs = map Some pre @ None # post \<and> list_all (permitted matches bind reverse user) pre)
    | Inr (Inr b, pa') \<Rightarrow> (\<exists>xs. rs = map Some xs \<and> list_all (permitted matches bind reverse user) xs)
    | Inr (Inl e, pa') \<Rightarrow>
        (\<exists>pre r post b q x. rs = map Some pre @ Some r # post \<and> list_all (permitted matches bind reverse user) pre \<and>
           validate_remotes now matches bind reverse user (map Some pre) a pa = Inr (Inr b, q) \<and>
           handleRemote now (Some b) r q = Inr (x, pa') \<and> (x = None \<longleftrightarrow> e = AllocFailed r) \<and>
           refusal_of matches bind reverse user r e))"
  by (rule validate_decides)

lemma validate_held:
  assumes "Status (cells pa a) \<noteq> Freed"
    "validate_remotes now matches bind reverse user (map Some rs) a pa = Inr (Inr b, pa')"
  shows "b = a \<and> pa' = pa"
  using assms
proof (induction rs)
  case (Cons r rs)
  then show ?case
    by (cases rule: validate_step [of now a r pa matches bind reverse user "map Some rs"])
      (auto simp: handleRemote_held simp del: validate_remotes.simps)
qed simp

lemma validate_accepts:
  assumes "Status (cells pa a) = Freed" "ClientPort (cells pa a) = 0" "MappingPort (cells pa a) = 0"
    and "validate_remotes now matches bind reverse user (map Some rs) a pa = Inr (Inr b, pa')"
    and "pa_exclusive pa"
  shows "case Reversed True rs of
      [] \<Rightarrow> b = a \<and> pa' = pa
    | r # _ \<Rightarrow> OnConnected now (cells pa a) (Atoi_value (RemotePort r)) (Atoi_value (LocalPort r)) pa = (Inr b, pa')"
  using assms(4)
proof (induction rs)
  case (Cons r rs)
  show ?case
  proof (cases "Reverse r")
    case False
    with Cons show ?thesis
      by (cases rule: validate_step [of now a r pa matches bind reverse user "map Some rs"])
        (auto simp: handleRemote_forward simp del: validate_remotes.simps)
  next
    case True
    obtain b1 pa1 where h: "handleRemote now (Some a) r pa = Inr (Some b1, pa1)"
      and rest: "validate_remotes now matches bind reverse user (map Some rs) b1 pa1 = Inr (Inr b, pa')"
      using Cons.prems
      by (cases rule: validate_step [of now a r pa matches bind reverse user "map Some rs"])
        (auto simp del: validate_remotes.simps)
    then have c: "OnConnected now (cells pa a) (Atoi_value (RemotePort r)) (Atoi_value (LocalPort r)) pa = (Inr b1, pa1)"
      using True assms(1-3) by (auto simp: handleRemote_def Let_def split: prod.splits sum.splits)
    then have "Status (cells pa1 b1) \<noteq> Freed"
      using OnConnected_Inr(1) [OF assms(5) c] by simp
    with rest c True show ?thesis by (auto dest!: validate_held)
  qed
qed (use assms in simp)

lemma session_lease:
  assumes ex: "pa_exclusive pa" and obj: "cells pa a = (handleRequestHeader header)\<lparr>ClientVersion := cv\<rparr>"
    and ok: "validate_remotes now matches bind reverse user (map Some rs) a pa = Inr (Inr b, pa')"
  shows "if Reversed True rs = [] then b = a \<and> pa' = pa
    else (let r = hd (Reversed True rs); port = Atoi_value (LocalPort r) in
      OnConnected now (cells pa a) (Atoi_value (RemotePort r)) port pa = (Inr b, pa') \<and>
      pa_exclusive pa' \<and> Status (cells pa' b) = Connected \<and> MappingPort (cells pa' b) = port \<and>
      ports pa' port = Some b \<and> names pa' (key_of (cells pa' b)) = Some b)"
proof (cases "Reversed True rs")
  case Nil
  with validate_accepts [OF _ _ _ ok ex] obj show ?thesis
    by (simp add: handleRequestHeader_def empty_allocation_def)
next
  case (Cons r rs')
  then have c: "OnConnected now (cells pa a) (Atoi_value (RemotePort r)) (Atoi_value (LocalPort r)) pa = (Inr b, pa')"
    using validate_accepts [OF _ _ _ ok ex] obj by (simp add: handleRequestHeader_def empty_allocation_def)
  moreover have "pa_exclusive pa'"
    using OnConnected_exclusive [OF ex] c by (metis snd_conv)
  ultimately show ?thesis
    using OnConnected_Inr [OF ex c] by (simp add: Cons Let_def)
qed

text \<open>
  A configuration that is accepted takes one lease: with no reversed remote the
  allocator is untouched; otherwise the session holds the lease that OnConnected gives for
  the first reversed remote, connected, registered under its port and its own key, and no
  later remote of the session changes the allocator.
\<close>

lemma accepted_session_lease:
  assumes ex: "pa_exclusive pa" and obj: "cells pa a = (handleRequestHeader header)\<lparr>ClientVersion := cv\<rparr>"
    and ok: "validate_remotes now matches bind reverse user (map Some rs) a pa = Inr (Inr b, pa')"
  shows "if Reversed True rs = [] then b = a \<and> pa' = pa
    else (let r = hd (Reversed True rs); port = Atoi_value (LocalPort r) in
      OnConnected now (cells pa a) (Atoi_value (RemotePort r)) port pa = (Inr b, pa') \<and>
      pa_exclusive pa' \<and> Status (cells pa' b) = Connected \<and> MappingPort (cells pa' b) = port \<and>
      ports pa' port = Some b \<and> names pa' (key_of (cells pa' b)) = Some b)"
  using assms by (rule session_lease)

subsection \<open>Panics of the handler\<close>

text \<open>The loop panics exactly when it accepts the remotes before a nil one.\<close>

lemma Some_Cons_prefix:
  "(\<exists>pre post. Some r # rs = map Some pre @ None # post \<and> Q (map Some pre)) \<longleftrightarrow>
    (\<exists>pre post. rs = map Some pre @ None # post \<and> Q (Some r # map Some pre))"
proof
  assume "\<exists>pre post. Some r # rs = map Some pre @ None # post \<and> Q (map Some pre)"
  then obtain pre post where "Some r # rs = map Some pre @ None # post" "Q (map Some pre)" by blast
  then show "\<exists>pre post. rs = map Some pre @ None # post \<and> Q (Some r # map Some pre)"
    by (cases pre) auto
next
  assume "\<exists>pre post. rs = map Some pre @ None # post \<and> Q (Some r # map Some pre)"
  then show "\<exists>pre post. Some r # rs = map Some pre @ None # post \<and> Q (map Some pre)"
    by (metis append_Cons list.simps(9))
qed

lemma validate_panics:
  "validate_remotes now matches bind reverse user rs a pa = Inl p \<longleftrightarrow>
     p = NilDereference \<and> (\<exists>pre post b pa'. rs = map Some pre @ None # post \<and>
       validate_remotes now matches bind reverse user (map Some pre) a pa = Inr (Inr b, pa'))"
proof (induction rs arbitrary: a pa)
  case (Cons x rs)
  show ?case
  proof (cases x)
    case None
    then show ?thesis by (auto simp: append_eq_Cons_conv Cons_eq_append_conv)
  next
    case (Some r)
    note pre = Some_Cons_prefix [of r rs]
    obtain x1 pa1 where h: "handleRemote now (Some a) r pa = Inr (x1, pa1)"
      using handleRemote_no_panic by (metis surj_pair)
    let ?v = "\<lambda>rs. validate_remotes now matches bind reverse user (Some r # rs) a pa"
    have "(\<exists>e. \<forall>ys. ?v ys = Inr (Inl e, pa1)) \<or>
        (\<exists>b. \<forall>ys. ?v ys = validate_remotes now matches bind reverse user ys b pa1)"
      by (cases x1; cases user) (auto simp: h)
    then consider (stops) e where "\<And>ys. ?v ys = Inr (Inl e, pa1)"
      | (goes) b where "\<And>ys. ?v ys = validate_remotes now matches bind reverse user ys b pa1"
      by blast
    then show ?thesis
    proof cases
      case stops
      then show ?thesis unfolding Some
        using pre [where Q = "\<lambda>ys. \<exists>b pa'. validate_remotes now matches bind reverse user ys a pa = Inr (Inr b, pa')"]
        by (simp del: validate_remotes.simps)
    next
      case goes
      then show ?thesis unfolding Some goes Cons.IH
        using pre [where Q = "\<lambda>ys. \<exists>b pa'. validate_remotes now matches bind reverse user ys a pa = Inr (Inr b, pa')"]
        by (simp add: goes del: validate_remotes.simps)
    qed
  qed
qed simp

text \<open>
  When the configuration phase reads through a nil pointer: the client has closed the
  connection, or its remotes have a nil one and those before it pass.
\<close>

definition reads_nil ::
  "time \<Rightarrow> ('re \<Rightarrow> string \<Rightarrow> bool) \<Rightarrow> (string \<Rightarrow> string \<Rightarrow> bool) \<Rightarrow> (bytes \<Rightarrow> (string \<times> Remote option list) option) \<Rightarrow>
   first_request \<Rightarrow> 're User option \<Rightarrow> address \<Rightarrow> 're Server \<Rightarrow> bool" where
  "reads_nil now matches bind decode request user a s \<longleftrightarrow>
     request = RequestsClosed \<or>
     (\<exists>payload v pre post b pa'. request = Request ''config'' payload \<and>
        decode payload = Some (v, map Some pre @ None # post) \<and>
        validate_remotes now matches bind (ReverseEnabled (config s)) user (map Some pre) a
          (store a ((cells (allocator s) a)\<lparr>ClientVersion := client_version v\<rparr>) (allocator s)) = Inr (Inr b, pa'))"

lemma configure_panics:
  "configure_session now matches bind decode request user a s = Inl p \<longleftrightarrow>
     p = NilDereference \<and> reads_nil now matches bind decode request user a s"
proof (cases request)
  case (Request ty payload)
  show ?thesis
  proof (cases "ty = ''config'' \<and> decode payload \<noteq> None")
    case True
    then obtain v remotes where d: "decode payload = Some (v, remotes)" by (metis option.exhaust surj_pair)
    have "configure_session now matches bind decode request user a s = Inl p \<longleftrightarrow>
        validate_remotes now matches bind (ReverseEnabled (config s)) user remotes a
          (store a ((cells (allocator s) a)\<lparr>ClientVersion := client_version v\<rparr>) (allocator s)) = Inl p"
      using True d Request by (auto simp: configure_session_def Let_def split: sum.splits)
    then show ?thesis
      unfolding validate_panics using True d Request by (auto simp: reads_nil_def)
  next
    case False
    then show ?thesis by (auto simp: Request configure_session_def reads_nil_def split: option.splits)
  qed
qed (auto simp: configure_session_def reads_nil_def)

lemma handleWebsocket_panic_iff:
  "handleWebsocket now matches bind decode upgraded sid request handshaking serving header s = Inl p \<longleftrightarrow>
     upgraded \<and> (\<exists>i. sid = Some i \<and>
       (let (a, s0) = open_session header s; s1 = handshaking s0 in
        if inner (index s1) \<noteq> fmempty \<and> Users_Get i (sessions s1) = None
        then p = PanicCall ''bug in ssh auth handler''
        else p = NilDereference \<and>
          (\<exists>user s2. claim_user i s1 = Inr (user, s2) \<and> reads_nil now matches bind decode request user a s2)))"
proof -
  have conf: "(case configure_session now matches bind decode request user a s2 of
        Inl p \<Rightarrow> Inl p | Inr (Inl e, s3) \<Rightarrow> Inr (e, s3)
      | Inr (Inr b, s3) \<Rightarrow> Inr (Served, close_session b (serving s3))) = Inl p \<longleftrightarrow>
      p = NilDereference \<and> reads_nil now matches bind decode request user a s2" for user a s2
    using configure_panics [of now matches bind decode request user a s2 p]
    by (cases "configure_session now matches bind decode request user a s2") (auto split: sum.splits)
  obtain a s0 where o: "open_session header s = (a, s0)" by fastforce
  show ?thesis
  proof (cases "upgraded \<and> sid \<noteq> None")
    case True
    then obtain i where i: "sid = Some i" by blast
    let ?s1 = "handshaking s0"
    show ?thesis
    proof (cases "inner (index ?s1) \<noteq> fmempty \<and> Users_Get i (sessions ?s1) = None")
      case True
      then have "claim_user i ?s1 = Inl (PanicCall ''bug in ssh auth handler'')"
        by (simp add: claim_user_def zero_less_iff_neq_zero)
      with True \<open>upgraded \<and> sid \<noteq> None\<close> i show ?thesis
        by (auto simp: handleWebsocket_def Let_def o)
    next
      case False
      then obtain u s2 where "claim_user i ?s1 = Inr (u, s2)"
        by (cases "inner (index ?s1) = fmempty") (auto simp: claim_user_def zero_less_iff_neq_zero)
      with False \<open>upgraded \<and> sid \<noteq> None\<close> i show ?thesis
        by (auto simp: handleWebsocket_def Let_def o conf)
    qed
  qed (auto simp: handleWebsocket_def Let_def o)
qed

text \<open>
  C22: handleWebsocket panics in exactly three situations, all after a successful upgrade and
  handshake: when users are configured but the login left no record for the session; when
  the client closes the connection before its first request, as the handler reads the type
  of a nil request; and when a remote of the configuration is null and those before it pass.
\<close>

theorem handleWebsocket_panics:
  "handleWebsocket now matches bind decode upgraded sid request handshaking serving header s = Inl p \<longleftrightarrow>
     upgraded \<and> (\<exists>i. sid = Some i \<and>
       (let (a, s0) = open_session header s; s1 = handshaking s0 in
        if inner (index s1) \<noteq> fmempty \<and> Users_Get i (sessions s1) = None
        then p = PanicCall ''bug in ssh auth handler''
        else p = NilDereference \<and>
          (\<exists>user s2. claim_user i s1 = Inr (user, s2) \<and> reads_nil now matches bind decode request user a s2)))"
  by (rule handleWebsocket_panic_iff)

subsection \<open>Samples\<close>

definition sample_config :: ServerConfig where
  "sample_config = \<lparr>KeySeed = '''', KeyFile = '''', AuthFile = '''', Auth = '''', ProxyURL = '''',
     Socks5 = False, ReverseEnabled = True, KeepAlive = 25 * second, TLSKey = '''', TLSCert = '''',
     TLSDomains = [], TLSCA = '''', ControlPort = '''', MinPort = 30000, MaxPort = 30001\<rparr>"

definition sample_users :: "string users" where
  "sample_users = Users_AddUser \<lparr>Name = ''bob'', Pass = ''pw'', Addrs = [''R:0.0.0.0:30000'']\<rparr> NewUsers"

definition sample_server :: "string Server" where
  "sample_server = \<lparr>config = sample_config, sessCount = 0, sessions = NewUsers,
     index = \<lparr>inner = sample_users, configFile = ''''\<rparr>, reverseProxy = None,
     allocator = NewPortAllocator 30000 30001\<rparr>"

definition web_remote :: Remote where
  "web_remote = plain_remote ''0.0.0.0'' ''30000'' ''127.0.0.1'' ''80'' ''tcp'' True"

definition web_header :: "string \<Rightarrow> string" where
  "web_header = (\<lambda>k. if k = ''X-Client-Id'' then ''m'' else if k = ''X-User-Id'' then ''u''
     else if k = ''X-App-Name'' then ''web'' else '''')"

lemma sample_users_not_empty: "sample_users \<noteq> fmempty"
proof
  assume "sample_users = fmempty"
  then have "fmlookup sample_users ''bob'' = None" by simp
  then show False by (simp add: sample_users_def Users_AddUser_def Users_Set_def)
qed

lemma sample_bob: "Users_Get ''bob'' sample_users = Some \<lparr>Name = ''bob'', Pass = ''pw'', Addrs = [''R:0.0.0.0:30000'']\<rparr>"
  by (simp add: sample_users_def Users_AddUser_def users.get_set)

theorem claim_after_login_witness:
  "\<exists>s1. authUser ''id1'' ''bob'' ''pw'' sample_server = (True, s1) \<and>
    map_sum id (map_option Name \<circ> fst) (claim_user ''id1'' s1) = Inr (Some ''bob'')"
proof -
  obtain s1 where login: "authUser ''id1'' ''bob'' ''pw'' sample_server = (True, s1)" and "index s1 = index sample_server"
    by (simp add: authUser_cases sample_server_def sample_bob)
  with claim_after_login [OF login refl] sample_users_not_empty sample_bob show ?thesis
    by (simp add: sample_server_def)
qed

text \<open>The state a client with the sample headers is configured in.\<close>

definition web_state :: PortAllocator where
  "web_state = snd (new_object ((handleRequestHeader web_header)\<lparr>ClientVersion := ''1.0''\<rparr>)
     (NewPortAllocator 30000 30001))"

lemmas session_eval = web_state_def new_object_def NewPortAllocator_def handleRequestHeader_def
  empty_allocation_def web_header_def web_remote_def plain_remote_def handleRemote_def OnConnected_def
  applyNew_def register_def new_lease_def alloc_key_def store_def Atoi_value_def

lemma web_numbers: "Atoi ''30000'' = Inr 30000" "Atoi ''80'' = Inr 80"
  by (simp_all add: Atoi_def is_digit_def)

lemma web_state_exclusive: "pa_exclusive web_state"
  unfolding web_state_def by (intro alloc_inv_intros)

lemma web_accepted:
  "\<exists>pa'. validate_remotes 5 sample_matches (\<lambda>_ _. True) True None [Some web_remote] 0 web_state = Inr (Inr 1, pa') \<and>
    leases pa' ''m-u-web'' \<noteq> None"
  by (simp add: session_eval web_numbers CanListen_def leases_def)

theorem accepted_session_lease_witness:
  "\<exists>pa'. validate_remotes 5 sample_matches (\<lambda>_ _. True) True None [Some web_remote] 0 web_state = Inr (Inr 1, pa') \<and>
    ports pa' 30000 = Some 1 \<and> Status (cells pa' 1) = Connected"
proof -
  obtain pa' where ok:
    "validate_remotes 5 sample_matches (\<lambda>_ _. True) True None [Some web_remote] 0 web_state = Inr (Inr 1, pa')"
    using web_accepted by blast
  have obj: "cells web_state 0 = (handleRequestHeader web_header)\<lparr>ClientVersion := ''1.0''\<rparr>"
    by (simp add: web_state_def new_object_def NewPortAllocator_def)
  have "Reversed True [web_remote] = [web_remote]" "LocalPort web_remote = ''30000''"
    by (simp_all add: web_remote_def plain_remote_def)
  moreover have "validate_remotes 5 sample_matches (\<lambda>_ _. True) True None (map Some [web_remote]) 0 web_state = Inr (Inr 1, pa')"
    using ok by (simp only: list.map)
  note accepted_session_lease [OF web_state_exclusive obj this]
  ultimately show ?thesis
    using ok by (simp add: Let_def Atoi_value_def web_numbers)
qed

text \<open>
  A refusal after the lease was taken leaves it connected, although the handler has
  returned: no later reclaiming pass frees it, whenever it runs.
\<close>

lemma refused_session_leaks:
  "\<exists>pa'. validate_remotes 5 sample_matches (\<lambda>_ _. False) True None [Some web_remote] 0 web_state =
      Inr (Inl (CannotListen web_remote), pa') \<and>
    (\<exists>v. leases pa' ''m-u-web'' = Some v \<and> Status v = Connected) \<and>
    (\<forall>later. FreeHangingPorts later [''m-u-web''] pa' = Inr ([], pa'))"
  by (simp add: session_eval web_numbers CanListen_def leases_def FreeHangingPorts_def)

end
