(* ===== verification/Systems.thy ===== *)
theory Systems
  imports Prelude
begin

section \<open>Transition systems\<close>

text \<open>
  What the step relations of the components have in common: states reached from initial
  ones, invariants, and what an infinite run leads to. The components' relations are
  interpretations; no code is modelled here.
\<close>

locale stepping =
  fixes init :: "'s \<Rightarrow> bool"
    and step :: "'s \<Rightarrow> 'e \<Rightarrow> 's \<Rightarrow> bool"
    and reach :: "'s \<Rightarrow> bool"
  assumes reach_step: "reach s \<Longrightarrow> step s e s' \<Longrightarrow> reach s'"
    and reach_rule: "reach s \<Longrightarrow> (\<And>s. init s \<Longrightarrow> P s) \<Longrightarrow>
      (\<And>s e s'. reach s \<Longrightarrow> P s \<Longrightarrow> step s e s' \<Longrightarrow> P s') \<Longrightarrow> P s"
begin

lemma run_reach:
  assumes "reach (run 0)" "\<And>i. step (run i) (ev i) (run (Suc i))"
  shows "reach (run i)"
  by (induction i) (use assms reach_step in blast)+

text \<open>
  A property of states that every step keeps unless something happens leads to that something,
  if a step that makes it happen is always to come.
\<close>

lemma leads_to:
  assumes run: "reach (run 0)" "\<And>i. step (run i) (ev i) (run (Suc i))"
    and keeps: "\<And>s e s'. reach s \<Longrightarrow> holds s \<Longrightarrow> step s e s' \<Longrightarrow> holds s' \<or> happens e s'"
    and helps: "\<And>s e s'. reach s \<Longrightarrow> holds s \<Longrightarrow> step s e s' \<Longrightarrow> helpful e \<Longrightarrow> happens e s'"
    and fair: "\<exists>j\<ge>i. helpful (ev j)" and start: "holds (run i)"
  shows "\<exists>j\<ge>i. happens (ev j) (run (Suc j))"
proof (rule ccontr)
  note reach = run_reach [OF run]
  assume never: "\<not> ?thesis"
  have stays: "holds (run j)" if "j \<ge> i" for j
    using that
  proof (induction rule: dec_induct)
    case (step n)
    with keeps [OF reach _ run(2)] never show ?case by blast
  qed (rule start)
  obtain j where "j \<ge> i" "helpful (ev j)" using fair by blast
  with helps [OF reach stays run(2)] never show False by blast
qed

end

locale invariant_stepping = stepping +
  fixes inv :: "'a \<Rightarrow> bool"
  assumes init_inv: "init s \<Longrightarrow> inv s"
    and step_inv: "reach s \<Longrightarrow> inv s \<Longrightarrow> step s e s' \<Longrightarrow> inv s'"
begin

lemma reach_inv: "reach s \<Longrightarrow> inv s"
  by (erule reach_rule) (use init_inv step_inv in blast)+

lemma run_inv:
  "reach (run 0) \<Longrightarrow> (\<And>i. step (run i) (ev i) (run (Suc i))) \<Longrightarrow> inv (run i)"
  by (rule reach_inv) (rule run_reach)

end

subsection \<open>Traces and refinement\<close>

text \<open>The events of a finite run, from an initial state to the state reached.\<close>

inductive trace :: "('s \<Rightarrow> bool) \<Rightarrow> ('s \<Rightarrow> 'e \<Rightarrow> 's \<Rightarrow> bool) \<Rightarrow> 'e list \<Rightarrow> 's \<Rightarrow> bool" for init step where
  nil: "init s \<Longrightarrow> trace init step [] s"
| snoc: "trace init step es s \<Longrightarrow> step s e s' \<Longrightarrow> trace init step (es @ [e]) s'"

text \<open>
  An abstraction of the states under which every step is a step of a simpler system with the
  same event: every trace of the one is then a trace of the other, and what all abstract
  traces satisfy holds of the abstractions of the states reached.
\<close>

locale refinement = invariant_stepping +
  fixes abs :: "'a \<Rightarrow> 't"
    and ainit :: "'t \<Rightarrow> bool"
    and astep :: "'t \<Rightarrow> 'b \<Rightarrow> 't \<Rightarrow> bool"
  assumes reach_init: "init s \<Longrightarrow> reach s"
    and abs_init: "init s \<Longrightarrow> ainit (abs s)"
    and abs_step: "reach s \<Longrightarrow> inv s \<Longrightarrow> step s e s' \<Longrightarrow> astep (abs s) e (abs s')"
begin

lemma trace_reach: "trace init step es s \<Longrightarrow> reach s"
  by (induction rule: trace.induct) (auto intro: reach_init reach_step)

lemma trace_abs: "trace init step es s \<Longrightarrow> trace ainit astep es (abs s)"
proof (induction rule: trace.induct)
  case (snoc es s e s')
  then show ?case
    using abs_step [OF _ reach_inv] trace_reach by (blast intro: trace.snoc)
qed (auto intro: trace.nil abs_init)

end

end
