(* ===== verification/Port_System.thy ===== *)
theory Port_System
  imports Session Systems
begin

section \<open>The ports under a running server\<close>

text \<open>
  The allocator is shared by the control plane's handlers, by every client session and by
  the reclaiming timer. Here their atomic steps, each taken from the handlers' models,
  interleave in any order: a step relation on the allocator and the list of the pointers
  that live sessions hold. The invariants of reachable states and what a step may do to a
  connected lease are proved by rule induction.
\<close>

subsection \<open>Steps\<close>

type_synonym system = "PortAllocator \<times> address list"

datatype event =
    HttpRequest http_request
  | SessionOpened address
  | VersionSet address string
  | RemoteApplied address Remote
  | SessionAborted address
  | SessionClosed address
  | TimerTick time

inductive sys_step ::
  "(string \<Rightarrow> (string \<rightharpoonup> go_value) option) \<Rightarrow> system \<Rightarrow> event \<Rightarrow> system \<Rightarrow> bool"
  for parse_jwt where
  http: "enumerates order (names pa) \<Longrightarrow>
    handleControlPlaneHandler parse_jwt now order r pa = (resp, pa') \<Longrightarrow>
    sys_step parse_jwt (pa, H) (HttpRequest r) (pa', H)"
| opened: "new_object (handleRequestHeader header) pa = (a, pa') \<Longrightarrow>
    sys_step parse_jwt (pa, H) (SessionOpened a) (pa', a # H)"
| version: "a \<in> set H \<Longrightarrow>
    sys_step parse_jwt (pa, H) (VersionSet a v) (store a ((cells pa a)\<lparr>ClientVersion := client_version v\<rparr>) pa, H)"
| applied: "a \<in> set H \<Longrightarrow> handleRemote now (Some a) r pa = Inr (Some b, pa') \<Longrightarrow>
    sys_step parse_jwt (pa, H) (RemoteApplied a r) (pa', b # remove1 a H)"
| refused: "a \<in> set H \<Longrightarrow> handleRemote now (Some a) r pa = Inr (None, pa') \<Longrightarrow>
    sys_step parse_jwt (pa, H) (RemoteApplied a r) (pa', remove1 a H)"
| aborted: "a \<in> set H \<Longrightarrow> sys_step parse_jwt (pa, H) (SessionAborted a) (pa, remove1 a H)"
| closed: "a \<in> set H \<Longrightarrow>
    sys_step parse_jwt (pa, H) (SessionClosed a)
      (store a ((cells pa a)\<lparr>Status := Allocated\<rparr>) pa, remove1 a H)"
| tick: "enumerates order (names pa) \<Longrightarrow> FreeHangingPorts now order pa = Inr (freed, pa') \<Longrightarrow>
    sys_step parse_jwt (pa, H) (TimerTick now) (pa', H)"

inductive_cases sys_stepE: "sys_step parse_jwt s e s'"

inductive_simps abort_simp: "sys_step parse_jwt (pa, H) (SessionAborted a) s'"

inductive reachable ::
  "(string \<Rightarrow> (string \<rightharpoonup> go_value) option) \<Rightarrow> int \<Rightarrow> int \<Rightarrow> system \<Rightarrow> bool"
  for parse_jwt lo hi where
  start: "reachable parse_jwt lo hi (NewPortAllocator lo hi, [])"
| step: "reachable parse_jwt lo hi s \<Longrightarrow> sys_step parse_jwt s e s' \<Longrightarrow> reachable parse_jwt lo hi s'"

subsection \<open>Every step keeps the ports exclusive\<close>

lemma handleRemote_cases:
  assumes "handleRemote now (Some a) r pa = Inr (x, pa')"
  obtains (same) "pa' = pa" "x = Some a"
  | (connected) cp mp b where "OnConnected now (cells pa a) cp mp pa = (Inr b, pa')" "x = Some b"
  | (error) cp mp e where "OnConnected now (cells pa a) cp mp pa = (Inl e, pa')" "x = None"
  using assms by (auto simp: handleRemote_def Let_def split: if_splits prod.splits sum.splits)

lemma handleControlPlane_cases:
  assumes "handleControlPlaneHandler parse_jwt now order r pa = (resp, pa')"
  obtains (none) "pa' = pa"
  | (create) req where "Method r = ''POST''" "Body r = Some req"
      "pa' = snd (AllocatePort now (ClientId_req req) (create_user parse_jwt r req) (AppName_req req) (ClientPort_req req) pa)"
  | (delete) c u n where "Method r = ''DELETE''" "u \<noteq> ''''" "n \<noteq> ''''" "c = Query r ''clientId''"
      "n = Query r ''appName''" "u = (if Query r ''userId'' = '''' then getUserId parse_jwt r else Query r ''userId'')"
      "pa' = snd (FreePort order c u n pa)"
proof -
  have "pa' = pa \<or>
      Method r = ''POST'' \<and> pa' = snd (handleCreatePort parse_jwt now r pa) \<or>
      Method r = ''DELETE'' \<and> pa' = snd (handleDeletePort parse_jwt order r pa)"
    using assms by (auto simp: handleControlPlaneHandler_def Let_def split: if_splits)
  then consider "pa' = pa" | "Method r = ''POST''" "pa' = snd (handleCreatePort parse_jwt now r pa)"
    | "Method r = ''DELETE''" "pa' = snd (handleDeletePort parse_jwt order r pa)" by blast
  then show thesis
  proof cases
    case 2
    then show ?thesis
      using none create
      by (cases "Body r") (auto simp: handleCreatePort_def Let_def create_user_def
          split: if_splits prod.splits sum.splits)
  next
    case 3
    then show ?thesis
      using none delete [OF _ _ _ refl refl refl]
      by (auto simp: handleDeletePort_def Let_def case_prod_beta split: if_splits)
  qed (rule none)
qed

lemma handleRemote_exclusive:
  "pa_exclusive pa \<Longrightarrow> handleRemote now (Some a) r pa = Inr (x, pa') \<Longrightarrow> pa_exclusive pa'"
  by (erule handleRemote_cases) (auto dest: OnConnected_exclusive [of _ now "cells pa a"] simp: prod_eq_iff)

lemma handleControlPlane_exclusive:
  assumes "pa_exclusive pa" "handleControlPlaneHandler parse_jwt now order r pa = (resp, pa')"
  shows "pa_exclusive pa'"
  using assms(2)
proof (cases rule: handleControlPlane_cases)
  case (delete c u n)
  with reg.free_good [OF assms(1)] show ?thesis by simp
qed (use assms(1) in \<open>auto intro: AllocatePort_exclusive\<close>)

lemma step_exclusive:
  assumes "sys_step parse_jwt s e s'" "pa_exclusive (fst s)"
  shows "pa_exclusive (fst s')"
  using assms
proof (cases rule: sys_step.cases)
  case (opened header pa a pa' H)
  then show ?thesis using assms(2) new_object_exclusive [of pa "handleRequestHeader header"] by simp
next
  case (tick order pa now freed pa' H)
  then show ?thesis using assms(2) FreeHangingPorts_exclusive [of pa order now] by simp
qed (auto intro: handleControlPlane_exclusive handleRemote_exclusive store_exclusive simp: keeps_identity_def)

interpretation server_steps: invariant_stepping "\<lambda>s. s = (NewPortAllocator lo hi, [])" "sys_step parse_jwt"
    "reachable parse_jwt lo hi" "\<lambda>s. pa_exclusive (fst s)" for parse_jwt lo hi
proof unfold_locales
  show "P s" if "reachable parse_jwt lo hi s" "\<And>s. s = (NewPortAllocator lo hi, []) \<Longrightarrow> P s"
    "\<And>s e s'. reachable parse_jwt lo hi s \<Longrightarrow> P s \<Longrightarrow> sys_step parse_jwt s e s' \<Longrightarrow> P s'" for s P
    using that by (induction rule: reachable.induct) blast+
qed (auto intro: reachable.step NewPortAllocator_exclusive step_exclusive)

lemmas reachable_exclusive = server_steps.reach_inv

text \<open>
  C8: in every reachable state of the server, whatever requests, sessions and timer ticks
  came before and in whatever order: no two keys lease one port; each lease is found under
  its own key and its port leads to it; and the next reclaiming pass does not panic.
\<close>

theorem reachable_ports_exclusive:
  assumes "reachable parse_jwt lo hi (pa, H)"
  shows "(\<forall>k k' v v'. leases pa k = Some v \<and> leases pa k' = Some v' \<and> MappingPort v = MappingPort v' \<longrightarrow> k = k') \<and>
    (\<forall>k a. names pa k = Some a \<longrightarrow> key_of (cells pa a) = k \<and> ports pa (MappingPort (cells pa a)) = Some a) \<and>
    (\<forall>now order. enumerates order (names pa) \<longrightarrow> (\<exists>freed pa'. FreeHangingPorts now order pa = Inr (freed, pa')))"
proof -
  have ex: "pa_exclusive pa" using reachable_exclusive [OF assms] by simp
  then show ?thesis
    using reg.view_port [OF ex] pa_soundD(2) [OF pa_exclusiveD(1) [OF ex]] pa_exclusiveD(2) [OF ex]
      FreeHangingPorts_exclusive [OF ex]
    by blast
qed

subsection \<open>What a step may do to a connected lease\<close>

definition connected_at :: "PortAllocator \<Rightarrow> string \<Rightarrow> int \<Rightarrow> bool" where
  "connected_at pa k p \<longleftrightarrow> (\<exists>v. leases pa k = Some v \<and> Status v = Connected \<and> MappingPort v = p)"

text \<open>The key a control-plane request allocates or frees.\<close>

definition request_key :: "(string \<Rightarrow> (string \<rightharpoonup> go_value) option) \<Rightarrow> http_request \<Rightarrow> string option" where
  "request_key parse_jwt r =
     (if Method r = ''POST'' then
        map_option (\<lambda>req. alloc_key (ClientId_req req) (create_user parse_jwt r req) (AppName_req req)) (Body r)
      else if Method r = ''DELETE'' then
        Some (alloc_key (Query r ''clientId'')
          (if Query r ''userId'' = '''' then getUserId parse_jwt r else Query r ''userId'') (Query r ''appName''))
      else None)"

text \<open>The steps that may end a connection's lease: requests for its key, and a session's end.\<close>

fun may_release :: "(string \<Rightarrow> (string \<rightharpoonup> go_value) option) \<Rightarrow> PortAllocator \<Rightarrow> string \<Rightarrow> event \<Rightarrow> bool" where
  "may_release parse_jwt pa k (HttpRequest r) \<longleftrightarrow> request_key parse_jwt r = Some k"
| "may_release parse_jwt pa k (SessionClosed a) \<longleftrightarrow> names pa k = Some a"
| "may_release parse_jwt pa k _ \<longleftrightarrow> False"

lemma connected_at_iff: "connected_at pa k p \<longleftrightarrow>
    (\<exists>a. names pa k = Some a \<and> Status (cells pa a) = Connected \<and> MappingPort (cells pa a) = p)"
  by (auto simp: connected_at_def leases_def)

lemma connected_store:
  assumes "connected_at pa k p" "names pa k \<noteq> Some a \<or> Status v = Status (cells pa a) \<and> MappingPort v = MappingPort (cells pa a)"
  shows "connected_at (store a v pa) k p"
  using assms by (auto simp: connected_at_iff)

text \<open>A session that connects changes a lease at most by connecting it.\<close>

lemma spec_connect_lease:
  assumes "L k = Some v"
  shows "\<exists>v'. snd (spec_connect now c cp mp L) k = Some v' \<and>
    (v' = v \<or> Status v' = Connected \<and> MappingPort v' = MappingPort v)"
proof (cases "ClientId c \<noteq> '''' \<and> UserId c \<noteq> '''' \<and> AppName c \<noteq> ''''")
  case True
  with assms show ?thesis
    by (cases "L (key_of c)"; cases "holder L mp"; cases "k = key_of c") (simp_all add: spec_connect_def Let_def)
next
  case False
  then have "spec_connect now c cp mp L = (case holder L mp of
           None \<Rightarrow> (Inl (PortNotExist cp mp), L)
         | Some k \<Rightarrow>
             (let v = the (L k) in
              if cp \<noteq> ClientPort v then (Inl (OldClientPortConflict mp cp (ClientPort v)), L)
              else if Status v \<noteq> Allocated then (Inl (PortAlreadyUsed mp v), L)
              else (let v' = v\<lparr>StartTime := Some now, Status := Connected\<rparr>
                    in (Inr v', L(k \<mapsto> v')))))"
    unfolding spec_connect_def by (simp only: if_False)
  with assms show ?thesis
    by (cases "holder L mp"; cases "holder L mp = Some k") (simp_all add: Let_def)
qed

lemma connected_OnConnected:
  assumes ex: "pa_exclusive pa" and c: "connected_at pa k p" and "OnConnected now v cp mp pa = (x, pa')"
  shows "connected_at pa' k p"
proof -
  have "leases pa' = snd (spec_connect now v cp mp (leases pa))"
    using arg_cong [OF OnConnected_effect [OF ex, of now v cp mp], of snd] by (simp add: assms(3) Let_def)
  then show ?thesis
    using c spec_connect_lease [of "leases pa" k _ now v cp mp] by (fastforce simp: connected_at_def)
qed

lemma other_key_leases:
  assumes ex: "pa_exclusive pa" and key: "request_key parse_jwt r \<noteq> Some k"
    and "handleControlPlaneHandler parse_jwt now order r pa = (resp, pa')"
  shows "leases pa' k = leases pa k"
  using assms(3)
proof (cases rule: handleControlPlane_cases)
  case (create req)
  then have "k \<noteq> alloc_key (ClientId_req req) (create_user parse_jwt r req) (AppName_req req)"
    using key by (auto simp: request_key_def)
  then show ?thesis using create(3) reg.allocate_other [OF ex prod.collapse [symmetric]] by metis
next
  case (delete d u n)
  then have "k \<noteq> alloc_key d u n" using key by (auto simp: request_key_def)
  then show ?thesis using reg.free_other [OF ex delete(2,3)] delete(7) by simp
qed simp

text \<open>
  C10: a connected lease survives everything but its own end: in a reachable state, any step
  other than a POST or DELETE for its own key or the end of a session holding it leaves the
  key's lease connected, on the same port. In particular no timer tick reclaims it and no
  other client's request or session takes it.
\<close>

theorem connected_lease_kept:
  assumes reach: "reachable parse_jwt lo hi (pa, H)" and step: "sys_step parse_jwt (pa, H) e (pa', H')"
    and c: "connected_at pa k p" and e: "\<not> may_release parse_jwt pa k e"
  shows "connected_at pa' k p"
proof -
  have ex: "pa_exclusive pa" using reachable_exclusive [OF reach] by simp
  note so = pa_exclusiveD(1) [OF ex]
  have remote: "connected_at pa' k p" if "handleRemote now (Some a) r pa = Inr (x, pa')" for now a r x
    using that by (cases rule: handleRemote_cases) (auto intro: c connected_OnConnected [OF ex c])
  show ?thesis
    using step
  proof (cases rule: sys_step.cases)
    case (http order now r resp)
    then have "leases pa' k = leases pa k" using other_key_leases [OF ex] e by simp
    with c show ?thesis by (simp add: connected_at_def)
  next
    case (opened header a)
    then have "leases pa' = leases pa" using new_object_leases [OF so] by (metis snd_conv)
    with c show ?thesis by (simp add: connected_at_def)
  next
    case (tick order now freed)
    then have "leases pa' = spec_reclaim now (leases pa)"
      using FreeHangingPorts_leases [OF ex] by blast
    with c show ?thesis by (auto simp: connected_at_def spec_reclaim_def hangs_def)
  qed (use c e remote in \<open>auto intro: connected_store\<close>)
qed

subsection \<open>The session handler is made of these steps\<close>



lemma allocator_set [simp]: "allocator (set_allocator pa s) = pa"
  by (simp add: set_allocator_def)




subsection \<open>Sample runs\<close>

abbreviation no_jwt :: "string \<Rightarrow> (string \<rightharpoonup> go_value) option" where
  "no_jwt \<equiv> \<lambda>_. None"

definition web_connected :: PortAllocator where
  "web_connected = snd (OnConnected 5 (cells web_state 0) 80 30000 web_state)"

lemma web_reachable: "reachable no_jwt 30000 30001 (web_state, [0])"
proof -
  let ?pa = "snd (new_object (handleRequestHeader web_header) (NewPortAllocator 30000 30001))"
  have "reachable no_jwt 30000 30001 (?pa, [0])"
    using reachable.step [OF reachable.start sys_step.opened [of web_header "NewPortAllocator 30000 30001" 0]]
    by (simp add: new_object_def NewPortAllocator_def)
  then have "reachable no_jwt 30000 30001
      (store 0 ((cells ?pa 0)\<lparr>ClientVersion := client_version ''v1.0''\<rparr>) ?pa, [0])"
    by (rule reachable.step) (rule sys_step.version, simp)
  moreover have "store 0 ((cells ?pa 0)\<lparr>ClientVersion := client_version ''v1.0''\<rparr>) ?pa = web_state"
    by (simp add: web_state_def store_def new_object_def NewPortAllocator_def client_version_def
        TrimPrefix_def HasPrefix_def)
  ultimately show ?thesis by simp
qed

lemma web_applied: "handleRemote 5 (Some 0) web_remote web_state = Inr (Some 1, web_connected)"
  by (simp add: web_connected_def session_eval web_numbers)

lemma web_connected_reachable: "reachable no_jwt 30000 30001 (web_connected, [1])"
  using reachable.step [OF web_reachable sys_step.applied [OF _ web_applied]] by simp

lemma web_connected_names: "names web_connected = [''m-u-web'' \<mapsto> 1]" "ports web_connected = [30000 \<mapsto> 1]"
  by (simp_all add: web_connected_def session_eval web_numbers)

lemma web_connected_cell: "cells web_connected (Suc 0) = (new_lease 5 ''m'' ''u'' ''web'' 80 30000)
    \<lparr>StartTime := Some 5, Status := Connected\<rparr>"
  by (simp add: web_connected_def session_eval web_numbers)

theorem reachable_ports_exclusive_witness:
  "key_of (cells web_connected 1) = ''m-u-web'' \<and> ports web_connected 30000 = Some 1 \<and>
   (\<exists>freed pa'. FreeHangingPorts 7 [''m-u-web''] web_connected = Inr (freed, pa'))"
proof -
  have "enumerates [''m-u-web''] (names web_connected)"
    by (simp add: enumerates_def web_connected_names)
  moreover have "MappingPort (cells web_connected 1) = 30000" by (simp add: web_connected_cell)
  ultimately show ?thesis
    using reachable_ports_exclusive [OF web_connected_reachable] web_connected_names by auto
qed

theorem connected_lease_kept_witness:
  "\<exists>pa'. sys_step no_jwt (web_connected, [1]) (TimerTick (60 * minute)) (pa', [1]) \<and> connected_at pa' ''m-u-web'' 30000"
proof -
  have "enumerates [''m-u-web''] (names web_connected)"
    by (simp add: enumerates_def web_connected_names)
  then obtain pa' where step: "sys_step no_jwt (web_connected, [1]) (TimerTick (60 * minute)) (pa', [1])"
    using sys_step.tick FreeHangingPorts_exclusive reachable_exclusive [OF web_connected_reachable] by (metis fst_conv)
  moreover have "connected_at web_connected ''m-u-web'' 30000"
    by (simp add: connected_at_iff web_connected_names web_connected_cell)
  ultimately show ?thesis
    using connected_lease_kept [OF web_connected_reachable step] by auto
qed


text \<open>
  Two sessions of one client share one lease object. When the first of them ends it marks
  the lease idle, with the time of its allocation, so the next tick reclaims the port while
  the second session still serves it, and another client is given the same port.
\<close>

lemma shared_lease_lost:
  assumes second: "web_both = snd (OnConnected 6 (cells web_connected 1) 80 30000 web_connected)"
    and first_ends: "web_idle = store 1 ((cells web_both 1)\<lparr>Status := Allocated\<rparr>) web_both"
  shows "fst (OnConnected 6 (cells web_connected 1) 80 30000 web_connected) = Inr 1"
    "\<exists>pa'. FreeHangingPorts (11 * minute) [''m-u-web''] web_idle =
        Inr ([(cells web_idle 1)\<lparr>Status := Freed\<rparr>], pa') \<and>
      names pa' = Map.empty \<and> ports pa' = Map.empty \<and>
      (\<exists>v. fst (AllocatePort (11 * minute) ''x'' ''y'' ''z'' 22 pa') = Inr v \<and> MappingPort v = 30000)"
proof -
  show "fst (OnConnected 6 (cells web_connected 1) 80 30000 web_connected) = Inr 1"
    by (simp add: web_connected_cell OnConnected_def new_lease_def applyNew_def alloc_key_def web_connected_names)
  have both: "web_both = store 1 ((cells web_connected 1)\<lparr>Status := Connected, StartTime := Some 6\<rparr>) web_connected"
    by (simp add: second web_connected_cell OnConnected_def new_lease_def applyNew_def alloc_key_def web_connected_names)
  have range: "minPort web_connected = 30000" "maxPort web_connected = 30001"
    by (simp_all add: web_connected_def session_eval web_numbers)
  show "\<exists>pa'. FreeHangingPorts (11 * minute) [''m-u-web''] web_idle =
        Inr ([(cells web_idle 1)\<lparr>Status := Freed\<rparr>], pa') \<and>
      names pa' = Map.empty \<and> ports pa' = Map.empty \<and>
      (\<exists>v. fst (AllocatePort (11 * minute) ''x'' ''y'' ''z'' 22 pa') = Inr v \<and> MappingPort v = 30000)"
    by (simp add: first_ends both FreeHangingPorts_def web_connected_names web_connected_cell new_lease_def
        key_of_def alloc_key_def fun_eq_iff AllocatePort_def range scan_ports.simps free_slot_def Let_def)
qed

end
