(* ===== verification/Lease_Liveness.thy ===== *)
theory Lease_Liveness
  imports Port_System
begin

section \<open>Idle leases do not stay for ever\<close>

text \<open>
  Infinite runs of the server's allocator under the steps of Port_System. As long as the
  reclaiming timer of server/server.go keeps ticking and its clock advances, an idle lease
  leads to one of three things: it is gone, or a session connects it, or a request comes for
  its key. No other step can keep it alive or renew it.
\<close>

subsection \<open>Runs\<close>

definition server_run ::
  "(string \<Rightarrow> (string \<rightharpoonup> go_value) option) \<Rightarrow> int \<Rightarrow> int \<Rightarrow> (nat \<Rightarrow> system) \<Rightarrow> (nat \<Rightarrow> event) \<Rightarrow> bool" where
  "server_run parse_jwt lo hi run ev \<longleftrightarrow>
     reachable parse_jwt lo hi (run 0) \<and> (\<forall>i. sys_step parse_jwt (run i) (ev i) (run (Suc i)))"

text \<open>The timer is never stopped: after every step there is a tick later than any given time.\<close>

definition ticks_forever :: "(nat \<Rightarrow> event) \<Rightarrow> bool" where
  "ticks_forever ev \<longleftrightarrow> (\<forall>i T. \<exists>j\<ge>i. \<exists>now>T. ev j = TimerTick now)"

subsection \<open>What a step does to an idle lease\<close>

definition idle_since :: "PortAllocator \<Rightarrow> string \<Rightarrow> time \<Rightarrow> bool" where
  "idle_since pa k t \<longleftrightarrow> (\<exists>v. leases pa k = Some v \<and> Status v = Allocated \<and> AllocTime v = Some t)"

lemma idle_since_iff: "idle_since pa k t \<longleftrightarrow>
    (\<exists>a. names pa k = Some a \<and> Status (cells pa a) = Allocated \<and> AllocTime (cells pa a) = Some t)"
  by (auto simp: idle_since_def leases_def)

definition connected :: "PortAllocator \<Rightarrow> string \<Rightarrow> bool" where
  "connected pa k \<longleftrightarrow> (\<exists>v. leases pa k = Some v \<and> Status v = Connected)"

lemma idle_store:
  assumes "idle_since pa k t" "AllocTime v = AllocTime (cells pa a)" "Status v \<in> {Allocated, Status (cells pa a)}"
  shows "idle_since (store a v pa) k t"
  using assms by (auto simp: idle_since_iff)

lemma idle_OnConnected:
  assumes ex: "pa_exclusive pa" and "idle_since pa k t" and "OnConnected now v cp mp pa = (x, pa')"
  shows "idle_since pa' k t \<or> connected pa' k"
proof -
  have "leases pa' = snd (spec_connect now v cp mp (leases pa))"
    using arg_cong [OF OnConnected_effect [OF ex, of now v cp mp], of snd] by (simp add: assms(3) Let_def)
  then show ?thesis
    using assms(2) spec_connect_lease [of "leases pa" k _ now v cp mp] by (fastforce simp: idle_since_def connected_def)
qed

text \<open>
  One step on an idle lease: unless it is a request for its key, the lease stays idle since
  the same time, or is connected, or is gone; and a tick that comes more than ten minutes
  after that time removes it.
\<close>

lemma idle_step:
  assumes reach: "reachable parse_jwt lo hi s" and step: "sys_step parse_jwt s e s'"
    and idle: "idle_since (fst s) k t" and e: "\<And>r. e = HttpRequest r \<Longrightarrow> request_key parse_jwt r \<noteq> Some k"
  shows "(idle_since (fst s') k t \<and> (\<forall>now. e = TimerTick now \<longrightarrow> now - t \<le> 10 * minute)) \<or>
    connected (fst s') k \<or> leases (fst s') k = None"
proof -
  have ex: "pa_exclusive (fst s)" using reachable_exclusive [OF reach] .
  have remote: "idle_since pa' k t \<or> connected pa' k"
    if "handleRemote now (Some a) r (fst s) = Inr (x, pa')" for now a r x pa'
    using that by (cases rule: handleRemote_cases) (use idle idle_OnConnected [OF ex idle] in auto)
  show ?thesis
    using step
  proof (cases rule: sys_step.cases)
    case (http order pa now r resp pa' H)
    then have "leases pa' k = leases pa k" using other_key_leases [of pa] ex e by simp
    with http idle show ?thesis by (simp add: idle_since_def)
  next
    case (opened header pa a pa' H)
    then have "leases pa' = leases pa"
      using new_object_leases [OF pa_exclusiveD(1) [OF ex]] by (metis fst_conv snd_conv)
    with opened idle show ?thesis by (simp add: idle_since_def)
  next
    case (tick order pa now freed pa' H)
    then have "leases pa' = spec_reclaim now (leases pa)"
      using FreeHangingPorts_leases [of pa] ex by auto
    with tick idle show ?thesis by (auto simp: idle_since_def spec_reclaim_def hangs_def split: if_splits)
  next
    case (applied a H now r pa b pa')
    with remote [of now a r "Some b" pa'] show ?thesis by auto
  next
    case (refused a H now r pa pa')
    with remote [of now a r None pa'] show ?thesis by auto
  qed (use idle in \<open>auto intro!: idle_store\<close>)
qed

subsection \<open>The idle lease leads to its end\<close>

definition lease_ends :: "(string \<Rightarrow> (string \<rightharpoonup> go_value) option) \<Rightarrow> string \<Rightarrow> event \<Rightarrow> system \<Rightarrow> bool" where
  "lease_ends parse_jwt k e s \<longleftrightarrow> leases (fst s) k = None \<or> connected (fst s) k \<or>
     (\<exists>r. e = HttpRequest r \<and> request_key parse_jwt r = Some k)"

text \<open>
  C11: an idle lease does not stay for ever: in every infinite run of the server in which the
  reclaiming timer keeps ticking, whenever a lease is idle, then there is a later moment at
  which its key has no lease, or a session has connected it, or a request for that very key
  arrives. No other client, request or session can keep it from being reclaimed.
\<close>

theorem idle_lease_leads_to_end:
  assumes run: "server_run parse_jwt lo hi run ev" and ticks: "ticks_forever ev"
    and idle: "leases (fst (run i)) k = Some v" "Status v = Allocated"
  shows "\<exists>j\<ge>i. leases (fst (run j)) k = None \<or>
    (\<exists>w. leases (fst (run j)) k = Some w \<and> Status w = Connected) \<or>
    (\<exists>r. ev j = HttpRequest r \<and> request_key parse_jwt r = Some k)"
proof -
  have steps: "reachable parse_jwt lo hi (run 0)" "\<And>i. sys_step parse_jwt (run i) (ev i) (run (Suc i))"
    using run by (simp_all add: server_run_def)
  have "pa_exclusive (fst (run i))" using steps by (rule server_steps.run_inv)
  then obtain t where "AllocTime v = Some t"
    using pa_soundD(3) [OF pa_exclusiveD(1)] idle(1) by (fastforce simp: leases_def)
  with idle have start: "idle_since (fst (run i)) k t" by (simp add: idle_since_def)
  have fair: "\<exists>j\<ge>i. \<exists>now > t + 10 * minute. ev j = TimerTick now"
    using ticks unfolding ticks_forever_def by metis
  have "\<exists>j\<ge>i. lease_ends parse_jwt k (ev j) (run (Suc j))"
  proof (rule server_steps.leads_to [where holds = "\<lambda>s. idle_since (fst s) k t" and
        helpful = "\<lambda>e. \<exists>now > t + 10 * minute. e = TimerTick now", OF steps _ _ fair start])
    show "idle_since (fst s') k t \<or> lease_ends parse_jwt k e s'"
      if "reachable parse_jwt lo hi s" "idle_since (fst s) k t" "sys_step parse_jwt s e s'" for s e s'
      using idle_step [OF that(1,3,2)] unfolding lease_ends_def by blast
    show "lease_ends parse_jwt k e s'"
      if "reachable parse_jwt lo hi s" "idle_since (fst s) k t" "sys_step parse_jwt s e s'"
        "\<exists>now > t + 10 * minute. e = TimerTick now" for s e s'
      using idle_step [OF that(1,3,2)] that(4) unfolding lease_ends_def by fastforce
  qed
  then obtain j where "j \<ge> i" "lease_ends parse_jwt k (ev j) (run (Suc j))" by blast
  then show ?thesis by (auto simp: lease_ends_def connected_def intro: le_SucI)
qed

subsection \<open>A sample run\<close>

text \<open>The session of the samples ends; a tick twenty minutes later finds its lease idle.\<close>

definition web_idle :: PortAllocator where
  "web_idle = store 1 ((cells web_connected 1)\<lparr>Status := Allocated\<rparr>) web_connected"

definition web_reclaimed :: PortAllocator where
  "web_reclaimed = (case FreeHangingPorts (20 * minute) [''m-u-web''] web_idle of Inr (_, pa) \<Rightarrow> pa)"

definition sample_run :: "nat \<Rightarrow> system" where
  "sample_run i = (if i = 0 then (web_connected, [1]) else if i = 1 then (web_idle, []) else (web_reclaimed, []))"

definition sample_events :: "nat \<Rightarrow> event" where
  "sample_events i = (if i = 0 then SessionClosed 1 else TimerTick (int i * (20 * minute)))"

lemma web_idle_lease: "leases web_idle ''m-u-web'' = Some (cells web_idle 1)" "Status (cells web_idle 1) = Allocated"
  "enumerates [''m-u-web''] (names web_idle)"
  by (simp_all add: web_idle_def leases_def enumerates_def web_connected_names)

lemma web_idle_reachable: "reachable no_jwt 30000 30001 (web_idle, [])"
  using reachable.step [OF web_connected_reachable sys_step.closed [of 1 "[1]"]] by (simp add: web_idle_def)

lemma web_reclaimed: "\<exists>freed. FreeHangingPorts (20 * minute) [''m-u-web''] web_idle = Inr (freed, web_reclaimed)"
  "leases web_reclaimed = Map.empty"
proof -
  have ex: "pa_exclusive web_idle" using reachable_exclusive [OF web_idle_reachable] by simp
  obtain freed pa' where free: "FreeHangingPorts (20 * minute) [''m-u-web''] web_idle = Inr (freed, pa')"
    and l: "leases pa' = spec_reclaim (20 * minute) (leases web_idle)"
    using FreeHangingPorts_lease_effect [OF ex web_idle_lease(3)] by blast
  then show "\<exists>freed. FreeHangingPorts (20 * minute) [''m-u-web''] web_idle = Inr (freed, web_reclaimed)"
    by (simp add: web_reclaimed_def)
  have "leases web_idle k = (if k = ''m-u-web'' then Some (cells web_idle 1) else None)" for k
    by (simp add: leases_def web_idle_def web_connected_names)
  then show "leases web_reclaimed = Map.empty"
    using free l by (auto simp: web_reclaimed_def spec_reclaim_def hangs_def web_idle_def web_connected_cell fun_eq_iff)
qed

lemma sample_server_run: "server_run no_jwt 30000 30001 sample_run sample_events"
proof -
  have first: "sys_step no_jwt (web_connected, [1]) (SessionClosed 1) (web_idle, [])"
    using sys_step.closed [of 1 "[1]" no_jwt web_connected] by (simp add: web_idle_def)
  obtain freed where "FreeHangingPorts (20 * minute) [''m-u-web''] web_idle = Inr (freed, web_reclaimed)"
    using web_reclaimed(1) by blast
  then have second: "sys_step no_jwt (web_idle, []) (TimerTick (20 * minute)) (web_reclaimed, [])"
    by (rule sys_step.tick [OF web_idle_lease(3)])
  have "names web_reclaimed = Map.empty" using web_reclaimed(2) dom_leases by (metis dom_empty dom_eq_empty_conv)
  then have "enumerates [] (names web_reclaimed)" by (simp add: enumerates_def)
  then have rest: "sys_step no_jwt (web_reclaimed, []) (TimerTick now) (web_reclaimed, [])" for now
    by (rule sys_step.tick [where freed = "[]"]) (simp add: FreeHangingPorts_def)
  show ?thesis
    using first second rest web_connected_reachable by (simp add: server_run_def sample_run_def sample_events_def)
qed

lemma sample_ticks: "ticks_forever sample_events"
  unfolding ticks_forever_def
proof (intro allI)
  fix i T
  let ?j = "Suc (max i (nat T))"
  have "T < int ?j * (20 * minute)" by simp
  then show "\<exists>j\<ge>i. \<exists>now>T. sample_events j = TimerTick now"
    by (intro exI [of _ ?j]) (auto simp: sample_events_def)
qed

theorem idle_lease_leads_to_end_witness:
  "leases (fst (sample_run 1)) ''m-u-web'' \<noteq> None \<and>
   (\<exists>j\<ge>1. leases (fst (sample_run j)) ''m-u-web'' = None \<or>
     (\<exists>w. leases (fst (sample_run j)) ''m-u-web'' = Some w \<and> Status w = Connected) \<or>
     (\<exists>r. sample_events j = HttpRequest r \<and> request_key no_jwt r = Some ''m-u-web''))"
proof -
  have "leases (fst (sample_run 1)) ''m-u-web'' = Some (cells web_idle 1)"
    by (simp add: sample_run_def web_idle_lease)
  with idle_lease_leads_to_end [OF sample_server_run sample_ticks this web_idle_lease(2)] show ?thesis by simp
qed

end
