(* ===== verification/Registry_System.thy ===== *)
theory Registry_System
  imports Port_System
begin

section \<open>The running server as a registry of leases\<close>

text \<open>
  The step relation of Port_System, with its pointers, its two maps and the list of sessions,
  refines one on registries alone, in which every step is one of the specifications of
  Port_Leases. The refinement maps every run to a run with the same events, so what holds of
  all runs of the registry holds of the leases of the server: as an example, where the port
  of a lease comes from.
\<close>

subsection \<open>Steps of the registry\<close>

text \<open>
  A request may allocate or free under its own key; a session may connect with the ports of
  a reversed remote, note its version, or leave a lease idle; a tick reclaims; and every
  event but a tick may have no effect (a request refused, a session without a lease).
\<close>

inductive registry_step ::
  "(string \<Rightarrow> (string \<rightharpoonup> go_value) option) \<Rightarrow> int \<Rightarrow> int \<Rightarrow> registry \<Rightarrow> event \<Rightarrow> registry \<Rightarrow> bool"
  for parse_jwt lo hi where
  allocated: "Method r = ''POST'' \<Longrightarrow> Body r = Some req \<Longrightarrow>
    snd (spec_allocate now (ClientId_req req) (create_user parse_jwt r req) (AppName_req req)
      (ClientPort_req req) lo hi L) = L' \<Longrightarrow>
    registry_step parse_jwt lo hi L (HttpRequest r) L'"
| freed: "Method r = ''DELETE'' \<Longrightarrow> request_key parse_jwt r = Some k \<Longrightarrow> snd (spec_free k L) = L' \<Longrightarrow>
    registry_step parse_jwt lo hi L (HttpRequest r) L'"
| versioned: "L k = Some v \<Longrightarrow>
    registry_step parse_jwt lo hi L (VersionSet a x) (L(k \<mapsto> v\<lparr>ClientVersion := client_version x\<rparr>))"
| connected: "Reverse r \<Longrightarrow>
    spec_connect now c (Atoi_value (RemotePort r)) (Atoi_value (LocalPort r)) L = (Inr v, L') \<Longrightarrow>
    registry_step parse_jwt lo hi L (RemoteApplied a r) L'"
| idled: "L k = Some v \<Longrightarrow>
    registry_step parse_jwt lo hi L (SessionClosed a) (L(k \<mapsto> v\<lparr>Status := Allocated\<rparr>))"
| reclaimed: "spec_reclaim now L = L' \<Longrightarrow> registry_step parse_jwt lo hi L (TimerTick now) L'"
| unchanged: "(\<And>now. e \<noteq> TimerTick now) \<Longrightarrow> registry_step parse_jwt lo hi L e L"

inductive_simps registry_tick_iff: "registry_step parse_jwt lo hi L (TimerTick now) L'"

subsection \<open>The bounds of the ports stay\<close>

definition bounds_of :: "PortAllocator \<Rightarrow> int \<times> int" where
  "bounds_of pa = (minPort pa, maxPort pa)"

lemma bounds_of_updates [simp]:
  "bounds_of (store a v pa) = bounds_of pa"
  "bounds_of (snd (register k p v pa)) = bounds_of pa"
  "bounds_of (snd (new_object v pa)) = bounds_of pa"
  "bounds_of (pa\<lparr>names := m, ports := q\<rparr>) = bounds_of pa"
  by (simp_all add: bounds_of_def store_def register_def new_object_def Let_def)

lemma bounds_of_delete [simp]: "bounds_of (delete_entries vs pa) = bounds_of pa"
  by (induction vs arbitrary: pa) simp_all

lemma bounds_of_AllocatePort [simp]: "bounds_of (snd (AllocatePort now c u n cp pa)) = bounds_of pa"
  by (simp add: AllocatePort_def Let_def split: option.split)

lemma bounds_of_OnConnected: "OnConnected now v cp mp pa = (x, pa') \<Longrightarrow> bounds_of pa' = bounds_of pa"
  by (auto simp: OnConnected_def applyNew_def applyOld_def Let_def case_prod_beta split: if_splits option.splits)

lemma bounds_of_client_loop [simp]: "bounds_of (snd (free_client_loop c order pa)) = bounds_of pa"
  by (induction order arbitrary: pa) (simp_all add: Let_def case_prod_beta split: option.split)

lemma bounds_of_FreePort [simp]: "bounds_of (snd (FreePort order c u n pa)) = bounds_of pa"
  by (simp add: FreePort_def Let_def split: option.split)

lemma bounds_of_hanging_loop:
  "hanging_loop now order pa = Inr (freed, pa') \<Longrightarrow> bounds_of pa' = bounds_of pa"
  by (induction now order pa arbitrary: freed pa' rule: hanging_loop.induct)
    (auto simp: Let_def split: option.splits if_splits sum.splits prod.splits)

lemma bounds_of_FreeHangingPorts:
  "FreeHangingPorts now order pa = Inr (freed, pa') \<Longrightarrow> bounds_of pa' = bounds_of pa"
  by (auto simp: FreeHangingPorts_def dest: bounds_of_hanging_loop split: sum.splits)

lemma bounds_of_handler:
  "handleControlPlaneHandler parse_jwt now order r pa = (resp, pa') \<Longrightarrow> bounds_of pa' = bounds_of pa"
  by (erule handleControlPlane_cases) simp_all

lemma bounds_of_handleRemote: "handleRemote now (Some a) r pa = Inr (x, pa') \<Longrightarrow> bounds_of pa' = bounds_of pa"
  by (erule handleRemote_cases) (auto dest: bounds_of_OnConnected)

lemma bounds_of_step: "sys_step parse_jwt s e s' \<Longrightarrow> bounds_of (fst s') = bounds_of (fst s)"
proof (induction rule: sys_step.induct)
  case (opened header pa a pa' H)
  then show ?case using bounds_of_updates(3) [of "handleRequestHeader header" pa] by simp
qed (auto dest: bounds_of_handler bounds_of_handleRemote bounds_of_FreeHangingPorts)

subsection \<open>Every step of the server is a step of the registry\<close>

lemma request_registry:
  assumes ex: "pa_exclusive pa" and bounds: "bounds_of pa = (lo, hi)"
    and run: "handleControlPlaneHandler parse_jwt now order r pa = (resp, pa')"
  shows "registry_step parse_jwt lo hi (leases pa) (HttpRequest r) (leases pa')"
  using run
proof (cases rule: handleControlPlane_cases)
  case (create req)
  let ?u = "create_user parse_jwt r req"
  have "snd (map_prod id leases (AllocatePort now (ClientId_req req) ?u (AppName_req req) (ClientPort_req req) pa)) =
      snd (spec_allocate now (ClientId_req req) ?u (AppName_req req) (ClientPort_req req) lo hi (leases pa))"
    using bounds by (simp only: AllocatePort_effect [OF ex] bounds_of_def prod.inject)
  then show ?thesis using create by (auto intro: registry_step.allocated)
next
  case (delete c u n)
  have "snd (map_prod id leases (FreePort order c u n pa)) = snd (spec_free (alloc_key c u n) (leases pa))"
    by (simp only: FreePort_effect [OF ex delete(2,3)])
  then have "snd (spec_free (alloc_key c u n) (leases pa)) = leases pa'" by (simp add: delete(7))
  moreover have "request_key parse_jwt r = Some (alloc_key c u n)"
    using delete(1,4-6) by (simp add: request_key_def)
  ultimately show ?thesis by (rule registry_step.freed [OF delete(1), rotated])
qed (auto intro: registry_step.unchanged)

lemma remote_registry:
  assumes ex: "pa_exclusive pa" and run: "handleRemote now (Some a) r pa = Inr (x, pa')"
  shows "registry_step parse_jwt lo hi (leases pa) (RemoteApplied b r) (leases pa')"
proof (cases "pa' = pa")
  case False
  let ?cp = "Atoi_value (RemotePort r)" and ?mp = "Atoi_value (LocalPort r)"
  from run False obtain y where y: "OnConnected now (cells pa a) ?cp ?mp pa = (y, pa')" "Reverse r"
    by (auto simp: handleRemote_def Let_def split: if_splits prod.splits sum.splits)
  then have spec: "spec_connect now (cells pa a) ?cp ?mp (leases pa) = (map_sum id (cells pa') y, leases pa')"
    by (simp flip: OnConnected_effect [OF ex])
  show ?thesis
  proof (cases y)
    case (Inl e)
    then have "pa' = pa"
      using y by (auto simp: OnConnected_def applyNew_def applyOld_def Let_def case_prod_beta
          split: if_splits option.splits)
    with False show ?thesis by simp
  qed (use spec y in \<open>auto intro: registry_step.connected\<close>)
qed (auto intro: registry_step.unchanged)

lemma store_leases_cases:
  assumes "pa_sound pa"
  obtains (same) "leases (store a v pa) = leases pa"
  | (key) k where "leases pa k = Some (cells pa a)" "leases (store a v pa) = (leases pa)(k \<mapsto> v)"
proof (cases "\<exists>k. names pa k = Some a")
  case True
  then obtain k where k: "names pa k = Some a" by blast
  then have "leases pa k = Some (cells pa a)" by (simp add: leases_def)
  then show ?thesis by (rule key) (rule leases_store [OF assms k])
next
  case False
  then have "leases (store a v pa) = leases pa"
    by (intro ext) (auto simp: leases_def map_option_case split: option.split)
  then show ?thesis by (rule same)
qed

lemma step_registry:
  assumes ex: "pa_exclusive (fst s)" and bounds: "bounds_of (fst s) = (lo, hi)" and step: "sys_step parse_jwt s e s'"
  shows "registry_step parse_jwt lo hi (leases (fst s)) e (leases (fst s'))"
  using step
proof (cases rule: sys_step.cases)
  case (opened header pa a pa' H)
  then have "leases pa' = leases pa"
    using new_object_leases [OF pa_exclusiveD(1) [OF ex]] by (metis fst_conv snd_conv)
  with opened show ?thesis by (auto intro: registry_step.unchanged)
next
  case (version a H pa x)
  then have "pa_sound pa" using ex pa_exclusiveD(1) by simp
  then show ?thesis
    unfolding version fst_conv
    by (cases rule: store_leases_cases [of pa a "(cells pa a)\<lparr>ClientVersion := client_version x\<rparr>"])
      (simp_all add: registry_step.versioned registry_step.unchanged)
next
  case (closed a H pa)
  then have "pa_sound pa" using ex pa_exclusiveD(1) by simp
  then show ?thesis
    unfolding closed fst_conv
    by (cases rule: store_leases_cases [of pa a "(cells pa a)\<lparr>Status := Allocated\<rparr>"])
      (simp_all add: registry_step.idled registry_step.unchanged)
next
  case (tick order pa now freed pa' H)
  then have "leases pa' = spec_reclaim now (leases pa)" using FreeHangingPorts_leases [of pa] ex by simp
  with tick show ?thesis by (simp add: registry_tick_iff)
next
  case (http order pa now r resp pa' H)
  then show ?thesis using request_registry [of pa] ex bounds by simp
next
  case (applied a H now r pa b pa')
  then show ?thesis using remote_registry [of pa] ex by simp
next
  case (refused a H now r pa pa')
  then show ?thesis using remote_registry [of pa] ex by simp
qed (simp add: registry_step.unchanged)

interpretation server: refinement "\<lambda>s. s = (NewPortAllocator lo hi, [])" "sys_step parse_jwt"
    "reachable parse_jwt lo hi" "\<lambda>s. pa_exclusive (fst s) \<and> bounds_of (fst s) = (lo, hi)"
    "\<lambda>s. leases (fst s)" "\<lambda>L. L = Map.empty" "registry_step parse_jwt lo hi"
  for parse_jwt lo hi
proof unfold_locales
  show "pa_exclusive (fst s') \<and> bounds_of (fst s') = (lo, hi)"
    if "pa_exclusive (fst s) \<and> bounds_of (fst s) = (lo, hi)" "sys_step parse_jwt s e s'" for s e s'
    using that bounds_of_step step_exclusive by metis
  show "leases (fst s) = Map.empty" if "s = (NewPortAllocator lo hi, [])" for s
    using that by (simp add: NewPortAllocator_def leases_def [abs_def])
  show "pa_exclusive (fst s) \<and> bounds_of (fst s) = (lo, hi)" if "s = (NewPortAllocator lo hi, [])" for s
    using that NewPortAllocator_exclusive by (simp add: bounds_of_def) (simp add: NewPortAllocator_def)
qed (auto intro: reachable.start step_registry)

text \<open>
  C1: the server's allocator, whatever requests, sessions and ticks interleave, behaves as a
  registry of leases: every run of the server from its start is, with the same events, a run
  of the registry from the empty one, each step one of the specifications of AllocatePort,
  FreePort, OnConnected and the reclaiming pass, or an update of one lease's version or
  status, or, for any event but a tick, no change.
\<close>

theorem server_refines_registry:
  assumes "trace (\<lambda>s. s = (NewPortAllocator lo hi, [])) (sys_step parse_jwt) es s"
  shows "trace (\<lambda>L. L = Map.empty) (registry_step parse_jwt lo hi) es (leases (fst s))"
  by (rule server.trace_abs [OF assms])

subsection \<open>No two leases of the registry share a port\<close>

definition distinct_ports :: "registry \<Rightarrow> bool" where
  "distinct_ports L \<longleftrightarrow>
     (\<forall>k k' v v'. L k = Some v \<and> L k' = Some v' \<and> MappingPort v = MappingPort v' \<longrightarrow> k = k')"

lemma holder_Some:
  assumes "distinct_ports L" "holder L p = Some k"
  obtains v where "L k = Some v" "MappingPort v = p"
proof -
  from assms(2) obtain k' v where v: "L k' = Some v" "MappingPort v = p"
    and k: "k = (THE k. \<exists>v. L k = Some v \<and> MappingPort v = p)"
    by (auto simp: holder_def taken_ports_def split: if_splits)
  have "k = k'"
    unfolding k by (rule the_equality) (use assms(1) v in \<open>auto simp: distinct_ports_def\<close>)
  with v that show thesis by simp
qed

lemma holder_None: "holder L p = None \<longleftrightarrow> p \<notin> taken_ports L"
  by (simp add: holder_def)

lemma distinct_new: "distinct_ports L \<Longrightarrow> MappingPort v \<notin> taken_ports L \<Longrightarrow> distinct_ports (L(k \<mapsto> v))"
  by (auto simp: distinct_ports_def taken_ports_def)

lemma distinct_same: "distinct_ports L \<Longrightarrow> L k = Some w \<Longrightarrow> MappingPort v = MappingPort w \<Longrightarrow> distinct_ports (L(k \<mapsto> v))"
  unfolding distinct_ports_def by (metis fun_upd_apply option.inject)

lemma distinct_sub: "distinct_ports L \<Longrightarrow> L' \<subseteq>\<^sub>m L \<Longrightarrow> distinct_ports L'"
  unfolding distinct_ports_def map_le_def by (metis domI)

lemma allocate_cases:
  obtains (failed) "snd (spec_allocate now c u n cp lo hi L) = L"
  | (renewed) k v w where "L k = Some w" "MappingPort v = MappingPort w"
      "snd (spec_allocate now c u n cp lo hi L) = L(k \<mapsto> v)"
  | (leased) k v where "MappingPort v \<in> {lo..hi}" "MappingPort v \<notin> taken_ports L"
      "snd (spec_allocate now c u n cp lo hi L) = L(k \<mapsto> v)"
proof (cases "L (alloc_key c u n)")
  case None
  show thesis
  proof (cases "scan_ports (\<lambda>p. p \<notin> taken_ports L) lo hi")
    case (Some p)
    with leased [of "new_lease now c u n cp p"] None show thesis
      by (simp add: spec_allocate_def Let_def new_lease_def scan_ports_Some_iff)
  qed (use None failed in \<open>simp add: spec_allocate_def Let_def\<close>)
next
  case (Some w)
  from renewed [OF this, of "w\<lparr>ClientPort := cp, Status := Allocated, AllocTime := Some now, StartTime := None\<rparr>"]
  show thesis by (simp add: Some spec_allocate_def Let_def)
qed

lemma connect_cases:
  assumes d: "distinct_ports L" and ok: "spec_connect now c cp mp L = (Inr x, L')"
  obtains (held) k v w where "L k = Some w" "MappingPort v = MappingPort w" "L' = L(k \<mapsto> v)"
  | (leased) k v where "MappingPort v = mp" "mp \<notin> taken_ports L" "L' = L(k \<mapsto> v)"
proof (cases "ClientId c \<noteq> '''' \<and> UserId c \<noteq> '''' \<and> AppName c \<noteq> ''''")
  case True
  show thesis
  proof (cases "L (key_of c)")
    case None
    with True ok have "mp \<notin> taken_ports L \<and> L' = L(key_of c \<mapsto> x) \<and> MappingPort x = mp"
      by (auto simp: spec_connect_def Let_def new_lease_def holder_None split: option.splits)
    with leased show thesis by blast
  next
    case (Some w)
    with True ok have "L' = L(key_of c \<mapsto> x) \<and> MappingPort x = MappingPort w"
      by (auto simp: spec_connect_def Let_def split: if_splits)
    with held Some show thesis by blast
  qed
next
  case False
  with ok obtain k where k: "holder L mp = Some k" "MappingPort x = MappingPort (the (L k))" "L' = L(k \<mapsto> x)"
    by (auto simp: spec_connect_def Let_def split: option.splits if_splits)
  from holder_Some [OF d k(1)] obtain w where "L k = Some w" .
  with k held show thesis by simp
qed

lemma registry_step_distinct:
  assumes "registry_step parse_jwt lo hi L e L'" "distinct_ports L"
  shows "distinct_ports L'"
  using assms
proof (cases rule: registry_step.cases)
  case (allocated r req now)
  then show ?thesis
    using assms(2) allocate_cases [of now "ClientId_req req" "create_user parse_jwt r req" "AppName_req req"
        "ClientPort_req req" lo hi L] distinct_new distinct_same by metis
next
  case (connected r now c x a)
  from assms(2) connected(3) show ?thesis
    by (cases rule: connect_cases) (use assms(2) distinct_new distinct_same in auto)
next
  case (freed r k)
  then have "L' \<subseteq>\<^sub>m L" by (auto simp: spec_free_def map_le_def split: option.splits if_splits)
  with assms(2) show ?thesis by (rule distinct_sub)
next
  case (reclaimed now)
  then have "L' \<subseteq>\<^sub>m L" by (auto simp: spec_reclaim_def map_le_def split: option.splits if_splits)
  with assms(2) show ?thesis by (rule distinct_sub)
qed (use assms(2) in \<open>auto intro: distinct_same\<close>)

lemma registry_distinct:
  "trace (\<lambda>L. L = Map.empty) (registry_step parse_jwt lo hi) es L \<Longrightarrow> distinct_ports L"
proof (induction rule: trace.induct)
  case (nil L)
  then show ?case by (simp add: distinct_ports_def)
qed (rule registry_step_distinct)

subsection \<open>Where the port of a lease comes from\<close>

text \<open>Some session of the run asked for the port by a reversed remote.\<close>

definition asked_for :: "event list \<Rightarrow> int \<Rightarrow> bool" where
  "asked_for es p \<longleftrightarrow> (\<exists>a r. RemoteApplied a r \<in> set es \<and> Reverse r \<and> Atoi_value (LocalPort r) = p)"

lemma asked_for_append [simp]: "asked_for (es @ fs) p \<longleftrightarrow> asked_for es p \<or> asked_for fs p"
  by (auto simp: asked_for_def)

lemma registry_step_port:
  assumes d: "distinct_ports L" and step: "registry_step parse_jwt lo hi L e L'" and k: "L' k = Some v"
  shows "MappingPort v \<in> {lo..hi} \<or> asked_for [e] (MappingPort v) \<or>
    (\<exists>k w. L k = Some w \<and> MappingPort v = MappingPort w)"
  using step
proof (cases rule: registry_step.cases)
  case (allocated r req now)
  show ?thesis
    by (cases rule: allocate_cases [of now "ClientId_req req" "create_user parse_jwt r req" "AppName_req req"
        "ClientPort_req req" lo hi L]) (use allocated k in \<open>auto split: if_splits\<close>)
next
  case (connected r now c x a)
  from d connected(3) show ?thesis
    by (cases rule: connect_cases) (use connected k in \<open>auto simp: asked_for_def split: if_splits\<close>)
next
  case (freed r k')
  with k have "L k = Some v" by (auto simp: spec_free_def split: option.splits if_splits)
  then show ?thesis by blast
next
  case (reclaimed now)
  with k have "L k = Some v" by (auto simp: spec_reclaim_def split: option.splits if_splits)
  then show ?thesis by blast
next
  case unchanged
  with k show ?thesis by blast
next
  case (versioned k' w a x)
  with k have "L k = Some v \<or> L k' = Some w \<and> MappingPort v = MappingPort w" by (auto split: if_splits)
  then show ?thesis by blast
next
  case (idled k' w a)
  with k have "L k = Some v \<or> L k' = Some w \<and> MappingPort v = MappingPort w" by (auto split: if_splits)
  then show ?thesis by blast
qed

lemma registry_port_origin:
  assumes "trace (\<lambda>L. L = Map.empty) (registry_step parse_jwt lo hi) es L" "L k = Some v"
  shows "MappingPort v \<in> {lo..hi} \<or> asked_for es (MappingPort v)"
  using assms
proof (induction arbitrary: k v rule: trace.induct)
  case (snoc es L e L')
  from registry_step_port [OF registry_distinct [OF snoc.hyps(1)] snoc.hyps(2) snoc.prems] show ?case
    using snoc.IH by fastforce
qed simp

text \<open>
  C9: no port is leased that nobody asked for, and none twice: in every run of the server from its start, the
  port of each lease lies in the configured range, or an earlier event of the run is a
  session with a reversed remote for exactly that port; and no other lease has that port.
\<close>

theorem lease_port_origin:
  assumes run: "trace (\<lambda>s. s = (NewPortAllocator lo hi, [])) (sys_step parse_jwt) es (pa, H)"
    and lease: "leases pa k = Some v"
  shows "(lo \<le> MappingPort v \<and> MappingPort v \<le> hi \<or>
      (\<exists>a r. RemoteApplied a r \<in> set es \<and> Reverse r \<and> Atoi_value (LocalPort r) = MappingPort v)) \<and>
    (\<forall>k' v'. leases pa k' = Some v' \<and> MappingPort v' = MappingPort v \<longrightarrow> k' = k)"
  using registry_port_origin [OF server.trace_abs [OF run]] registry_distinct [OF server.trace_abs [OF run]] lease
  by (auto simp: asked_for_def distinct_ports_def)

subsection \<open>A sample run\<close>

definition web_run :: "event list" where
  "web_run = [SessionOpened 0, VersionSet 0 ''v1.0'', RemoteApplied 0 web_remote]"

lemma web_applied_step:
  "sys_step no_jwt (web_state, [0]) (RemoteApplied 0 web_remote) (web_connected, [1])"
  using sys_step.applied [of 0 "[0]", OF _ web_applied] by simp

lemma web_trace:
  "trace (\<lambda>s. s = (NewPortAllocator 30000 30001, [])) (sys_step no_jwt) web_run (web_connected, [1])"
proof -
  let ?pa = "snd (new_object (handleRequestHeader web_header) (NewPortAllocator 30000 30001))"
  let ?trace = "trace (\<lambda>s. s = (NewPortAllocator 30000 30001, [])) (sys_step no_jwt)"
  have "?trace ([] @ [SessionOpened 0]) (?pa, [0])"
    by (rule trace.snoc [OF trace.nil], rule refl, rule sys_step.opened [of web_header])
      (simp add: new_object_def NewPortAllocator_def)
  then have "?trace (([] @ [SessionOpened 0]) @ [VersionSet 0 ''v1.0''])
      (store 0 ((cells ?pa 0)\<lparr>ClientVersion := client_version ''v1.0''\<rparr>) ?pa, [0])"
    by (rule trace.snoc) (rule sys_step.version, simp)
  moreover have "store 0 ((cells ?pa 0)\<lparr>ClientVersion := client_version ''v1.0''\<rparr>) ?pa = web_state"
    by (simp add: web_state_def store_def new_object_def NewPortAllocator_def client_version_def
        TrimPrefix_def HasPrefix_def)
  ultimately have "?trace (([] @ [SessionOpened 0]) @ [VersionSet 0 ''v1.0'']) (web_state, [0])" by simp
  then have "?trace ((([] @ [SessionOpened 0]) @ [VersionSet 0 ''v1.0'']) @ [RemoteApplied 0 web_remote])
      (web_connected, [1])"
    by (rule trace.snoc) (rule web_applied_step)
  then show ?thesis by (simp add: web_run_def)
qed

theorem server_refines_registry_witness:
  "trace (\<lambda>L. L = Map.empty) (registry_step no_jwt 30000 30001) web_run (leases web_connected)"
  using server_refines_registry [OF web_trace] by simp

theorem lease_port_origin_witness:
  "\<exists>v. leases web_connected ''m-u-web'' = Some v \<and> (30000 \<le> MappingPort v \<and> MappingPort v \<le> 30001 \<or>
    (\<exists>a r. RemoteApplied a r \<in> set web_run \<and> Reverse r \<and> Atoi_value (LocalPort r) = MappingPort v)) \<and>
    (\<forall>k' v'. leases web_connected k' = Some v' \<and> MappingPort v' = MappingPort v \<longrightarrow> k' = ''m-u-web'')"
proof -
  have "leases web_connected ''m-u-web'' = Some (cells web_connected 1)"
    by (simp add: leases_def web_connected_names)
  with lease_port_origin [OF web_trace this] show ?thesis by blast
qed

end
