(* ===== verification/Login_System.thy ===== *)
theory Login_System
  imports Session Systems
begin

section \<open>Logins and the sessions they open\<close>

text \<open>
  The table of sessions (\<open>authUser\<close> of server/server.go and the claim in \<open>handleWebsocket\<close> of
  server/server_handler.go) under any interleaving of logins, claims and changes of the users.
  Two ghost lists record the accepted logins and the claims that gave a user.
\<close>

subsection \<open>Steps\<close>

text \<open>
  A login is recorded with the users of its moment if there were any; with none every login
  is accepted and opens no session of a user.
\<close>

record 're login_state =
  srv :: "'re Server"
  logins :: "(string \<times> string \<times> string \<times> 're users) list"
  claims :: "(string \<times> 're User) list"

datatype 're login_event =
    Login string string string
  | Claim string
  | UsersChanged "'re UserIndex"

inductive login_step :: "'re login_state \<Rightarrow> 're login_event \<Rightarrow> 're login_state \<Rightarrow> bool" where
  accepted: "authUser sid n pw (srv s) = (True, s1) \<Longrightarrow>
    login_step s (Login sid n pw) (s\<lparr>srv := s1, logins :=
      (if inner (index (srv s)) = fmempty then logins s else (sid, n, pw, inner (index (srv s))) # logins s)\<rparr>)"
| refused: "authUser sid n pw (srv s) = (False, s1) \<Longrightarrow> login_step s (Login sid n pw) (s\<lparr>srv := s1\<rparr>)"
| claimed: "claim_user sid (srv s) = Inr (Some u, s1) \<Longrightarrow>
    login_step s (Claim sid) (s\<lparr>srv := s1, claims := (sid, u) # claims s\<rparr>)"
| unclaimed: "claim_user sid (srv s) = Inr (None, s1) \<Longrightarrow> login_step s (Claim sid) (s\<lparr>srv := s1\<rparr>)"
| changed: "login_step s (UsersChanged i) (s\<lparr>srv := (srv s)\<lparr>index := i\<rparr>\<rparr>)"

text \<open>A server starts with an empty table of sessions and whatever users.\<close>

definition fresh_server :: "'re login_state \<Rightarrow> bool" where
  "fresh_server s \<longleftrightarrow> sessions (srv s) = NewUsers \<and> logins s = [] \<and> claims s = []"

inductive login_reachable :: "'re login_state \<Rightarrow> bool" where
  start: "fresh_server s \<Longrightarrow> login_reachable s"
| step: "login_reachable s \<Longrightarrow> login_step s e s' \<Longrightarrow> login_reachable s'"

subsection \<open>The invariant\<close>

text \<open>The login that a user's session stands for: his own name at the time and his password.\<close>

definition logged_in :: "'re login_state \<Rightarrow> string \<Rightarrow> 're User \<Rightarrow> bool" where
  "logged_in s sid u \<longleftrightarrow> (\<exists>n us. (sid, n, Pass u, us) \<in> set (logins s) \<and> Users_Get n us = Some u)"

definition login_count :: "string \<Rightarrow> 're login_state \<Rightarrow> nat" where
  "login_count sid s = length (filter (\<lambda>l. fst l = sid) (logins s))"

definition claim_count :: "string \<Rightarrow> 're login_state \<Rightarrow> nat" where
  "claim_count sid s = length (filter (\<lambda>c. fst c = sid) (claims s))"

definition login_inv :: "'re login_state \<Rightarrow> bool" where
  "login_inv s \<longleftrightarrow>
     (\<forall>sid u. Users_Get sid (sessions (srv s)) = Some u \<longrightarrow> logged_in s sid u) \<and>
     (\<forall>sid u. (sid, u) \<in> set (claims s) \<longrightarrow> logged_in s sid u) \<and>
     (\<forall>sid. claim_count sid s + (if Users_Get sid (sessions (srv s)) = None then 0 else 1) \<le> login_count sid s)"

lemma claim_user_Some:
  assumes "claim_user sid s = Inr (Some u, s')"
  shows "Users_Get sid (sessions s) = Some u \<and> s' = s\<lparr>sessions := Users_Del sid (sessions s)\<rparr>"
  using assms by (auto simp: claim_user_def split: if_splits option.splits)

lemma claim_user_None: "claim_user sid s = Inr (None, s') \<Longrightarrow> s' = s"
  by (auto simp: claim_user_def split: if_splits option.splits)

lemma authUser_accepts:
  assumes "authUser sid n pw s = (True, s')"
  obtains (nobody) "inner (index s) = fmempty" "s' = s"
  | (user) u where "inner (index s) \<noteq> fmempty" "Users_Get n (inner (index s)) = Some u" "Pass u = pw"
      "s' = s\<lparr>sessions := Users_Set sid u (sessions s)\<rparr>"
  using assms by (auto simp: authUser_def split: if_splits option.splits)

lemma authUser_refuses: "authUser sid n pw s = (False, s') \<Longrightarrow> s' = s"
  by (auto simp: authUser_def split: if_splits option.splits)

lemma login_invD:
  assumes "login_inv s"
  shows "Users_Get sid (sessions (srv s)) = Some u \<Longrightarrow> logged_in s sid u"
    and "(sid, u) \<in> set (claims s) \<Longrightarrow> logged_in s sid u"
    and "claim_count sid s + (if Users_Get sid (sessions (srv s)) = None then 0 else 1) \<le> login_count sid s"
  using assms by (auto simp: login_inv_def)

lemmas login_defs = login_inv_def logged_in_def login_count_def claim_count_def

lemma login_step_inv:
  assumes "login_step s e s'" "login_inv s"
  shows "login_inv s'"
  using assms(1)
proof (cases rule: login_step.cases)
  case (accepted sid n pw s1)
  from accepted(3) show ?thesis
  proof (cases rule: authUser_accepts)
    case nobody
    with accepted assms(2) show ?thesis by (simp add: login_defs)
  next
    case (user u)
    let ?us = "inner (index (srv s))"
    have s': "s' = s\<lparr>srv := s1, logins := (sid, n, pw, ?us) # logins s\<rparr>" using accepted user by simp
    have more: "logged_in s' i v" if "logged_in s i v" for i v
      using that by (auto simp: s' logged_in_def)
    have this_one: "logged_in s' sid u" using user by (auto simp: s' logged_in_def)
    have count: "login_count i s' = login_count i s + (if i = sid then 1 else 0)" "claim_count i s' = claim_count i s" for i
      by (simp_all add: s' login_count_def claim_count_def)
    have get: "Users_Get i (sessions (srv s')) = (if i = sid then Some u else Users_Get i (sessions (srv s)))" for i
      using user by (simp add: s' users.get_set)
    have "claim_count i s' + (if Users_Get i (sessions (srv s')) = None then 0 else 1) \<le> login_count i s'" for i
      using login_invD(3) [OF assms(2), of i] unfolding count get by (auto split: if_splits)
    moreover have "logged_in s' i v" if "Users_Get i (sessions (srv s')) = Some v" for i v
      using that more this_one login_invD(1) [OF assms(2)] unfolding get by (auto split: if_splits)
    moreover have "logged_in s' i v" if "(i, v) \<in> set (claims s')" for i v
      using that more login_invD(2) [OF assms(2)] by (simp add: s')
    ultimately show ?thesis unfolding login_inv_def by blast
  qed
next
  case (claimed sid u s1)
  have u: "Users_Get sid (sessions (srv s)) = Some u" "s1 = (srv s)\<lparr>sessions := Users_Del sid (sessions (srv s))\<rparr>"
    using claim_user_Some [OF claimed(3)] by auto
  have get: "Users_Get i (sessions (srv s')) = (if i = sid then None else Users_Get i (sessions (srv s)))" for i
    using claimed u by (simp add: users.get_del)
  have same: "logged_in s' = logged_in s" by (intro ext) (simp add: claimed logged_in_def)
  have count: "login_count i s' = login_count i s" "claim_count i s' = claim_count i s + (if i = sid then 1 else 0)" for i
    by (simp_all add: claimed login_count_def claim_count_def)
  have "claim_count i s' + (if Users_Get i (sessions (srv s')) = None then 0 else 1) \<le> login_count i s'" for i
    using login_invD(3) [OF assms(2), of i] u unfolding count get by (auto split: if_splits)
  moreover have "logged_in s' i v" if "Users_Get i (sessions (srv s')) = Some v" for i v
    using that login_invD(1) [OF assms(2)] unfolding get same by (simp split: if_splits)
  moreover have "logged_in s' i v" if "(i, v) \<in> set (claims s')" for i v
  proof -
    have "(i, v) = (sid, u) \<or> (i, v) \<in> set (claims s)" using that by (simp add: claimed)
    then show ?thesis using login_invD(1,2) [OF assms(2)] u(1) unfolding same by blast
  qed
  ultimately show ?thesis unfolding login_inv_def by blast
next
  case (refused sid n pw s1)
  with assms(2) authUser_refuses [OF refused(3)] show ?thesis by (simp add: login_defs)
next
  case (unclaimed sid s1)
  with assms(2) claim_user_None [OF unclaimed(3)] show ?thesis by (simp add: login_defs)
next
  case (changed i)
  with assms(2) show ?thesis by (simp add: login_defs)
qed

interpretation logins: invariant_stepping fresh_server login_step login_reachable login_inv
proof unfold_locales
  show "P s" if "login_reachable s" "\<And>s. fresh_server s \<Longrightarrow> P s"
    "\<And>s e s'. login_reachable s \<Longrightarrow> P s \<Longrightarrow> login_step s e s' \<Longrightarrow> P s'" for s :: "'a login_state" and P
    using that by (induction rule: login_reachable.induct) blast+
  show "login_inv s" if "fresh_server s" for s :: "'a login_state"
    using that by (simp add: fresh_server_def login_defs users.get_empty)
qed (rule login_reachable.step login_step_inv; assumption)+

text \<open>
  C15: a session runs as a user only after a login as that user: whatever logins, claims and
  reloads of the users interleave, a claim that gives a user follows an accepted login under
  the same session id, with the name and the password the user had at that moment; and each
  login serves at most one session, the claims under an id never being more than the logins.
\<close>

theorem session_user_logged_in:
  assumes "login_reachable s" and "claim_user sid (srv s) = Inr (Some u, s')"
  shows "(\<exists>n us. (sid, n, Pass u, us) \<in> set (logins s) \<and> Users_Get n us = Some u) \<and>
    length (filter (\<lambda>c. fst c = sid) (claims s)) < length (filter (\<lambda>l. fst l = sid) (logins s))"
proof -
  have inv: "login_inv s" using logins.reach_inv [OF assms(1)] .
  have u: "Users_Get sid (sessions (srv s)) = Some u" using claim_user_Some [OF assms(2)] by blast
  from login_invD(1) [OF inv u] login_invD(3) [OF inv, of sid] u show ?thesis
    by (simp add: logged_in_def login_count_def claim_count_def)
qed

subsection \<open>An accepted login that is never claimed\<close>

text \<open>
  A client that passes the password and then breaks off its handshake leaves its entry: no
  step but a claim under its id, or a later login under it, changes it.
\<close>

lemma unclaimed_entry_stays:
  assumes "login_step s e s'" "Users_Get sid (sessions (srv s)) = Some u"
    and "e \<noteq> Claim sid" "\<And>n pw. e \<noteq> Login sid n pw"
  shows "Users_Get sid (sessions (srv s')) = Some u"
  using assms(1)
proof (cases rule: login_step.cases)
  case (accepted i n pw s1)
  from accepted(3) show ?thesis
    by (cases rule: authUser_accepts) (use accepted assms in \<open>auto simp: users.get_set\<close>)
next
  case (claimed i v s1)
  with claim_user_Some [OF claimed(3)] assms show ?thesis by (auto simp: users.get_del)
qed (use assms in \<open>auto dest: authUser_refuses claim_user_None\<close>)

subsection \<open>A sample login\<close>

theorem session_user_logged_in_witness:
  "\<exists>s1 s. srv s = s1 \<and> login_step \<lparr>srv = sample_server, logins = [], claims = []\<rparr> (Login ''id1'' ''bob'' ''pw'') s \<and>
    (\<exists>u s'. claim_user ''id1'' s1 = Inr (Some u, s') \<and> Name u = ''bob'' \<and>
      (\<exists>n us. (''id1'', n, Pass u, us) \<in> set (logins s) \<and> Users_Get n us = Some u))"
proof -
  let ?s0 = "\<lparr>srv = sample_server, logins = [], claims = []\<rparr> :: string login_state"
  obtain s1 where login: "authUser ''id1'' ''bob'' ''pw'' sample_server = (True, s1)" and "index s1 = index sample_server"
    by (simp add: authUser_cases sample_server_def sample_bob)
  then obtain u s' where claim: "claim_user ''id1'' s1 = Inr (Some u, s')" "Name u = ''bob''"
    using claim_after_login [OF login refl] sample_users_not_empty sample_bob by (auto simp: sample_server_def)
  have "fresh_server ?s0" by (simp add: fresh_server_def sample_server_def)
  moreover obtain s where s: "login_step ?s0 (Login ''id1'' ''bob'' ''pw'') s" "srv s = s1"
    using login_step.accepted [of "''id1''" "''bob''" "''pw''" ?s0 s1] login by auto
  ultimately have reach: "login_reachable s" by (blast intro: login_reachable.intros)
  from session_user_logged_in [OF reach, of "''id1''" u s'] claim s show ?thesis by blast
qed

end
