(* ===== verification/Base64.thy ===== *)
theory Base64
  imports Prelude
begin

section \<open>Base64\<close>

text \<open>
  The parts of Go's encoding/base64 the program uses: the standard alphabet, with padding
  (\<open>StdEncoding\<close>, for fingerprints) and without (\<open>RawStdEncoding\<close>, for key files). The
  decoder skips carriage returns and newlines, and its only error is a corrupt input.
\<close>

subsection \<open>The alphabet\<close>

definition enc_char :: "nat \<Rightarrow> char" where
  "enc_char v =
     (if v < 26 then char_of (65 + v) else if v < 52 then char_of (71 + v)
      else if v < 62 then char_of (v - 4) else if v = 62 then CHR ''+'' else CHR ''/'')"

definition dec_char :: "char \<Rightarrow> nat option" where
  "dec_char c =
     (let n = (of_char c :: nat) in
      if 65 \<le> n \<and> n \<le> 90 then Some (n - 65)
      else if 97 \<le> n \<and> n \<le> 122 then Some (n - 71)
      else if 48 \<le> n \<and> n \<le> 57 then Some (n + 4)
      else if n = 43 then Some 62 else if n = 47 then Some 63 else None)"

lemma dec_enc [simp]: "v < 64 \<Longrightarrow> dec_char (enc_char v) = Some v"
  by (auto simp: dec_char_def enc_char_def Let_def)

lemma dec_char_bound: "dec_char c = Some v \<Longrightarrow> v < 64"
  by (auto simp: dec_char_def Let_def split: if_splits)

lemma enc_char_plain [simp]:
  assumes "v < 64"
  shows "enc_char v \<noteq> CHR ''=''" "enc_char v \<noteq> CHR 0x0A" "enc_char v \<noteq> CHR 0x0D"
  using dec_enc [OF assms] by (auto simp: dec_char_def Let_def)

subsection \<open>Groups of bytes\<close>

definition sext1 :: "char \<Rightarrow> nat" where "sext1 a = of_char a div 4"
definition sext2 :: "char \<Rightarrow> nat \<Rightarrow> nat" where "sext2 a b = (of_char a mod 4) * 16 + b div 16"
definition sext3 :: "char \<Rightarrow> nat \<Rightarrow> nat" where "sext3 b c = (of_char b mod 16) * 4 + c div 64"
definition sext4 :: "char \<Rightarrow> nat" where "sext4 c = of_char c mod 64"

definition byte1 :: "nat \<Rightarrow> nat \<Rightarrow> char" where "byte1 v w = char_of (v * 4 + w div 16)"
definition byte2 :: "nat \<Rightarrow> nat \<Rightarrow> char" where "byte2 w x = char_of ((w mod 16) * 16 + x div 4)"
definition byte3 :: "nat \<Rightarrow> nat \<Rightarrow> char" where "byte3 x y = char_of ((x mod 4) * 64 + y)"

lemma char_less [simp]: "(of_char c :: nat) < 256"
  by (metis of_char_mod_256 mod_less_divisor zero_less_numeral)

lemma sext_bounds [simp]:
  "sext1 a < 64" "b < 256 \<Longrightarrow> sext2 a b < 64" "c < 256 \<Longrightarrow> sext3 d c < 64" "sext4 e < 64"
proof -
  have "(of_char a :: nat) < 256" by simp
  then show "sext1 a < 64" unfolding sext1_def by linarith
  show "sext2 a b < 64" if "b < 256"
  proof -
    have "b div 16 < 16" "(of_char a :: nat) mod 4 \<le> 3" using that by auto
    then show ?thesis unfolding sext2_def by linarith
  qed
  show "sext3 d c < 64" if "c < 256"
  proof -
    have "c div 64 < 4" "(of_char d :: nat) mod 16 \<le> 15" using that by auto
    then show ?thesis unfolding sext3_def by linarith
  qed
qed (simp add: sext4_def)

lemma byte_sext:
  "b < 256 \<Longrightarrow> byte1 (sext1 a) (sext2 a b) = a"
  "c < 256 \<Longrightarrow> byte2 (sext2 a (of_char d)) (sext3 d c) = d"
  "byte3 (sext3 d (of_char e)) (sext4 e) = e"
proof -
  have "sext1 a * 4 + sext2 a b div 16 = of_char a" if "b < 256"
  proof -
    have "b div 16 < 16" using that by auto
    then have "sext2 a b div 16 = of_char a mod 4" by (simp add: sext2_def)
    then show ?thesis by (simp add: sext1_def)
  qed
  then show "byte1 (sext1 a) (sext2 a b) = a" if "b < 256" using that by (simp add: byte1_def)
  have d: "(of_char d :: nat) div 16 < 16" by (simp add: less_mult_imp_div_less)
  have "(sext2 a (of_char d) mod 16) * 16 + sext3 d c div 4 = of_char d" if "c < 256"
  proof -
    have "sext2 a (of_char d) mod 16 = of_char d div 16" using d by (simp add: sext2_def)
    moreover have "c div 64 < 4" using that by auto
    then have "sext3 d c div 4 = of_char d mod 16" by (simp add: sext3_def)
    ultimately show ?thesis by simp
  qed
  then show "byte2 (sext2 a (of_char d)) (sext3 d c) = d" if "c < 256" using that by (simp add: byte2_def)
  have "(of_char e :: nat) div 64 < 4" by (simp add: less_mult_imp_div_less)
  then have "(sext3 d (of_char e) mod 4) * 64 + sext4 e = of_char e" by (simp add: sext3_def sext4_def)
  then show "byte3 (sext3 d (of_char e)) (sext4 e) = e" by (simp add: byte3_def)
qed

subsection \<open>Encoding and decoding\<close>

fun base64_encode :: "bool \<Rightarrow> bytes \<Rightarrow> string" where
  "base64_encode pad [] = []"
| "base64_encode pad [a] =
     [enc_char (sext1 a), enc_char (sext2 a 0)] @ (if pad then ''=='' else '''')"
| "base64_encode pad [a, b] =
     [enc_char (sext1 a), enc_char (sext2 a (of_char b)), enc_char (sext3 b 0)] @ (if pad then ''='' else '''')"
| "base64_encode pad (a # b # c # bs) =
     [enc_char (sext1 a), enc_char (sext2 a (of_char b)), enc_char (sext3 b (of_char c)), enc_char (sext4 c)] @
     base64_encode pad bs"

definition opt_list :: "'a option list \<Rightarrow> 'a list option" where
  "opt_list xs = (if None \<in> set xs then None else Some (map the xs))"

text \<open>A full group of four digits, and the incomplete groups an input may end with.\<close>

fun group_bytes :: "nat list \<Rightarrow> bytes option" where
  "group_bytes [v, w] = Some [byte1 v w]"
| "group_bytes [v, w, x] = Some [byte1 v w, byte2 w x]"
| "group_bytes [v, w, x, y] = Some [byte1 v w, byte2 w x, byte3 x y]"
| "group_bytes _ = None"

definition decode_group :: "string \<Rightarrow> bytes option" where
  "decode_group cs = (case opt_list (map dec_char cs) of None \<Rightarrow> None | Some vs \<Rightarrow> group_bytes vs)"

fun decode_groups :: "bool \<Rightarrow> string \<Rightarrow> bytes option" where
  "decode_groups pad [] = Some []"
| "decode_groups pad (c1 # c2 # c3 # c4 # cs) =
     (if pad \<and> c4 = CHR ''='' then
        (if cs \<noteq> [] then None
         else if c3 = CHR ''='' then decode_group [c1, c2] else decode_group [c1, c2, c3])
      else (case decode_group [c1, c2, c3, c4] of
              None \<Rightarrow> None
            | Some bs \<Rightarrow> map_option (append bs) (decode_groups pad cs)))"
| "decode_groups pad cs = (if pad then None else decode_group cs)"

definition not_newline :: "char \<Rightarrow> bool" where
  "not_newline c \<longleftrightarrow> c \<noteq> CHR 0x0A \<and> c \<noteq> CHR 0x0D"

definition base64_decode :: "bool \<Rightarrow> string \<Rightarrow> bytes option" where
  "base64_decode pad s = decode_groups pad (filter not_newline s)"

subsection \<open>Round trip\<close>

lemma decode_groups_encode: "decode_groups pad (base64_encode pad bs) = Some bs"
proof (induction pad bs rule: base64_encode.induct)
  case (2 pad a)
  show ?case by (cases pad) (simp_all add: decode_group_def opt_list_def byte_sext)
next
  case (3 pad a b)
  show ?case by (cases pad) (simp_all add: decode_group_def opt_list_def byte_sext)
next
  case (4 pad a b c bs)
  then show ?case by (simp add: decode_group_def opt_list_def byte_sext)
qed simp

lemma encode_no_newline: "filter not_newline (base64_encode pad bs) = base64_encode pad bs"
  by (induction pad bs rule: base64_encode.induct) (simp_all add: not_newline_def)

lemma base64_decode_encode: "base64_decode pad (base64_encode pad bs) = Some bs"
  by (simp add: base64_decode_def encode_no_newline decode_groups_encode)

lemma base64_encode_length:
  "length (base64_encode pad bs) =
     (if pad then 4 * ((length bs + 2) div 3) else (4 * length bs + 2) div 3)"
proof (induction pad bs rule: base64_encode.induct)
  case (4 pad a b c bs)
  have "(length bs + 5) div 3 = (length bs + 2) div 3 + 1"
    "(4 * length bs + 14) div 3 = (4 * length bs + 2) div 3 + 4"
    by presburger+
  with 4 show ?case by (cases pad) (simp_all add: algebra_simps)
qed simp_all

end
