(* ===== verification/Keys.thy ===== *)
theory Keys
  imports Base64 Go_Strings
begin

section \<open>Keys\<close>

text \<open>
  Models share/ccrypto: the deterministic random reader and the private keys drawn from it,
  key files and fingerprints. The hash functions, the elliptic curve and the DER and PEM
  encodings are the library's and are parameters.
\<close>

subsection \<open>The deterministic random reader\<close>

definition DetermRandIter :: nat where
  "DetermRandIter = 2048"

text \<open>\<open>hash\<close> splits the 64 bytes of SHA-512 in two halves.\<close>

definition hash_halves :: "(bytes \<Rightarrow> bytes) \<Rightarrow> bytes \<Rightarrow> bytes \<times> bytes" where
  "hash_halves sha512 input = (let nextout = sha512 input in (take 32 nextout, drop 32 nextout))"

record determRand =
  next_seed :: bytes
  out_bytes :: bytes

fun strengthen :: "(bytes \<Rightarrow> bytes) \<Rightarrow> nat \<Rightarrow> bytes \<times> bytes \<Rightarrow> bytes \<times> bytes" where
  "strengthen sha512 0 (nxt, out) = (nxt, out)"
| "strengthen sha512 (Suc n) (nxt, out) = strengthen sha512 n (hash_halves sha512 nxt)"

definition NewDetermRand :: "(bytes \<Rightarrow> bytes) \<Rightarrow> bytes \<Rightarrow> determRand" where
  "NewDetermRand sha512 seed =
     (let (nxt, out) = strengthen sha512 DetermRandIter (seed, [])
      in \<lparr>next_seed = nxt, out_bytes = out\<rparr>)"

text \<open>
  The loop of \<open>Read\<close> into a buffer of which \<open>l\<close> bytes are left: it copies as much of each
  output as fits and drops the rest. It would not end if the hash gave no output.
\<close>

partial_function (option) read_loop :: "(bytes \<Rightarrow> bytes) \<Rightarrow> nat \<Rightarrow> bytes \<Rightarrow> (bytes \<times> bytes) option" where
  "read_loop sha512 l nxt =
     (if l = 0 then Some ([], nxt)
      else (let (nxt', out) = hash_halves sha512 nxt; c = take l out in
            Option.bind (read_loop sha512 (l - length c) nxt') (\<lambda>(bs, nxt''). Some (c @ bs, nxt''))))"

definition determRand_Read :: "(bytes \<Rightarrow> bytes) \<Rightarrow> nat \<Rightarrow> determRand \<Rightarrow> (bytes \<times> determRand) option" where
  "determRand_Read sha512 l d =
     (case read_loop sha512 l (next_seed d) of
        None \<Rightarrow> None
      | Some (bs, nxt) \<Rightarrow> Some (bs, d\<lparr>next_seed := nxt\<rparr>))"

text \<open>The blocks a reader produces from a seed, and the seed after some blocks.\<close>

fun seed_after :: "(bytes \<Rightarrow> bytes) \<Rightarrow> nat \<Rightarrow> bytes \<Rightarrow> bytes" where
  "seed_after sha512 0 nxt = nxt"
| "seed_after sha512 (Suc n) nxt = seed_after sha512 n (take 32 (sha512 nxt))"

fun blocks :: "(bytes \<Rightarrow> bytes) \<Rightarrow> nat \<Rightarrow> bytes \<Rightarrow> bytes" where
  "blocks sha512 0 nxt = []"
| "blocks sha512 (Suc n) nxt = drop 32 (sha512 nxt) @ blocks sha512 n (take 32 (sha512 nxt))"

lemma read_loop_blocks:
  assumes sha: "\<And>x. length (sha512 x) = 64"
  shows "read_loop sha512 l nxt =
    Some (take l (blocks sha512 ((l + 31) div 32) nxt), seed_after sha512 ((l + 31) div 32) nxt)"
proof (induction l arbitrary: nxt rule: less_induct)
  case (less l)
  show ?case
  proof (cases "l = 0")
    case True
    then show ?thesis by (simp add: read_loop.simps [of sha512 0])
  next
    case False
    let ?out = "drop 32 (sha512 nxt)"
    have out: "length ?out = 32" by (simp add: sha)
    have IH: "read_loop sha512 (l - 32) x =
        Some (take (l - 32) (blocks sha512 ((l - 32 + 31) div 32) x), seed_after sha512 ((l - 32 + 31) div 32) x)" for x
      using less [of "l - 32" x] False by simp
    have left: "l - length (take l ?out) = l - 32" using out by simp
    have step: "read_loop sha512 l nxt =
        Some (take l ?out @ take (l - 32) (blocks sha512 ((l - 32 + 31) div 32) (take 32 (sha512 nxt))),
          seed_after sha512 ((l - 32 + 31) div 32) (take 32 (sha512 nxt)))"
      unfolding read_loop.simps [of sha512 l nxt] using False
      by (simp only: if_False hash_halves_def Let_def prod.case left IH Option.bind.bind_lunit)
    show ?thesis
    proof (cases "l \<le> 32")
      case True
      with False have "(l + 31) div 32 = 1" by (intro div_nat_eqI) simp_all
      moreover have "l - 32 = 0" using True by simp
      ultimately show ?thesis unfolding step by simp
    next
      case False
      then have l: "l = (l - 32) + 32" by simp
      have "(l + 31) div 32 = Suc ((l - 32 + 31) div 32)"
        by (subst l) simp
      with False out show ?thesis unfolding step by simp
    qed
  qed
qed

lemma determRand_Read_fills:
  assumes "\<And>x. length (sha512 x) = 64"
  shows "\<exists>bs. determRand_Read sha512 l d =
      Some (bs, d\<lparr>next_seed := seed_after sha512 ((l + 31) div 32) (next_seed d)\<rparr>) \<and>
    length bs = l \<and> bs = take l (blocks sha512 ((l + 31) div 32) (next_seed d))"
proof -
  have blocks: "length (blocks sha512 n x) = 32 * n" for n x
    by (induction n arbitrary: x) (simp_all add: assms)
  have "l \<le> 32 * ((l + 31) div 32)" by presburger
  then show ?thesis
    by (simp add: determRand_Read_def read_loop_blocks [OF assms] blocks)
qed

text \<open>
  The reader always fills the buffer: with a hash of 64 bytes, reading \<open>l\<close> bytes ends
  and gives the first \<open>l\<close> bytes of the blocks of the current seed, advancing the seed by
  one step per started block of 32 bytes, so what is read is a function of the seed.
\<close>

lemma determRand_Read_total:
  assumes "\<And>x. length (sha512 x) = 64"
  shows "\<exists>bs. determRand_Read sha512 l d =
      Some (bs, d\<lparr>next_seed := seed_after sha512 ((l + 31) div 32) (next_seed d)\<rparr>) \<and>
    length bs = l \<and> bs = take l (blocks sha512 ((l + 31) div 32) (next_seed d))"
  using assms by (rule determRand_Read_fills)

theorem determRand_Read_total_witness:
  "\<exists>bs d. determRand_Read (\<lambda>x. replicate 64 CHR ''a'') 40 (NewDetermRand (\<lambda>x. replicate 64 CHR ''a'') ''seed'') =
     Some (bs, d) \<and> length bs = 40"
  using determRand_Read_total [of "\<lambda>x. replicate 64 CHR ''a''" 40 "NewDetermRand (\<lambda>x. replicate 64 CHR ''a'') ''seed''"]
  by auto

subsection \<open>Private keys\<close>

text \<open>
  A curve as the code uses it: the order of its group and the multiplication of the base
  point by a scalar given as big-endian bytes.
\<close>

record 'pt curve =
  order_N :: nat
  ScalarBaseMult :: "bytes \<Rightarrow> 'pt"

record 'pt PrivateKey =
  key_D :: nat
  key_XY :: 'pt

fun SetBytes :: "bytes \<Rightarrow> nat \<Rightarrow> nat" where
  "SetBytes [] acc = acc"
| "SetBytes (b # bs) acc = SetBytes bs (256 * acc + of_char b)"

text \<open>\<open>big.Int.Bytes\<close>: the shortest big-endian representation.\<close>

fun big_bytes :: "nat \<Rightarrow> bytes" where
  "big_bytes n = (if n = 0 then [] else big_bytes (n div 256) @ [char_of (n mod 256)])"

declare big_bytes.simps [simp del]

fun BitLen :: "nat \<Rightarrow> nat" where
  "BitLen n = (if n = 0 then 0 else Suc (BitLen (n div 2)))"

declare BitLen.simps [simp del]

text \<open>\<open>rand\<close> fills a buffer of the given length from its state, or fails.\<close>

definition randFieldElement :: "'pt curve \<Rightarrow> (nat \<Rightarrow> 's \<Rightarrow> (bytes \<times> 's) option) \<Rightarrow> 's \<Rightarrow> (nat \<times> 's) option" where
  "randFieldElement c rand s =
     (case rand (BitLen (order_N c) div 8 + 8) s of
        None \<Rightarrow> None
      | Some (b, s') \<Rightarrow>
          (let k = SetBytes b 0; n = order_N c - 1 in Some (k mod n + 1, s')))"

definition GenerateKeyGo119 ::
  "'pt curve \<Rightarrow> (nat \<Rightarrow> 's \<Rightarrow> (bytes \<times> 's) option) \<Rightarrow> 's \<Rightarrow> ('pt PrivateKey \<times> 's) option" where
  "GenerateKeyGo119 c rand s =
     (case randFieldElement c rand s of
        None \<Rightarrow> None
      | Some (k, s') \<Rightarrow> Some (\<lparr>key_D = k, key_XY = ScalarBaseMult c (big_bytes k)\<rparr>, s'))"

text \<open>
  With no seed the key comes from the system's generator (\<open>fresh\<close>, absent if it fails);
  with a seed it is drawn from the deterministic reader.
\<close>

definition seed2PrivateKey ::
  "(bytes \<Rightarrow> bytes) \<Rightarrow> 'pt curve \<Rightarrow> 'pt PrivateKey option \<Rightarrow> string \<Rightarrow> 'pt PrivateKey option" where
  "seed2PrivateKey sha512 c fresh seed =
     (if seed = '''' then fresh
      else map_option fst (GenerateKeyGo119 c (determRand_Read sha512) (NewDetermRand sha512 seed)))"

text \<open>
  Every seed gives a private key, always the same one, that is in range: its scalar is
  at least 1 and below the order of the group, and the public point is the base point
  multiplied by it.
\<close>

lemma seeded_key:
  assumes sha: "\<And>x. length (sha512 x) = 64" and N: "2 \<le> order_N c" and seed: "seed \<noteq> ''''"
  shows "\<exists>key. (\<forall>fresh. seed2PrivateKey sha512 c fresh seed = Some key) \<and>
    1 \<le> key_D key \<and> key_D key < order_N c \<and> key_XY key = ScalarBaseMult c (big_bytes (key_D key))"
proof -
  let ?d = "NewDetermRand sha512 seed"
  obtain bs d' where "determRand_Read sha512 (BitLen (order_N c) div 8 + 8) ?d = Some (bs, d')"
    using determRand_Read_fills [of sha512, OF sha] by blast
  moreover have "SetBytes bs 0 mod (order_N c - 1) < order_N c - 1"
    using N by (intro mod_less_divisor) simp
  then have "SetBytes bs 0 mod (order_N c - 1) + 1 < order_N c" by linarith
  ultimately show ?thesis
    by (simp add: seed2PrivateKey_def GenerateKeyGo119_def randFieldElement_def seed Let_def)
qed

definition sample_curve :: "bytes curve" where
  "sample_curve = \<lparr>order_N = 257, ScalarBaseMult = id\<rparr>"

theorem seeded_key_witness:
  "\<exists>key. seed2PrivateKey (\<lambda>x. replicate 64 CHR ''a'') sample_curve None ''seed'' = Some key \<and>
    1 \<le> key_D key \<and> key_D key < 257"
  using seeded_key [of "\<lambda>x. replicate 64 CHR ''a''" sample_curve "''seed''"]
  by (auto simp: sample_curve_def)

subsection \<open>Key files\<close>

definition CotunKeyPrefix :: string where
  "CotunKeyPrefix = ''ck-''"

text \<open>\<open>marshal\<close> and \<open>parse\<close> are the DER encoding of a private key, \<open>pem\<close> the PEM block around it.\<close>

definition privateKey2CotunKey :: "('key \<Rightarrow> bytes option) \<Rightarrow> 'key \<Rightarrow> bytes option" where
  "privateKey2CotunKey marshal privateKey =
     (case marshal privateKey of
        None \<Rightarrow> None
      | Some b \<Rightarrow> Some (CotunKeyPrefix @ base64_encode False b))"

definition privateKey2PEM :: "('key \<Rightarrow> bytes option) \<Rightarrow> (bytes \<Rightarrow> bytes) \<Rightarrow> 'key \<Rightarrow> bytes option" where
  "privateKey2PEM marshal pem privateKey = map_option pem (marshal privateKey)"

text \<open>
  The buffer is made for the length of the whole text; where the decoder skips newlines it
  stays zero at the end.
\<close>

definition cotunKey2PrivateKey :: "(bytes \<Rightarrow> 'key option) \<Rightarrow> bytes \<Rightarrow> 'key option" where
  "cotunKey2PrivateKey parse cotunKey =
     (let rawCotunKey = drop (length CotunKeyPrefix) cotunKey;
          size = length rawCotunKey * 6 div 8
      in case base64_decode False rawCotunKey of
           None \<Rightarrow> None
         | Some b \<Rightarrow> parse (b @ replicate (size - length b) CHR 0x00))"

definition CotunKey2PEM ::
  "('key \<Rightarrow> bytes option) \<Rightarrow> (bytes \<Rightarrow> 'key option) \<Rightarrow> (bytes \<Rightarrow> bytes) \<Rightarrow> bytes \<Rightarrow> bytes option" where
  "CotunKey2PEM marshal parse pem cotunKey =
     (case cotunKey2PrivateKey parse cotunKey of
        None \<Rightarrow> None
      | Some privateKey \<Rightarrow> privateKey2PEM marshal pem privateKey)"

definition IsCotunKey :: "bytes \<Rightarrow> bool" where
  "IsCotunKey cotunKey = HasPrefix cotunKey CotunKeyPrefix"

definition Seed2PEM ::
  "('pt PrivateKey \<Rightarrow> bytes option) \<Rightarrow> (bytes \<Rightarrow> bytes) \<Rightarrow> (bytes \<Rightarrow> bytes) \<Rightarrow> 'pt curve \<Rightarrow>
   'pt PrivateKey option \<Rightarrow> string \<Rightarrow> bytes option" where
  "Seed2PEM marshal pem sha512 c fresh seed =
     (case seed2PrivateKey sha512 c fresh seed of
        None \<Rightarrow> None
      | Some privateKey \<Rightarrow> privateKey2PEM marshal pem privateKey)"

definition GenerateKey ::
  "('pt PrivateKey \<Rightarrow> bytes option) \<Rightarrow> (bytes \<Rightarrow> bytes) \<Rightarrow> (bytes \<Rightarrow> bytes) \<Rightarrow> 'pt curve \<Rightarrow>
   'pt PrivateKey option \<Rightarrow> string \<Rightarrow> bytes option" where
  "GenerateKey = Seed2PEM"

definition seed2CotunKey ::
  "('pt PrivateKey \<Rightarrow> bytes option) \<Rightarrow> (bytes \<Rightarrow> bytes) \<Rightarrow> 'pt curve \<Rightarrow> 'pt PrivateKey option \<Rightarrow>
   string \<Rightarrow> bytes option" where
  "seed2CotunKey marshal sha512 c fresh seed =
     (case seed2PrivateKey sha512 c fresh seed of
        None \<Rightarrow> None
      | Some privateKey \<Rightarrow> privateKey2CotunKey marshal privateKey)"

text \<open>\<open>GenerateKeyFile\<close>: the text it prints (for \<open>-\<close>) or writes with mode 0600.\<close>

datatype key_output = PrintKey bytes | WriteKey string bytes nat

definition GenerateKeyFile ::
  "('pt PrivateKey \<Rightarrow> bytes option) \<Rightarrow> (bytes \<Rightarrow> bytes) \<Rightarrow> 'pt curve \<Rightarrow> 'pt PrivateKey option \<Rightarrow>
   string \<Rightarrow> string \<Rightarrow> key_output option" where
  "GenerateKeyFile marshal sha512 c fresh keyFilePath seed =
     (case seed2CotunKey marshal sha512 c fresh seed of
        None \<Rightarrow> None
      | Some cotunKey \<Rightarrow>
          (if keyFilePath = ''-'' then Some (PrintKey cotunKey) else Some (WriteKey keyFilePath cotunKey 384)))"

definition FingerprintKey :: "(bytes \<Rightarrow> bytes) \<Rightarrow> bytes \<Rightarrow> string" where
  "FingerprintKey sha256 marshalled = base64_encode True (sha256 marshalled)"

text \<open>
  C37: a key file is read back as the key it was made from: the generated text is recognised
  by its prefix, and turning it into PEM gives the PEM of the same private key, provided
  parsing undoes the DER encoding.
\<close>

theorem cotun_key_roundtrip:
  assumes der: "marshal key = Some der" "parse der = Some key"
    and gen: "privateKey2CotunKey marshal key = Some keytext"
  shows "IsCotunKey keytext \<and> cotunKey2PrivateKey parse keytext = Some key \<and>
    CotunKey2PEM marshal parse pem keytext = privateKey2PEM marshal pem key"
proof -
  have keytext: "keytext = CotunKeyPrefix @ base64_encode False der"
    using der gen by (simp add: privateKey2CotunKey_def)
  have "(4 * length der + 2) div 3 * 6 div 8 = length der" by presburger
  then have "cotunKey2PrivateKey parse keytext = Some key"
    by (simp add: keytext cotunKey2PrivateKey_def Let_def base64_decode_encode base64_encode_length der(2))
  then show ?thesis
    by (simp add: keytext IsCotunKey_def HasPrefix_def CotunKey2PEM_def)
qed

theorem cotun_key_roundtrip_witness:
  "\<exists>keytext. privateKey2CotunKey Some ''DER'' = Some keytext \<and> IsCotunKey keytext \<and> cotunKey2PrivateKey Some keytext = Some ''DER''"
proof -
  obtain keytext where gen: "privateKey2CotunKey Some ''DER'' = Some keytext"
    by (simp add: privateKey2CotunKey_def)
  from cotun_key_roundtrip [of Some "''DER''" "''DER''" Some, OF refl refl gen] gen show ?thesis by blast
qed

end
