(* ===== verification/Environment.thy ===== *)
theory Environment
  imports Go_Strings
begin

section \<open>Environment variables\<close>

text \<open>
  Models share/settings/env.go: the variables read with the prefix \<open>COTUN_\<close>, as texts,
  numbers, durations and flags. The process's environment is a parameter.
\<close>

definition Env :: "(string \<Rightarrow> string) \<Rightarrow> string \<Rightarrow> string" where
  "Env getenv name = getenv (''COTUN_'' @ name)"

definition EnvInt :: "(string \<Rightarrow> string) \<Rightarrow> string \<Rightarrow> int \<Rightarrow> int" where
  "EnvInt getenv name def = (case Atoi (Env getenv name) of Inr n \<Rightarrow> n | Inl _ \<Rightarrow> def)"

text \<open>\<open>parse_duration\<close> is time.ParseDuration.\<close>

definition EnvDuration :: "(string \<Rightarrow> time option) \<Rightarrow> (string \<Rightarrow> string) \<Rightarrow> string \<Rightarrow> time \<Rightarrow> time" where
  "EnvDuration parse_duration getenv name def =
     (case parse_duration (Env getenv name) of Some d \<Rightarrow> d | None \<Rightarrow> def)"

definition EnvBool :: "(string \<Rightarrow> string) \<Rightarrow> string \<Rightarrow> bool" where
  "EnvBool getenv name = (let v = Env getenv name in v = ''1'' \<or> ToLower v = ''true'')"

end
