(* ===== verification/Json.thy ===== *)
theory Json
  imports Go_Strings
begin

section \<open>JSON\<close>

text \<open>
  What the code uses of encoding/json (as of Go 1.24): the printer with its escapes, and the
  parser, on texts of bytes; how a Go type is filled from a value is modelled with the types.
  Models no line of the program.
\<close>

datatype json =
    JNull
  | JBool bool
  | JNumber string
  | JString string
  | JArray "json list"
  | JObject "(string \<times> json) list"

subsection \<open>UTF-8\<close>

definition byte :: "char \<Rightarrow> nat" where
  "byte c = of_char c"

definition cont_byte :: "nat \<Rightarrow> nat \<Rightarrow> string \<Rightarrow> nat \<Rightarrow> bool" where
  "cont_byte lo hi s i \<longleftrightarrow> i < length s \<and> lo \<le> byte (s ! i) \<and> byte (s ! i) \<le> hi"

definition cont_val :: "string \<Rightarrow> nat \<Rightarrow> nat" where
  "cont_val s i = byte (s ! i) mod 64"

definition RuneError :: nat where
  "RuneError = 65533"

text \<open>\<open>utf8.DecodeRune\<close> on a text that is not empty: the rune and its size.\<close>

definition DecodeRune :: "string \<Rightarrow> nat \<times> nat" where
  "DecodeRune s =
     (let b = byte (hd s);
          lo3 = (if b = 224 then 160 else 128); hi3 = (if b = 237 then 159 else 191);
          lo4 = (if b = 240 then 144 else 128); hi4 = (if b = 244 then 143 else 191)
      in if b < 128 then (b, 1)
         else if 194 \<le> b \<and> b \<le> 223 \<and> cont_byte 128 191 s 1 then ((b mod 32) * 64 + cont_val s 1, 2)
         else if 224 \<le> b \<and> b \<le> 239 \<and> cont_byte lo3 hi3 s 1 \<and> cont_byte 128 191 s 2
           then ((b mod 16) * 4096 + cont_val s 1 * 64 + cont_val s 2, 3)
         else if 240 \<le> b \<and> b \<le> 244 \<and> cont_byte lo4 hi4 s 1 \<and> cont_byte 128 191 s 2 \<and> cont_byte 128 191 s 3
           then ((b mod 8) * 262144 + cont_val s 1 * 4096 + cont_val s 2 * 64 + cont_val s 3, 4)
         else (RuneError, 1))"

lemma DecodeRune_size: "1 \<le> snd (DecodeRune s)"
  by (simp add: DecodeRune_def Let_def)

lemma DecodeRune_ascii: "byte c < 128 \<Longrightarrow> DecodeRune (c # s) = (byte c, 1)"
  by (simp add: DecodeRune_def)

definition surrogate :: "nat \<Rightarrow> bool" where
  "surrogate r \<longleftrightarrow> 55296 \<le> r \<and> r \<le> 57343"

definition EncodeRune :: "nat \<Rightarrow> string" where
  "EncodeRune r0 =
     (let r = (if surrogate r0 \<or> r0 > 1114111 then RuneError else r0) in
      if r < 128 then [char_of r]
      else if r < 2048 then [char_of (192 + r div 64), char_of (128 + r mod 64)]
      else if r < 65536 then
        [char_of (224 + r div 4096), char_of (128 + r div 64 mod 64), char_of (128 + r mod 64)]
      else
        [char_of (240 + r div 262144), char_of (128 + r div 4096 mod 64), char_of (128 + r div 64 mod 64),
         char_of (128 + r mod 64)])"

subsection \<open>Printing\<close>

definition hex_char :: "nat \<Rightarrow> char" where
  "hex_char n = (if n < 10 then char_of (48 + n) else char_of (87 + n))"

definition html_safe :: "char \<Rightarrow> bool" where
  "html_safe c \<longleftrightarrow> 32 \<le> byte c \<and> byte c < 128 \<and> byte c \<notin> {34, 38, 60, 62, 92}"

definition escape_ascii :: "char \<Rightarrow> string" where
  "escape_ascii c =
     (let b = byte c in
      if html_safe c then [c]
      else if b = 92 \<or> b = 34 then [CHR 0x5C, c]
      else if b = 8 then [CHR 0x5C, CHR ''b'']
      else if b = 12 then [CHR 0x5C, CHR ''f'']
      else if b = 10 then [CHR 0x5C, CHR ''n'']
      else if b = 13 then [CHR 0x5C, CHR ''r'']
      else if b = 9 then [CHR 0x5C, CHR ''t'']
      else [CHR 0x5C, CHR ''u'', CHR ''0'', CHR ''0'', hex_char (b div 16), hex_char (b mod 16)])"

function escape :: "string \<Rightarrow> string" where
  "escape [] = []"
| "escape (c # cs) =
     (if byte c < 128 then escape_ascii c @ escape cs
      else (let (r, size) = DecodeRune (c # cs) in
            (if r = RuneError \<and> size = 1 then CHR 0x5C # ''ufffd''
             else if r = 8232 \<or> r = 8233 then CHR 0x5C # ''u202'' @ [hex_char (r mod 16)]
             else take size (c # cs)) @ escape (drop (size - 1) cs)))"
  by pat_completeness auto
termination
  by (relation "measure length") auto

definition quote :: "string \<Rightarrow> string" where
  "quote s = CHR 0x22 # escape s @ [CHR 0x22]"

fun commas :: "string list \<Rightarrow> string" where
  "commas [] = []"
| "commas [x] = x"
| "commas (x # y # xs) = x @ CHR '','' # commas (y # xs)"

fun show_json :: "json \<Rightarrow> string" where
  "show_json JNull = ''null''"
| "show_json (JBool b) = (if b then ''true'' else ''false'')"
| "show_json (JNumber n) = n"
| "show_json (JString s) = quote s"
| "show_json (JArray vs) = CHR ''['' # commas (map show_json vs) @ '']''"
| "show_json (JObject kvs) = CHR ''{'' # commas (map (\<lambda>(k, v). quote k @ CHR '':'' # show_json v) kvs) @ ''}''"

subsection \<open>Parsing\<close>

definition json_space :: "char \<Rightarrow> bool" where
  "json_space c \<longleftrightarrow> c \<in> {CHR '' '', CHR 0x09, CHR 0x0A, CHR 0x0D}"

definition skip_ws :: "string \<Rightarrow> string" where
  "skip_ws s = dropWhile json_space s"

definition hex_digit :: "char \<Rightarrow> nat option" where
  "hex_digit c =
     (let b = byte c in
      if 48 \<le> b \<and> b \<le> 57 then Some (b - 48)
      else if 97 \<le> b \<and> b \<le> 102 then Some (b - 87)
      else if 65 \<le> b \<and> b \<le> 70 then Some (b - 55)
      else None)"

text \<open>The four digits after \<^verbatim>\<open>\u\<close>.\<close>

fun hex4 :: "string \<Rightarrow> nat option" where
  "hex4 (a # b # c # d # _) =
     (case (hex_digit a, hex_digit b, hex_digit c, hex_digit d) of
        (Some w, Some x, Some y, Some z) \<Rightarrow> Some (w * 4096 + x * 256 + y * 16 + z)
      | _ \<Rightarrow> None)"
| "hex4 _ = None"

definition simple_escape :: "char \<Rightarrow> char option" where
  "simple_escape e =
     (if e \<in> {CHR 0x22, CHR 0x5C, CHR ''/''} then Some e
      else if e = CHR ''b'' then Some CHR 0x08
      else if e = CHR ''f'' then Some CHR 0x0C
      else if e = CHR ''n'' then Some CHR 0x0A
      else if e = CHR ''r'' then Some CHR 0x0D
      else if e = CHR ''t'' then Some CHR 0x09
      else None)"

text \<open>
  A surrogate is combined with the one after it if they are a pair, and else replaced. The
  result is the text for the rune and the number of characters read after \<^verbatim>\<open>\u\<close>.
\<close>

definition unescape_u :: "string \<Rightarrow> (string \<times> nat) option" where
  "unescape_u s =
     (case hex4 s of
        None \<Rightarrow> None
      | Some r \<Rightarrow>
          (if surrogate r then
             (case (if take 2 (drop 4 s) = [CHR 0x5C, CHR ''u''] then hex4 (drop 6 s) else None) of
                Some r1 \<Rightarrow>
                  (if r < 56320 \<and> 56320 \<le> r1 \<and> r1 \<le> 57343
                   then Some (EncodeRune (65536 + (r - 55296) * 1024 + (r1 - 56320)), 10)
                   else Some (EncodeRune RuneError, 4))
              | None \<Rightarrow> Some (EncodeRune RuneError, 4))
           else Some (EncodeRune r, 4)))"

text \<open>The rest of a string, after its opening quotation mark.\<close>

function parse_string :: "string \<Rightarrow> (string \<times> string) option" where
  "parse_string [] = None"
| "parse_string (c # cs) =
     (if c = CHR 0x22 then Some ([], cs)
      else if byte c < 32 then None
      else if c = CHR 0x5C then
        (case cs of
           [] \<Rightarrow> None
         | e # r \<Rightarrow>
             (if e = CHR ''u'' then
                (case unescape_u r of
                   None \<Rightarrow> None
                 | Some (t, n) \<Rightarrow> map_option (apfst ((@) t)) (parse_string (drop n r)))
              else (case simple_escape e of
                      None \<Rightarrow> None
                    | Some x \<Rightarrow> map_option (apfst (Cons x)) (parse_string r))))
      else (let (rn, size) = DecodeRune (c # cs) in
            map_option (apfst ((@) (if rn = RuneError \<and> size = 1 then EncodeRune RuneError else take size (c # cs))))
              (parse_string (drop (size - 1) cs))))"
  by pat_completeness auto
termination
  by (relation "measure length") auto

text \<open>A number: an optional sign, an integer part, a fraction and an exponent.\<close>

definition scan_digits :: "string \<Rightarrow> (string \<times> string) option" where
  "scan_digits s = (let ds = takeWhile is_digit s in if ds = [] then None else Some (ds, dropWhile is_digit s))"

definition scan_exponent :: "string \<Rightarrow> (string \<times> string) option" where
  "scan_exponent s =
     (if s \<noteq> [] \<and> hd s \<in> {CHR ''e'', CHR ''E''} then
        (let r = tl s; sg = (if r \<noteq> [] \<and> hd r \<in> {CHR ''+'', CHR ''-''} then [hd r] else []) in
         map_option (apfst (\<lambda>ds. hd s # sg @ ds)) (scan_digits (drop (length sg) r)))
      else Some ([], s))"

definition scan_fraction :: "string \<Rightarrow> (string \<times> string) option" where
  "scan_fraction s =
     (if s \<noteq> [] \<and> hd s = CHR ''.'' then map_option (apfst (Cons CHR ''.'')) (scan_digits (tl s))
      else Some ([], s))"

definition parse_number :: "string \<Rightarrow> (string \<times> string) option" where
  "parse_number s =
     (let sg = (if s \<noteq> [] \<and> hd s = CHR ''-'' then ''-'' else ''''); r = drop (length sg) s in
      case (if r \<noteq> [] \<and> hd r = CHR ''0'' then Some (''0'', tl r) else scan_digits r) of
        None \<Rightarrow> None
      | Some (int_part, r1) \<Rightarrow>
          (case scan_fraction r1 of
             None \<Rightarrow> None
           | Some (frac, r2) \<Rightarrow>
               (case scan_exponent r2 of
                  None \<Rightarrow> None
                | Some (ex, r3) \<Rightarrow> Some (sg @ int_part @ frac @ ex, r3))))"

text \<open>
  Values: \<open>n\<close> bounds the recursion, and \<open>d\<close> is how many arrays and objects may still be
  nested, 10000 at the start.
\<close>

fun parse_value :: "nat \<Rightarrow> nat \<Rightarrow> string \<Rightarrow> (json \<times> string) option"
  and parse_elements :: "nat \<Rightarrow> nat \<Rightarrow> string \<Rightarrow> (json list \<times> string) option"
  and parse_members :: "nat \<Rightarrow> nat \<Rightarrow> string \<Rightarrow> ((string \<times> json) list \<times> string) option" where
  "parse_value 0 d s = None"
| "parse_value (Suc n) d s =
     (case skip_ws s of
        [] \<Rightarrow> None
      | c # cs \<Rightarrow>
          (if c = CHR 0x22 then map_option (apfst JString) (parse_string cs)
           else if c = CHR ''['' then
             (if d = 0 then None
              else if HasPrefix (skip_ws cs) '']'' then Some (JArray [], tl (skip_ws cs))
              else map_option (apfst JArray) (parse_elements n (d - 1) cs))
           else if c = CHR ''{'' then
             (if d = 0 then None
              else if HasPrefix (skip_ws cs) ''}'' then Some (JObject [], tl (skip_ws cs))
              else map_option (apfst JObject) (parse_members n (d - 1) cs))
           else if HasPrefix (c # cs) ''true'' then Some (JBool True, drop 4 (c # cs))
           else if HasPrefix (c # cs) ''false'' then Some (JBool False, drop 5 (c # cs))
           else if HasPrefix (c # cs) ''null'' then Some (JNull, drop 4 (c # cs))
           else map_option (apfst JNumber) (parse_number (c # cs))))"
| "parse_elements 0 d s = None"
| "parse_elements (Suc n) d s =
     (case parse_value n d s of
        None \<Rightarrow> None
      | Some (v, r) \<Rightarrow>
          (case skip_ws r of
             [] \<Rightarrow> None
           | c # r' \<Rightarrow>
               (if c = CHR '','' then map_option (apfst (Cons v)) (parse_elements n d r')
                else if c = CHR '']'' then Some ([v], r')
                else None)))"
| "parse_members 0 d s = None"
| "parse_members (Suc n) d s =
     (case skip_ws s of
        [] \<Rightarrow> None
      | q # s1 \<Rightarrow>
          (if q \<noteq> CHR 0x22 then None
           else (case parse_string s1 of
                   None \<Rightarrow> None
                 | Some (k, s2) \<Rightarrow>
                     (if \<not> HasPrefix (skip_ws s2) '':'' then None
                      else (case parse_value n d (tl (skip_ws s2)) of
                              None \<Rightarrow> None
                            | Some (v, r) \<Rightarrow>
                                (case skip_ws r of
                                   [] \<Rightarrow> None
                                 | c # r' \<Rightarrow>
                                     (if c = CHR '','' then map_option (apfst (Cons (k, v))) (parse_members n d r')
                                      else if c = CHR ''}'' then Some ([(k, v)], r')
                                      else None)))))))"

definition parse_json :: "string \<Rightarrow> json option" where
  "parse_json s =
     (case parse_value (Suc (length s)) 10000 s of
        None \<Rightarrow> None
      | Some (v, r) \<Rightarrow> if skip_ws r = [] then Some v else None)"

subsection \<open>Parsing undoes printing\<close>

text \<open>For values whose strings are ASCII and whose numbers are integers, nested within the parser's limit.\<close>

definition ascii :: "string \<Rightarrow> bool" where
  "ascii s \<longleftrightarrow> list_all (\<lambda>c. byte c < 128) s"

fun plain_json :: "json \<Rightarrow> bool" where
  "plain_json (JNumber n) = (case Atoi n of Inl _ \<Rightarrow> False | Inr i \<Rightarrow> n = show_int i)"
| "plain_json (JString s) = ascii s"
| "plain_json (JArray vs) = list_all plain_json vs"
| "plain_json (JObject kvs) = list_all (\<lambda>(k, v). ascii k \<and> plain_json v) kvs"
| "plain_json v = True"

fun depth :: "json \<Rightarrow> nat" where
  "depth (JArray vs) = Suc (foldr (\<lambda>v. max (depth v)) vs 0)"
| "depth (JObject kvs) = Suc (foldr (\<lambda>(k, v). max (depth v)) kvs 0)"
| "depth v = 0"

lemma hex_digit_hex_char: "n < 16 \<Longrightarrow> hex_digit (hex_char n) = Some n"
  by (simp add: hex_digit_def hex_char_def byte_def Let_def)

lemma EncodeRune_byte: "byte c < 128 \<Longrightarrow> EncodeRune (byte c) = [c]"
  by (simp add: EncodeRune_def surrogate_def byte_def Let_def)

lemma byte_iff: "byte c = byte d \<longleftrightarrow> c = d"
  by (simp add: byte_def)

lemma parse_string_escape_ascii:
  assumes "byte c < 128"
  shows "parse_string (escape_ascii c @ t) = map_option (apfst (Cons c)) (parse_string t)"
proof -
  consider (safe) "html_safe c" | (self) "\<not> html_safe c" "byte c \<in> {92, 34}"
    | (control) "\<not> html_safe c" "byte c \<in> {8, 12, 10, 13, 9}"
    | (other) "\<not> html_safe c" "byte c \<notin> {92, 34, 8, 12, 10, 13, 9}"
    by blast
  then show ?thesis
  proof cases
    case safe
    then have "c \<noteq> CHR 0x22" "c \<noteq> CHR 0x5C" "\<not> byte c < 32"
      by (auto simp: html_safe_def byte_def)
    then show ?thesis
      using safe assms by (simp add: escape_ascii_def DecodeRune_ascii RuneError_def append_Cons [abs_def])
  next
    case self
    then have "c = CHR 0x5C \<or> c = CHR 0x22"
      using byte_iff [of c "CHR 0x5C"] byte_iff [of c "CHR 0x22"] by (auto simp: byte_def)
    then show ?thesis
      using self by (auto simp: escape_ascii_def simple_escape_def byte_def html_safe_def)
  next
    case control
    then have "c = CHR 0x08 \<or> c = CHR 0x0C \<or> c = CHR 0x0A \<or> c = CHR 0x0D \<or> c = CHR 0x09"
      using byte_iff [of c "CHR 0x08"] byte_iff [of c "CHR 0x0C"] byte_iff [of c "CHR 0x0A"]
        byte_iff [of c "CHR 0x0D"] byte_iff [of c "CHR 0x09"] by (auto simp: byte_def)
    then show ?thesis
      using control by (auto simp: escape_ascii_def simple_escape_def byte_def html_safe_def)
  next
    case other
    have hex: "hex_digit (hex_char (byte c div 16)) = Some (byte c div 16)" "hex_digit (hex_char (byte c mod 16)) = Some (byte c mod 16)"
      using assms by (simp_all add: hex_digit_hex_char)
    have "unescape_u ([CHR ''0'', CHR ''0'', hex_char (byte c div 16), hex_char (byte c mod 16)] @ t) = Some ([c], 4)"
      using assms hex
      by (simp add: unescape_u_def surrogate_def hex_digit_def [of "CHR ''0''"] byte_def [of "CHR ''0''"] EncodeRune_byte)
    then show ?thesis
      using other by (simp add: escape_ascii_def Let_def byte_def [of "CHR 0x5C"] append_Cons [abs_def])
  qed
qed

lemma parse_string_escape:
  "ascii s \<Longrightarrow> parse_string (escape s @ CHR 0x22 # r) = Some (s, r)"
  by (induction s) (simp_all add: ascii_def parse_string_escape_ascii)

lemma parse_string_quote:
  "ascii s \<Longrightarrow> \<exists>t. quote s @ r = CHR 0x22 # t \<and> parse_string t = Some (s, r)"
  by (simp add: quote_def parse_string_escape)

text \<open>A number ends where no more of its digits, fraction or exponent can follow.\<close>

definition stops :: "string \<Rightarrow> bool" where
  "stops r \<longleftrightarrow> r = [] \<or> \<not> is_digit (hd r) \<and> hd r \<notin> {CHR ''.'', CHR ''e'', CHR ''E''}"

lemma stops_simps [simp]: "stops []" "stops (CHR '','' # r)" "stops (CHR '']'' # r)" "stops (CHR ''}'' # r)"
  "stops (CHR 0x0A # r)"
  by (simp_all add: stops_def is_digit_def)

lemma show_nat_start: "\<exists>c cs. show_nat n = c # cs \<and> is_digit c \<and> (c = CHR ''0'' \<longrightarrow> cs = [])"
proof (induction n rule: show_nat.induct)
  case (1 n)
  show ?case
  proof (cases "n < 10")
    case True
    then show ?thesis by (simp add: show_nat.simps [of n])
  next
    case False
    with 1 obtain c cs where c: "show_nat (n div 10) = c # cs" "is_digit c" "c = CHR ''0'' \<longrightarrow> cs = []" by auto
    have "show_nat (n div 10) \<noteq> ''0''"
    proof
      assume "show_nat (n div 10) = ''0''"
      then have "digits_value ''0'' 0 = Some (n div 10)" using digits_value_show_nat [of "n div 10"] by simp
      then have "n div 10 = 0" by (simp add: is_digit_def)
      with False show False by simp
    qed
    with c False show ?thesis by (simp add: show_nat.simps [of n])
  qed
qed

lemma show_int_start: "\<exists>c cs. show_int i = c # cs \<and> (c = CHR ''-'' \<or> is_digit c)"
  using show_nat_start by (fastforce simp: show_int_def)

lemma scan_digits_show: "stops r \<Longrightarrow> scan_digits (show_nat n @ r) = Some (show_nat n, r)"
proof -
  assume "stops r"
  then have "takeWhile is_digit r = []" "dropWhile is_digit r = r" by (cases r; simp add: stops_def)+
  with show_nat_digits [of _ n] show ?thesis
    by (simp add: scan_digits_def takeWhile_append dropWhile_append)
qed

lemma parse_number_show:
  assumes "stops r"
  shows "parse_number (show_int i @ r) = Some (show_int i, r)"
proof -
  have stop: "scan_fraction r = Some ([], r)" "scan_exponent r = Some ([], r)"
    using assms by (cases r; simp add: stops_def scan_fraction_def scan_exponent_def)+
  have unsigned: "show_nat n @ r = CHR ''0'' # r \<and> show_nat n = ''0'' \<or>
      show_nat n @ r \<noteq> [] \<and> hd (show_nat n @ r) \<notin> {CHR ''0'', CHR ''-''} \<and>
      scan_digits (show_nat n @ r) = Some (show_nat n, r)" for n
    using show_nat_start [of n] scan_digits_show [OF assms, of n] by (auto simp: is_digit_def)
  show ?thesis
  proof (cases "i < 0")
    case True
    then have i: "show_int i = CHR ''-'' # show_nat (nat (- i))" by (simp add: show_int_def)
    from unsigned [of "nat (- i)"] show ?thesis
      by (elim disjE conjE) (simp_all add: parse_number_def i stop del: append_is_Nil_conv hd_append2)
  next
    case False
    then have i: "show_int i = show_nat (nat i)" by (simp add: show_int_def)
    from unsigned [of "nat i"] show ?thesis
      by (elim disjE conjE) (simp_all add: parse_number_def i stop del: append_is_Nil_conv hd_append2)
  qed
qed

lemma parse_value_number:
  assumes "c = CHR ''-'' \<or> is_digit c"
  shows "parse_value (Suc n) d (c # cs) = map_option (apfst JNumber) (parse_number (c # cs))"
proof -
  have "\<not> json_space c" "c \<notin> {CHR 0x22, CHR ''['', CHR ''{'', CHR ''t'', CHR ''f'', CHR ''n''}"
    using assms by (auto simp: json_space_def is_digit_def)
  then show ?thesis by (auto simp: skip_ws_def HasPrefix_def)
qed


lemma show_json_start:
  assumes "plain_json v"
  shows "\<exists>c cs. show_json v = c # cs \<and> \<not> json_space c \<and> c \<noteq> CHR '']''"
proof (cases v)
  case (JNumber n)
  with assms obtain i where "n = show_int i" by (auto split: sum.splits)
  with show_int_start [of i] JNumber show ?thesis by (auto simp: json_space_def is_digit_def)
qed (use assms in \<open>auto simp: quote_def json_space_def\<close>)

lemma skip_ws_show: "plain_json v \<Longrightarrow> skip_ws (show_json v @ r) = show_json v @ r"
  using show_json_start [of v] by (auto simp: skip_ws_def)

lemma skip_ws_id: "\<not> json_space c \<Longrightarrow> skip_ws (c # cs) = c # cs"
  by (simp add: skip_ws_def)

lemma not_space: "\<not> json_space CHR '',''" "\<not> json_space CHR '']''" "\<not> json_space CHR ''}''"
  "\<not> json_space CHR '':''" "\<not> json_space CHR 0x22" "\<not> json_space CHR ''[''" "\<not> json_space CHR ''{''"
  by (simp_all add: json_space_def)

lemmas skip_ws_simps [simp] = not_space [THEN skip_ws_id]

definition parses :: "json \<Rightarrow> bool" where
  "parses v \<longleftrightarrow> (\<forall>n d r. length (show_json v) \<le> n \<longrightarrow> depth v \<le> d \<longrightarrow> (\<forall>m. v = JNumber m \<longrightarrow> stops r) \<longrightarrow>
     parse_value n d (show_json v @ r) = Some (v, r))"

lemma parses_elements:
  assumes "vs \<noteq> []" "\<And>v. v \<in> set vs \<Longrightarrow> parses v" "\<And>v. v \<in> set vs \<Longrightarrow> depth v \<le> d"
    and "length (commas (map show_json vs)) < n"
  shows "parse_elements n d (commas (map show_json vs) @ CHR '']'' # r) = Some (vs, r)"
  using assms
proof (induction vs arbitrary: n rule: induct_list012)
  case (2 v)
  then obtain m where n: "n = Suc m" by (cases n) auto
  have "parse_value m d (show_json v @ CHR '']'' # r) = Some (v, CHR '']'' # r)"
    using 2 unfolding parses_def n by simp
  then show ?case by (simp add: n)
next
  case (3 v w vs)
  then obtain m where n: "n = Suc m" by (cases n) auto
  have "parse_value m d (show_json v @ CHR '','' # commas (map show_json (w # vs)) @ CHR '']'' # r) =
      Some (v, CHR '','' # commas (map show_json (w # vs)) @ CHR '']'' # r)"
    using 3 unfolding parses_def n by simp
  moreover have "parse_elements m d (commas (map show_json (w # vs)) @ CHR '']'' # r) = Some (w # vs, r)"
    by (rule "3.IH"(2)) (use 3 n in auto)
  ultimately show ?case by (simp add: n)
qed simp

abbreviation show_member :: "string \<times> json \<Rightarrow> string" where
  "show_member \<equiv> (\<lambda>(k, v). quote k @ CHR '':'' # show_json v)"

lemma parses_members:
  assumes "kvs \<noteq> []" "\<And>k v. (k, v) \<in> set kvs \<Longrightarrow> parses v \<and> ascii k" "\<And>k v. (k, v) \<in> set kvs \<Longrightarrow> depth v \<le> d"
    and "length (commas (map show_member kvs)) < n"
  shows "parse_members n d (commas (map show_member kvs) @ CHR ''}'' # r) = Some (kvs, r)"
  using assms
proof (induction kvs arbitrary: n rule: induct_list012)
  case (2 kv)
  obtain k v where kv: "kv = (k, v)" by fastforce
  obtain m where n: "n = Suc m" using 2 by (cases n) auto
  obtain t where t: "quote k @ CHR '':'' # show_json v @ CHR ''}'' # r = CHR 0x22 # t"
      "parse_string t = Some (k, CHR '':'' # show_json v @ CHR ''}'' # r)"
    using parse_string_quote [of k] 2(2) [of k v] kv by fastforce
  have "parse_value m d (show_json v @ CHR ''}'' # r) = Some (v, CHR ''}'' # r)"
    using 2 unfolding parses_def n kv by simp
  with t show ?case by (simp add: n kv HasPrefix_def)
next
  case (3 kv w kvs)
  obtain k v where kv: "kv = (k, v)" by fastforce
  let ?rest = "CHR '','' # commas (map show_member (w # kvs)) @ CHR ''}'' # r"
  obtain m where n: "n = Suc m" using 3 by (cases n) auto
  obtain t where t: "quote k @ CHR '':'' # show_json v @ ?rest = CHR 0x22 # t"
      "parse_string t = Some (k, CHR '':'' # show_json v @ ?rest)"
    using parse_string_quote [of k] "3.prems"(2) [of k v] kv by fastforce
  have "parse_value m d (show_json v @ ?rest) = Some (v, ?rest)"
    using "3.prems"(2,3) [of k v] "3.prems"(4) by (simp add: parses_def n kv)
  moreover have "parse_members m d (commas (map show_member (w # kvs)) @ CHR ''}'' # r) = Some (w # kvs, r)"
    by (rule "3.IH"(2)) (use "3.prems" n kv in auto)
  ultimately show ?case using t by (simp add: n kv HasPrefix_def)
qed simp

lemma depth_member: "(k, v) \<in> set kvs \<Longrightarrow> depth v \<le> foldr (\<lambda>(k, v). max (depth v)) kvs 0"
  by (induction kvs) (auto simp: le_max_iff_disj)

lemma depth_element: "v \<in> set vs \<Longrightarrow> depth v \<le> foldr (\<lambda>v. max (depth v)) vs 0"
  by (induction vs) (auto simp: le_max_iff_disj)

lemma commas_Cons: "\<exists>t. commas (x # xs) = x @ t"
  by (cases xs) auto

lemma elements_start:
  assumes "vs \<noteq> []" "list_all plain_json vs"
  shows "skip_ws (commas (map show_json vs) @ t) = commas (map show_json vs) @ t \<and>
    \<not> HasPrefix (commas (map show_json vs) @ t) '']''"
proof -
  obtain v ws where vs: "vs = v # ws" using assms(1) by (cases vs) auto
  obtain u where "commas (map show_json vs) = show_json v @ u" using commas_Cons vs by fastforce
  moreover obtain c cs where "show_json v = c # cs" "\<not> json_space c" "c \<noteq> CHR '']''"
    using show_json_start [of v] assms(2) vs by auto
  ultimately show ?thesis by (auto simp: HasPrefix_def skip_ws_def)
qed

lemma members_start:
  assumes "kvs \<noteq> []"
  shows "skip_ws (commas (map show_member kvs) @ t) = commas (map show_member kvs) @ t \<and>
    \<not> HasPrefix (commas (map show_member kvs) @ t) ''}''"
proof -
  obtain k v ws where kvs: "kvs = (k, v) # ws" using assms by (cases kvs) auto
  obtain u where "commas (map show_member kvs) = quote k @ u"
    using commas_Cons [of "show_member (k, v)" "map show_member ws"] kvs by auto
  then show ?thesis by (auto simp: quote_def HasPrefix_def)
qed

lemma plain_parses: "plain_json v \<Longrightarrow> parses v"
proof (induction v rule: plain_json.induct)
  case (1 n)
  then obtain i where i: "n = show_int i" by (auto split: sum.splits)
  obtain c cs where c: "show_int i = c # cs" "c = CHR ''-'' \<or> is_digit c" using show_int_start by blast
  have num: "parse_number (c # cs @ r) = Some (c # cs, r)" if "stops r" for r
    using parse_number_show [OF that, of i] by (simp add: c)
  have "parse_value (Suc m) d (c # cs @ r) = Some (JNumber (c # cs), r)" if "stops r" for m d r
    unfolding parse_value_number [OF c(2)] num [OF that] by simp
  then show ?case
    by (auto simp: parses_def i c simp del: parse_value.simps dest!: Suc_le_D)
next
  case (2 s)
  then show ?case
    using parse_string_escape [of s]
    by (auto simp: parses_def quote_def gr0_conv_Suc Suc_le_eq dest!: less_imp_Suc_add)
next
  case (3 vs)
  have el: "parses v" if "v \<in> set vs" for v
    using 3 that by (simp add: list_all_iff)
  show ?case unfolding parses_def
  proof (intro allI impI)
    fix n d r assume n: "length (show_json (JArray vs)) \<le> n" and d: "depth (JArray vs) \<le> d"
    obtain m where m: "n = Suc m" using n by (cases n) auto
    have "depth v \<le> d - 1" if "v \<in> set vs" for v
      using depth_element [OF that] d by simp
    from parses_elements [OF _ el this, where n = m and r = r] n have "vs \<noteq> [] \<Longrightarrow>
        parse_elements m (d - 1) (commas (map show_json vs) @ CHR '']'' # r) = Some (vs, r)"
      by (simp add: m)
    with d elements_start [of vs] 3(2) show "parse_value n d (show_json (JArray vs) @ r) = Some (JArray vs, r)"
      by (cases "vs = []") (simp_all add: m HasPrefix_def)
  qed
next
  case (4 kvs)
  have el: "parses v \<and> ascii k" if "(k, v) \<in> set kvs" for k v
    using 4(1) [OF that] 4(2) that by (auto simp: list_all_iff)
  show ?case unfolding parses_def
  proof (intro allI impI)
    fix n d r assume n: "length (show_json (JObject kvs)) \<le> n" and d: "depth (JObject kvs) \<le> d"
    obtain m where m: "n = Suc m" using n by (cases n) auto
    have "depth v \<le> d - 1" if "(k, v) \<in> set kvs" for k v
      using depth_member [OF that] d by simp
    from parses_members [OF _ el this, where n = m and r = r] n have "kvs \<noteq> [] \<Longrightarrow>
        parse_members m (d - 1) (commas (map show_member kvs) @ CHR ''}'' # r) = Some (kvs, r)"
      by (simp add: m)
    with d members_start [of kvs] show "parse_value n d (show_json (JObject kvs) @ r) = Some (JObject kvs, r)"
      by (cases "kvs = []") (simp_all add: m HasPrefix_def)
  qed
qed (auto simp: parses_def skip_ws_def json_space_def HasPrefix_def dest!: Suc_le_D)

lemma parse_show_json:
  assumes "plain_json v" "depth v \<le> 10000"
  shows "parse_json (show_json v) = Some v"
proof -
  have "parse_value (Suc (length (show_json v))) 10000 (show_json v @ []) = Some (v, [])"
    using plain_parses [OF assms(1)] assms(2) unfolding parses_def
    by (metis le_SucI order_refl stops_simps(1))
  then show ?thesis by (simp add: parse_json_def skip_ws_def)
qed

end
