(* ===== verification/Config_Message.thy ===== *)
theory Config_Message
  imports Remotes Json
begin

section \<open>The configuration message\<close>

text \<open>
  Models share/settings/config.go: the JSON text in which a client sends its version and
  remotes, and how the server's decoder fills a configuration from any text. The embedded
  \<open>Remotes\<close> is a field of its type's name. A remote is a pointer there, so an element of
  the list may be nil.
\<close>

subsection \<open>Encoding\<close>

definition remote_json :: "Remote \<Rightarrow> json" where
  "remote_json r = JObject
     [(''LocalHost'', JString (LocalHost r)), (''LocalPort'', JString (LocalPort r)),
      (''LocalProto'', JString (LocalProto r)), (''RemoteHost'', JString (RemoteHost r)),
      (''RemotePort'', JString (RemotePort r)), (''RemoteProto'', JString (RemoteProto r)),
      (''Socks'', JBool (Socks r)), (''Reverse'', JBool (Reverse r)), (''Stdio'', JBool (Stdio r))]"

text \<open>The list of a client without remotes is nil, which is printed as null.\<close>

definition config_json :: "string \<times> Remote list \<Rightarrow> json" where
  "config_json = (\<lambda>(version, remotes). JObject
     [(''Version'', JString version),
      (''Remotes'', if remotes = [] then JNull else JArray (map remote_json remotes))])"

definition EncodeConfig :: "string \<times> Remote list \<Rightarrow> bytes" where
  "EncodeConfig c = show_json (config_json c)"

subsection \<open>Decoding\<close>

text \<open>
  A key names a field if they are equal up to case; the two characters outside ASCII that
  fold to letters are the long s and the Kelvin sign.
\<close>

fun fold_name :: "string \<Rightarrow> string" where
  "fold_name [] = []"
| "fold_name (c # cs) =
     (if HasPrefix (c # cs) [CHR 0xC5, CHR 0xBF] then CHR ''s'' # fold_name (drop 1 cs)
      else if HasPrefix (c # cs) [CHR 0xE2, CHR 0x84, CHR 0xAA] then CHR ''k'' # fold_name (drop 2 cs)
      else lower_char c # fold_name cs)"

definition names_field :: "string \<Rightarrow> string \<Rightarrow> bool" where
  "names_field k name \<longleftrightarrow> fold_name k = ToLower name"

text \<open>Filling a variable that holds \<open>old\<close>; none is a type error. Null changes nothing.\<close>

definition fill_string :: "json \<Rightarrow> string \<Rightarrow> string option" where
  "fill_string v old = (case v of JString s \<Rightarrow> Some s | JNull \<Rightarrow> Some old | _ \<Rightarrow> None)"

definition fill_bool :: "json \<Rightarrow> bool \<Rightarrow> bool option" where
  "fill_bool v old = (case v of JBool b \<Rightarrow> Some b | JNull \<Rightarrow> Some old | _ \<Rightarrow> None)"

definition fill_field :: "string \<Rightarrow> json \<Rightarrow> Remote \<Rightarrow> Remote option" where
  "fill_field k v r =
     (if names_field k ''LocalHost'' then map_option (\<lambda>s. r\<lparr>LocalHost := s\<rparr>) (fill_string v (LocalHost r))
      else if names_field k ''LocalPort'' then map_option (\<lambda>s. r\<lparr>LocalPort := s\<rparr>) (fill_string v (LocalPort r))
      else if names_field k ''LocalProto'' then map_option (\<lambda>s. r\<lparr>LocalProto := s\<rparr>) (fill_string v (LocalProto r))
      else if names_field k ''RemoteHost'' then map_option (\<lambda>s. r\<lparr>RemoteHost := s\<rparr>) (fill_string v (RemoteHost r))
      else if names_field k ''RemotePort'' then map_option (\<lambda>s. r\<lparr>RemotePort := s\<rparr>) (fill_string v (RemotePort r))
      else if names_field k ''RemoteProto'' then map_option (\<lambda>s. r\<lparr>RemoteProto := s\<rparr>) (fill_string v (RemoteProto r))
      else if names_field k ''Socks'' then map_option (\<lambda>b. r\<lparr>Socks := b\<rparr>) (fill_bool v (Socks r))
      else if names_field k ''Reverse'' then map_option (\<lambda>b. r\<lparr>Reverse := b\<rparr>) (fill_bool v (Reverse r))
      else if names_field k ''Stdio'' then map_option (\<lambda>b. r\<lparr>Stdio := b\<rparr>) (fill_bool v (Stdio r))
      else Some r)"

fun fill_remote :: "(string \<times> json) list \<Rightarrow> Remote \<Rightarrow> Remote option" where
  "fill_remote [] r = Some r"
| "fill_remote ((k, v) # kvs) r = Option.bind (fill_field k v r) (fill_remote kvs)"

text \<open>An element of the list is a pointer: null makes it nil, an object fills what it points to.\<close>

definition fill_pointer :: "json \<Rightarrow> Remote option \<Rightarrow> Remote option option" where
  "fill_pointer v old =
     (case v of
        JNull \<Rightarrow> Some None
      | JObject kvs \<Rightarrow> map_option Some (fill_remote kvs (case old of None \<Rightarrow> empty_remote False | Some r \<Rightarrow> r))
      | _ \<Rightarrow> None)"

text \<open>
  A list is filled element by element, over the elements an earlier occurrence of the key
  has left (a key given more than twice is not modelled).
\<close>

fun fill_elements :: "json list \<Rightarrow> Remote option list \<Rightarrow> Remote option list option" where
  "fill_elements [] olds = Some []"
| "fill_elements (v # vs) olds =
     (case fill_pointer v (case olds of [] \<Rightarrow> None | old # _ \<Rightarrow> old) of
        None \<Rightarrow> None
      | Some p \<Rightarrow> map_option (Cons p) (fill_elements vs (tl olds)))"

definition fill_remotes :: "json \<Rightarrow> Remote option list \<Rightarrow> Remote option list option" where
  "fill_remotes v olds = (case v of JNull \<Rightarrow> Some [] | JArray vs \<Rightarrow> fill_elements vs olds | _ \<Rightarrow> None)"

fun fill_config :: "(string \<times> json) list \<Rightarrow> string \<times> Remote option list \<Rightarrow> (string \<times> Remote option list) option" where
  "fill_config [] c = Some c"
| "fill_config ((k, v) # kvs) (version, remotes) =
     (if names_field k ''Version'' then
        Option.bind (fill_string v version) (\<lambda>version. fill_config kvs (version, remotes))
      else if names_field k ''Remotes'' then
        Option.bind (fill_remotes v remotes) (\<lambda>remotes. fill_config kvs (version, remotes))
      else fill_config kvs (version, remotes))"

definition DecodeConfig :: "bytes \<Rightarrow> (string \<times> Remote option list) option" where
  "DecodeConfig b =
     (case parse_json b of
        None \<Rightarrow> None
      | Some JNull \<Rightarrow> Some ('''', [])
      | Some (JObject kvs) \<Rightarrow> fill_config kvs ('''', [])
      | Some _ \<Rightarrow> None)"

subsection \<open>The server reads what the client wrote\<close>

definition ascii_remote :: "Remote \<Rightarrow> bool" where
  "ascii_remote r \<longleftrightarrow> list_all ascii [LocalHost r, LocalPort r, LocalProto r, RemoteHost r, RemotePort r, RemoteProto r]"

lemma fold_name_ascii: "ascii s \<Longrightarrow> fold_name s = ToLower s"
  by (induction s) (auto simp: ascii_def ToLower_def HasPrefix_def byte_def)

lemma names_field_ascii: "ascii k \<Longrightarrow> names_field k name \<longleftrightarrow> ToLower k = ToLower name"
  by (simp add: names_field_def fold_name_ascii)

lemma fill_remote_json: "\<exists>kvs. remote_json r = JObject kvs \<and> fill_remote kvs s = Some r"
  by (simp add: remote_json_def names_field_ascii ascii_def byte_def fill_field_def fill_string_def fill_bool_def
      ToLower_def lower_char_def)

lemma fill_elements_json: "fill_elements (map remote_json rs) [] = Some (map Some rs)"
proof (induction rs)
  case (Cons r rs)
  obtain kvs where "remote_json r = JObject kvs" "fill_remote kvs (empty_remote False) = Some r"
    using fill_remote_json by blast
  with Cons show ?case by (simp add: fill_pointer_def)
qed simp

lemma plain_config:
  assumes "ascii version" "list_all ascii_remote rs"
  shows "plain_json (config_json (version, rs)) \<and> depth (config_json (version, rs)) \<le> 3"
proof -
  have "ascii s" if "s \<in> {''LocalHost'', ''LocalPort'', ''LocalProto'', ''RemoteHost'', ''RemotePort'', ''RemoteProto'',
      ''Socks'', ''Reverse'', ''Stdio'', ''Version'', ''Remotes''}" for s
    using that by (auto simp: ascii_def byte_def)
  moreover have "foldr (\<lambda>v. max (depth v)) (map remote_json rs) 0 \<le> 1"
    by (induction rs) (simp_all add: remote_json_def)
  ultimately show ?thesis
    using assms by (auto simp: config_json_def remote_json_def ascii_remote_def list_all_iff)
qed

lemma DecodeConfig_EncodeConfig:
  assumes "ascii version" "list_all ascii_remote rs"
  shows "DecodeConfig (EncodeConfig (version, rs)) = Some (version, map Some rs)"
proof -
  have "parse_json (EncodeConfig (version, rs)) = Some (config_json (version, rs))"
    using parse_show_json plain_config [OF assms] by (simp add: EncodeConfig_def)
  then show ?thesis
    by (simp add: DecodeConfig_def config_json_def names_field_ascii ascii_def byte_def fill_string_def
        fill_remotes_def fill_elements_json ToLower_def lower_char_def)
qed

text \<open>
  C28: the server reads the configuration the client wrote: the text of a version and
  remotes in ASCII decodes to the same version and the same remotes in order, none nil;
  escapes of quotation marks, control characters and HTML's special ones included.
\<close>

theorem config_roundtrip:
  assumes "ascii version" "list_all ascii_remote rs"
  shows "DecodeConfig (EncodeConfig (version, rs)) = Some (version, map Some rs)"
  by (rule DecodeConfig_EncodeConfig [OF assms])

theorem config_roundtrip_witness:
  "DecodeConfig (EncodeConfig (''0.0.0-src'', [sample_remote])) = Some (''0.0.0-src'', [Some sample_remote])"
proof -
  have "ascii ''0.0.0-src''" "list_all ascii_remote [sample_remote]"
    by (simp_all add: ascii_def byte_def ascii_remote_def sample_remote_def)
  from config_roundtrip [OF this] show ?thesis by simp
qed

end
