(* ===== verification/Client_Setup.thy ===== *)
theory Client_Setup
  imports Go_Strings "HOL-Library.AList"
begin

section \<open>Starting a client\<close>

text \<open>
  Models client-main/main.go and client/authfile.go: how the command line, the user's
  auth.json and the options file make a client's configuration. The flags are those of the
  flag package after parsing, by name, with their current and default texts; the contents
  of the files are the decoded JSON, absent where loading fails.
\<close>

subsection \<open>Headers\<close>

text \<open>
  \<open>http.Header.Set\<close> stores under the canonical key: upper case at the start and after a
  hyphen, lower case elsewhere, for keys that are tokens; other keys are kept. The client
  only sets headers, so that each has one value. \<open>TrimSpace\<close> is that of ASCII text.
\<close>

type_synonym headers = "(string \<times> string) list"

definition upper_char :: "char \<Rightarrow> char" where
  "upper_char c = (let n = (of_char c :: nat) in if 97 \<le> n \<and> n \<le> 122 then char_of (n - 32) else c)"

fun canonical_from :: "bool \<Rightarrow> string \<Rightarrow> string" where
  "canonical_from up [] = []"
| "canonical_from up (c # cs) =
     (if up then upper_char c else lower_char c) # canonical_from (c = CHR ''-'') cs"

definition token_char :: "char \<Rightarrow> bool" where
  "token_char c =
     (let n = (of_char c :: nat) in
      48 \<le> n \<and> n \<le> 57 \<or> 65 \<le> n \<and> n \<le> 90 \<or> 97 \<le> n \<and> n \<le> 122 \<or>
      n \<in> {33, 35, 36, 37, 38, 39, 42, 43, 45, 46, 94, 95, 96, 124, 126})"

definition canonical_key :: "string \<Rightarrow> string" where
  "canonical_key k = (if list_all token_char k then canonical_from True k else k)"

definition Header_Set :: "string \<Rightarrow> string \<Rightarrow> headers \<Rightarrow> headers" where
  "Header_Set k v h = AList.update (canonical_key k) v h"

definition is_space :: "char \<Rightarrow> bool" where
  "is_space c = (let n = (of_char c :: nat) in 9 \<le> n \<and> n \<le> 13 \<or> n = 32)"

definition TrimSpace :: "string \<Rightarrow> string" where
  "TrimSpace s = rev (dropWhile is_space (rev (dropWhile is_space s)))"

text \<open>The flag \<open>--header\<close>: none for an argument without a colon.\<close>

definition headerFlags_Set :: "string \<Rightarrow> headers \<Rightarrow> headers option" where
  "headerFlags_Set arg h =
     (if CHR '':'' \<notin> set arg then None
      else (let key = takeWhile (\<lambda>c. c \<noteq> CHR '':'') arg;
                value = tl (dropWhile (\<lambda>c. c \<noteq> CHR '':'') arg)
            in Some (Header_Set key (TrimSpace value) h)))"

text \<open>The headers in the order in which the loop visits them.\<close>

fun headerFlags_String :: "headers \<Rightarrow> string" where
  "headerFlags_String [] = ''''"
| "headerFlags_String ((k, v) # hs) = k @ '': ['' @ v @ '']'' @ [CHR 0x0A] @ headerFlags_String hs"

subsection \<open>Files\<close>

record AuthConfig =
  auth_ID :: string
  auth_Name :: string
  AccessToken :: string
  MachineID :: string
  BaseUrl :: string

record OptionsConfig =
  opt_Options :: "(string \<times> string) list"
  opt_Headers :: "(string \<times> string) list"
  opt_Server :: string
  opt_Remotes :: "string list"

text \<open>\<open>LoadAuthFile\<close>: no file name is no configuration and no error.\<close>

datatype 'c load_result = NoFile | ReadError | ParseError | Loaded 'c

definition LoadAuthFile :: "(string \<Rightarrow> bytes option) \<Rightarrow> (bytes \<Rightarrow> 'c option) \<Rightarrow> string \<Rightarrow> 'c load_result" where
  "LoadAuthFile read_file unmarshal filename =
     (if filename = '''' then NoFile
      else (case read_file filename of
              None \<Rightarrow> ReadError
            | Some data \<Rightarrow> (case unmarshal data of None \<Rightarrow> ParseError | Some c \<Rightarrow> Loaded c)))"

text \<open>\<open>loadAuth\<close> and \<open>loadOptions\<close>: a missing file is an error like an unreadable one.\<close>

definition load_json :: "(string \<Rightarrow> bytes option) \<Rightarrow> (bytes \<Rightarrow> 'c option) \<Rightarrow> string \<Rightarrow> 'c option" where
  "load_json read_file unmarshal path = Option.bind (read_file path) unmarshal"

subsection \<open>Flags\<close>

text \<open>
  A flag's current and default texts. \<open>set_flag name v\<close> is the text of the flag after its
  value is set to \<open>v\<close>, absent if that fails.
\<close>

type_synonym flags = "string \<rightharpoonup> (string \<times> string)"

definition flag_value :: "string \<Rightarrow> flags \<Rightarrow> string" where
  "flag_value name fs = (case fs name of None \<Rightarrow> '''' | Some (cur, _) \<Rightarrow> cur)"

definition flag_assign :: "string \<Rightarrow> string \<Rightarrow> flags \<Rightarrow> flags" where
  "flag_assign name v fs = (case fs name of None \<Rightarrow> fs | Some (_, d) \<Rightarrow> fs(name \<mapsto> (v, d)))"

text \<open>
  The first loop of \<open>parseImplicitArgs\<close>, in the order the map is visited: an option sets a
  flag that still has its default text. The flag \<open>header\<close> is the client's header map itself:
  its text is empty exactly when the map is, and setting it adds a header.
\<close>

fun implicit_options ::
  "(string \<Rightarrow> string \<Rightarrow> string option) \<Rightarrow> (string \<times> string) list \<Rightarrow> flags \<times> headers \<Rightarrow> (flags \<times> headers) option" where
  "implicit_options set_flag [] s = Some s"
| "implicit_options set_flag ((k, v) # opts) (fs, h) =
     (if k = ''header'' then
        (if h = [] then
           (case headerFlags_Set v h of
              None \<Rightarrow> None
            | Some h' \<Rightarrow> implicit_options set_flag opts (fs, h'))
         else implicit_options set_flag opts (fs, h))
      else
        (case fs k of
           None \<Rightarrow> None
         | Some (current, def) \<Rightarrow>
             (if current = def then
                (case set_flag k v of
                   None \<Rightarrow> None
                 | Some t \<Rightarrow> implicit_options set_flag opts (fs(k \<mapsto> (t, def)), h))
              else implicit_options set_flag opts (fs, h))))"

fun set_headers :: "(string \<times> string) list \<Rightarrow> headers \<Rightarrow> headers" where
  "set_headers [] h = h"
| "set_headers ((k, v) # kvs) h = set_headers kvs (Header_Set k v h)"

definition parseImplicitArgs ::
  "(string \<Rightarrow> string \<Rightarrow> string option) \<Rightarrow> OptionsConfig \<Rightarrow> flags \<times> headers \<Rightarrow> (flags \<times> headers) option" where
  "parseImplicitArgs set_flag opts s =
     (case implicit_options set_flag (opt_Options opts) s of
        None \<Rightarrow> None
      | Some (fs, h) \<Rightarrow> Some (fs, set_headers (opt_Headers opts) h))"

subsection \<open>main\<close>

datatype client_fatal = ImplicitArgsFailed | ServerRequired | RemotesRequired

record client_setup =
  setup_flags :: flags
  setup_headers :: headers
  setup_Remotes :: "string list"
  setup_Auth :: string
  setup_ServerName :: string

definition apply_auth :: "AuthConfig option \<Rightarrow> flags \<times> headers \<Rightarrow> flags \<times> headers" where
  "apply_auth auths = (\<lambda>(fs, h).
     (case auths of
        None \<Rightarrow> (fs, h)
      | Some a \<Rightarrow>
          (let h = Header_Set ''X-Client-Id'' (MachineID a) h;
               h = Header_Set ''X-User-Id'' (auth_ID a) h;
               h = Header_Set ''Authorization'' (''Bearer '' @ AccessToken a) h;
               fs = (if flag_value ''server'' fs = '''' then flag_assign ''server'' (BaseUrl a @ ''/ws'') fs else fs)
           in (fs, h))))"

definition apply_options ::
  "(string \<Rightarrow> string \<Rightarrow> string option) \<Rightarrow> OptionsConfig option \<Rightarrow> flags \<times> headers \<Rightarrow>
   (flags \<times> headers \<times> string list) option" where
  "apply_options set_flag opts s =
     (case opts of
        None \<Rightarrow> Some (fst s, snd s, [])
      | Some o' \<Rightarrow>
          (case parseImplicitArgs set_flag o' s of
             None \<Rightarrow> None
           | Some (fs, h) \<Rightarrow>
               Some (if opt_Server o' \<noteq> '''' then flag_assign ''server'' (opt_Server o') fs else fs, h,
                     if length (opt_Remotes o') > 0 then opt_Remotes o' else [])))"

definition set_if :: "string \<Rightarrow> string \<Rightarrow> headers \<Rightarrow> headers" where
  "set_if k v h = (if v \<noteq> '''' then Header_Set k v h else h)"

definition client_main ::
  "(string \<Rightarrow> string \<Rightarrow> string option) \<Rightarrow> (string \<Rightarrow> string) \<Rightarrow> AuthConfig option \<Rightarrow> OptionsConfig option \<Rightarrow>
   flags \<Rightarrow> headers \<Rightarrow> string list \<Rightarrow> client_fatal + client_setup" where
  "client_main set_flag getenv auths opts fs h args =
     (case apply_options set_flag opts (apply_auth auths (fs, h)) of
        None \<Rightarrow> Inl ImplicitArgsFailed
      | Some (fs, h, remotes) \<Rightarrow>
          (let remotes = (if length args > 0 then remotes @ args else remotes) in
           if flag_value ''server'' fs = '''' then Inl ServerRequired
           else if length remotes = 0 then Inl RemotesRequired
           else
             (let auth = (if flag_value ''auth'' fs = '''' then getenv ''AUTH'' else flag_value ''auth'' fs);
                  hostname = flag_value ''hostname'' fs; sni = flag_value ''sni'' fs;
                  h = set_if ''Host'' hostname h;
                  name = (if sni \<noteq> '''' then sni else hostname);
                  h = set_if ''X-Client-Id'' (flag_value ''client-id'' fs) h;
                  h = set_if ''X-App-Name'' (flag_value ''app-name'' fs) h;
                  h = set_if ''X-User-Id'' (flag_value ''user-id'' fs) h
              in Inr \<lparr>setup_flags = fs, setup_headers = h, setup_Remotes = remotes,
                      setup_Auth = auth, setup_ServerName = name\<rparr>)))"

subsection \<open>Which source wins\<close>

lemma map_of_Header_Set [simp]:
  "map_of (Header_Set k v h) = (map_of h)(canonical_key k \<mapsto> v)"
  by (simp add: Header_Set_def update_conv')

lemma Header_Set_not_Nil [simp]: "Header_Set k v h \<noteq> []"
  by (simp add: Header_Set_def update_nonempty)

lemma map_of_set_headers:
  "map_of (set_headers kvs h) = map_of h ++ map_of (rev (map (\<lambda>(k, v). (canonical_key k, v)) kvs))"
  by (induction kvs h rule: set_headers.induct) (auto simp: map_add_def fun_eq_iff split: option.splits)

text \<open>Options leave a flag alone that has been given, and headers once there is one.\<close>

lemma implicit_options_keep:
  "implicit_options set_flag opts (fs, h) = Some (fs', h') \<Longrightarrow> fs k = Some (c, d) \<Longrightarrow> c \<noteq> d \<Longrightarrow>
   fs' k = Some (c, d)"
proof (induction opts arbitrary: fs h)
  case (Cons kv opts)
  obtain k' v where kv: "kv = (k', v)" by (cases kv)
  note step = Cons.prems(1)[unfolded kv, simplified]
  show ?case
  proof (cases "fs k'")
    case None
    with step Cons.IH[of fs, OF _ Cons.prems(2,3)] show ?thesis by (simp split: if_splits option.splits)
  next
    case (Some cd)
    obtain c' d' where "cd = (c', d')" by (cases cd)
    with Some have k': "fs k' = Some (c', d')" by simp
    have upd: "(fs(k' \<mapsto> (t, d'))) k = Some (c, d)" if "c' = d'" for t
      using k' that Cons.prems(2,3) by auto
    have ih: "fs' k = Some (c, d)" if "implicit_options set_flag opts (fs(k' \<mapsto> (t, d')), h) = Some (fs', h')" "c' = d'" for t h
      using Cons.IH[OF that(1) upd[OF that(2)] Cons.prems(3)] .
    from step k' Cons.IH[of fs, OF _ Cons.prems(2,3)] show ?thesis
      by (auto simp del: fun_upd_apply intro: ih split: if_splits option.splits)
  qed
qed simp

lemma implicit_options_headers:
  "implicit_options set_flag opts (fs, h) = Some (fs', h') \<Longrightarrow> h \<noteq> [] \<Longrightarrow> h' = h"
proof (induction opts arbitrary: fs)
  case (Cons kv opts)
  obtain k v where kv: "kv = (k, v)" by (cases kv)
  from Cons.prems(1)[unfolded kv] Cons.prems(2) Cons.IH[OF _ Cons.prems(2)] show ?case
    by (simp split: if_splits option.splits prod.splits)
qed simp

text \<open>
  Where the client's server address comes from: when the client starts, it is the options
  file's server if there is one; else the command line's; else, with an auth.json, that
  file's base URL. The options file so overrides even a server given on the command line.
\<close>
lemma client_server_precedence:
  assumes "client_main set_flag getenv auths opts fs h args = Inr s"
    and "fs ''server'' = Some (cmd, '''')"
    and "cmd \<noteq> '''' \<or> auths \<noteq> None"
  shows "flag_value ''server'' (setup_flags s) =
    (let given = (if cmd \<noteq> '''' then cmd
                  else case auths of None \<Rightarrow> '''' | Some a \<Rightarrow> BaseUrl a @ ''/ws'')
     in case opts of
          None \<Rightarrow> given
        | Some o' \<Rightarrow> if opt_Server o' \<noteq> '''' then opt_Server o' else given)"
proof -
  define given where "given = (if cmd \<noteq> '''' then cmd
                  else case auths of None \<Rightarrow> '''' | Some a \<Rightarrow> BaseUrl a @ ''/ws'')"
  obtain fs1 h1 where a: "apply_auth auths (fs, h) = (fs1, h1)" by (cases "apply_auth auths (fs, h)")
  have one: "fs1 ''server'' = Some (given, '''')" "given \<noteq> ''''"
    using a assms(2,3)
    by (auto simp: apply_auth_def given_def flag_value_def flag_assign_def Let_def split: option.splits if_splits)
  from assms(1) obtain fs2 h2 rs where b: "apply_options set_flag opts (fs1, h1) = Some (fs2, h2, rs)"
      and s: "setup_flags s = fs2"
    by (auto simp: client_main_def a Let_def split: option.splits if_splits)
  show ?thesis
  proof (cases opts)
    case None
    with b s one show ?thesis by (simp add: apply_options_def flag_value_def given_def)
  next
    case (Some o')
    with b obtain fs3 h3 where i: "implicit_options set_flag (opt_Options o') (fs1, h1) = Some (fs3, h3)"
        and fs2: "fs2 = (if opt_Server o' \<noteq> '''' then flag_assign ''server'' (opt_Server o') fs3 else fs3)"
      by (auto simp: apply_options_def parseImplicitArgs_def split: option.splits)
    from implicit_options_keep[OF i one] have "fs3 ''server'' = Some (given, '''')" .
    with fs2 s Some show ?thesis by (simp add: flag_value_def flag_assign_def Let_def flip: given_def)
  qed
qed

definition sample_auth :: AuthConfig where
  "sample_auth = \<lparr>auth_ID = ''u1'', auth_Name = ''ann'', AccessToken = ''tok'', MachineID = ''m1'', BaseUrl = ''https://a''\<rparr>"

definition sample_options :: OptionsConfig where
  "sample_options = \<lparr>opt_Options = [(''proxy'', ''http://p'')], opt_Headers = [(''x-client-id'', ''m2'')],
     opt_Server = ''wss://opts'', opt_Remotes = [''R:8080'']\<rparr>"

definition sample_flags :: flags where
  "sample_flags = [''server'' \<mapsto> (''http://cmd'', ''''), ''proxy'' \<mapsto> ('''', ''''),
     ''client-id'' \<mapsto> ('''', '''')]"

lemmas sample_client = sample_auth_def sample_options_def sample_flags_def

lemma sample_client_starts:
  "\<exists>s. client_main (\<lambda>k. Some) (\<lambda>_. '''') (Some sample_auth) (Some sample_options) sample_flags [] [] = Inr s \<and>
     flag_value ''client-id'' (setup_flags s) = ''''"
  by (simp add: client_main_def sample_client apply_options_def apply_auth_def parseImplicitArgs_def
        flag_value_def flag_assign_def Let_def)

lemma client_server_precedence_witness:
  "flag_value ''server'' (setup_flags (projr (client_main (\<lambda>k. Some) (\<lambda>_. '''') (Some sample_auth)
     (Some sample_options) sample_flags [] []))) = ''wss://opts''"
proof -
  obtain s where s: "client_main (\<lambda>k. Some) (\<lambda>_. '''') (Some sample_auth)
     (Some sample_options) sample_flags [] [] = Inr s"
    using sample_client_starts by blast
  show ?thesis
    using client_server_precedence[OF s, of "''http://cmd''"] unfolding s
    by (simp add: sample_options_def sample_flags_def)
qed

text \<open>
  Which client identity the client announces, for a client with an auth.json: the
  command line's or an option's \<open>client-id\<close>, else the last \<open>X-Client-Id\<close> of the options
  file's headers, in whatever letter case, else the machine id of auth.json, whatever header
  was given with \<open>--header\<close>.
\<close>
lemma client_id_precedence:
  assumes "client_main set_flag getenv (Some a) opts fs h args = Inr s"
  shows "map_of (setup_headers s) ''X-Client-Id'' =
    (let cid = flag_value ''client-id'' (setup_flags s);
         given = map_of (rev (map (\<lambda>(k, v). (canonical_key k, v))
                   (case opts of None \<Rightarrow> [] | Some o' \<Rightarrow> opt_Headers o'))) ''X-Client-Id''
     in if cid \<noteq> '''' then Some cid
        else case given of Some v \<Rightarrow> Some v | None \<Rightarrow> Some (MachineID a))"
proof -
  have keys: "canonical_key ''X-Client-Id'' = ''X-Client-Id''" "canonical_key ''X-User-Id'' = ''X-User-Id''"
    "canonical_key ''Authorization'' = ''Authorization''" "canonical_key ''Host'' = ''Host''"
    "canonical_key ''X-App-Name'' = ''X-App-Name''"
    by code_simp+
  obtain fs1 h1 where a: "apply_auth (Some a) (fs, h) = (fs1, h1)" by (cases "apply_auth (Some a) (fs, h)")
  have one: "h1 \<noteq> []" "map_of h1 ''X-Client-Id'' = Some (MachineID a)"
    using a by (auto simp: apply_auth_def Let_def keys)
  from assms(1) obtain fs2 h2 rs where b: "apply_options set_flag opts (fs1, h1) = Some (fs2, h2, rs)"
      and s: "setup_flags s = fs2"
        "map_of (setup_headers s) ''X-Client-Id'' =
          (if flag_value ''client-id'' fs2 \<noteq> '''' then Some (flag_value ''client-id'' fs2)
           else map_of h2 ''X-Client-Id'')"
    by (auto simp: client_main_def a Let_def set_if_def keys split: option.splits if_splits)
  have "map_of h2 ''X-Client-Id'' =
      (case map_of (rev (map (\<lambda>(k, v). (canonical_key k, v))
                   (case opts of None \<Rightarrow> [] | Some o' \<Rightarrow> opt_Headers o'))) ''X-Client-Id'' of
         Some v \<Rightarrow> Some v | None \<Rightarrow> Some (MachineID a))"
  proof (cases opts)
    case None
    with b one show ?thesis by (simp add: apply_options_def)
  next
    case (Some o')
    with b obtain fs3 h3 where i: "implicit_options set_flag (opt_Options o') (fs1, h1) = Some (fs3, h3)"
        and h2: "h2 = set_headers (opt_Headers o') h3"
      by (auto simp: apply_options_def parseImplicitArgs_def split: option.splits)
    from implicit_options_headers[OF i one(1)] h2 one Some show ?thesis
      by (auto simp: map_of_set_headers map_add_def split: option.split)
  qed
  with s show ?thesis by (simp add: Let_def)
qed

lemma client_id_precedence_witness:
  "map_of (setup_headers (projr (client_main (\<lambda>k. Some) (\<lambda>_. '''') (Some sample_auth)
     (Some sample_options) sample_flags [] []))) ''X-Client-Id'' = Some ''m2''"
proof -
  obtain s where s: "client_main (\<lambda>k. Some) (\<lambda>_. '''') (Some sample_auth)
     (Some sample_options) sample_flags [] [] = Inr s" and "flag_value ''client-id'' (setup_flags s) = ''''"
    using sample_client_starts by blast
  moreover have "canonical_key ''x-client-id'' = ''X-Client-Id''" by code_simp
  ultimately show ?thesis
    using client_id_precedence[OF s] by (simp add: s sample_options_def)
qed

end
