(* ===== verification/Json_Files.thy ===== *)
theory Json_Files
  imports Config_Message Client_Setup Session
begin

section \<open>The JSON files\<close>

text \<open>
  How encoding/json fills the Go types of the program's files from their texts: the users of
  a server (share/settings/users.go), the client's auth.json and options file
  (client-main/main.go) and its authentication file (client/authfile.go). A Go map is its
  list of entries in the order in which a loop visits it, which is the order of the text
  followed by a permutation that is a parameter.
\<close>

subsection \<open>Filling lists, maps and pointers\<close>

fun fill_strings :: "json list \<Rightarrow> string list \<Rightarrow> string list option" where
  "fill_strings [] olds = Some []"
| "fill_strings (v # vs) olds =
     (case fill_string v (case olds of [] \<Rightarrow> '''' | old # _ \<Rightarrow> old) of
        None \<Rightarrow> None
      | Some s \<Rightarrow> map_option (Cons s) (fill_strings vs (tl olds)))"

definition fill_string_list :: "json \<Rightarrow> string list \<Rightarrow> string list option" where
  "fill_string_list v olds = (case v of JNull \<Rightarrow> Some [] | JArray vs \<Rightarrow> fill_strings vs olds | _ \<Rightarrow> None)"

text \<open>Each value of a map fills a fresh element; a key given again replaces it.\<close>

fun fill_entries :: "(json \<Rightarrow> 'v option) \<Rightarrow> (string \<times> json) list \<Rightarrow> (string \<times> 'v) list \<Rightarrow> (string \<times> 'v) list option" where
  "fill_entries fill [] m = Some m"
| "fill_entries fill ((k, v) # kvs) m = Option.bind (fill v) (\<lambda>x. fill_entries fill kvs (AList.update k x m))"

definition fill_map :: "(json \<Rightarrow> 'v option) \<Rightarrow> json \<Rightarrow> (string \<times> 'v) list \<Rightarrow> (string \<times> 'v) list option" where
  "fill_map fill v m = (case v of JNull \<Rightarrow> Some [] | JObject kvs \<Rightarrow> fill_entries fill kvs m | _ \<Rightarrow> None)"

definition fill_string_map :: "json \<Rightarrow> (string \<times> string) list \<Rightarrow> (string \<times> string) list option" where
  "fill_string_map = fill_map (\<lambda>v. fill_string v '''')"

text \<open>A pointer: null makes it nil, another value fills what it points to.\<close>

definition fill_ptr :: "(json \<Rightarrow> 'v \<Rightarrow> 'v option) \<Rightarrow> 'v \<Rightarrow> json \<Rightarrow> 'v option \<Rightarrow> 'v option option" where
  "fill_ptr fill zero v old =
     (if v = JNull then Some None
      else map_option Some (fill v (case old of None \<Rightarrow> zero | Some x \<Rightarrow> x)))"

text \<open>A struct: \<open>fill\<close> fills the field a key names and ignores other keys.\<close>

fun fill_fields :: "(string \<Rightarrow> json \<Rightarrow> 'r \<Rightarrow> 'r option) \<Rightarrow> (string \<times> json) list \<Rightarrow> 'r \<Rightarrow> 'r option" where
  "fill_fields fill [] r = Some r"
| "fill_fields fill ((k, v) # kvs) r = Option.bind (fill k v r) (fill_fields fill kvs)"

definition fill_struct :: "(string \<Rightarrow> json \<Rightarrow> 'r \<Rightarrow> 'r option) \<Rightarrow> json \<Rightarrow> 'r \<Rightarrow> 'r option" where
  "fill_struct fill v r = (case v of JNull \<Rightarrow> Some r | JObject kvs \<Rightarrow> fill_fields fill kvs r | _ \<Rightarrow> None)"

text \<open>A \<open>Decoder\<close> reads the first value of a file and leaves the rest.\<close>

definition decode_first :: "bytes \<Rightarrow> json option" where
  "decode_first b = map_option fst (parse_value (Suc (length b)) 10000 b)"

subsection \<open>The users of a server\<close>

definition decode_users :: "bytes \<Rightarrow> raw_users option" where
  "decode_users b = Option.bind (parse_json b) (\<lambda>v. fill_map (\<lambda>v. fill_string_list v []) v [])"

text \<open>The users in the order in which the loop visits them.\<close>

definition visited_users :: "(raw_users \<Rightarrow> raw_users) \<Rightarrow> bytes \<Rightarrow> raw_users option" where
  "visited_users perm b = map_option perm (decode_users b)"

subsection \<open>The client's files\<close>

definition fill_AuthConfig :: "string \<Rightarrow> json \<Rightarrow> AuthConfig \<Rightarrow> AuthConfig option" where
  "fill_AuthConfig k v a =
     (if names_field k ''id'' then map_option (\<lambda>s. a\<lparr>auth_ID := s\<rparr>) (fill_string v (auth_ID a))
      else if names_field k ''name'' then map_option (\<lambda>s. a\<lparr>auth_Name := s\<rparr>) (fill_string v (auth_Name a))
      else if names_field k ''access_token'' then map_option (\<lambda>s. a\<lparr>AccessToken := s\<rparr>) (fill_string v (AccessToken a))
      else if names_field k ''machine_id'' then map_option (\<lambda>s. a\<lparr>MachineID := s\<rparr>) (fill_string v (MachineID a))
      else if names_field k ''base_url'' then map_option (\<lambda>s. a\<lparr>BaseUrl := s\<rparr>) (fill_string v (BaseUrl a))
      else Some a)"

definition decode_auth :: "bytes \<Rightarrow> AuthConfig option" where
  "decode_auth b = Option.bind (decode_first b) (\<lambda>v. fill_struct fill_AuthConfig v
     \<lparr>auth_ID = '''', auth_Name = '''', AccessToken = '''', MachineID = '''', BaseUrl = ''''\<rparr>)"

definition fill_OptionsConfig :: "string \<Rightarrow> json \<Rightarrow> OptionsConfig \<Rightarrow> OptionsConfig option" where
  "fill_OptionsConfig k v c =
     (if names_field k ''options'' then map_option (\<lambda>m. c\<lparr>opt_Options := m\<rparr>) (fill_string_map v (opt_Options c))
      else if names_field k ''headers'' then map_option (\<lambda>m. c\<lparr>opt_Headers := m\<rparr>) (fill_string_map v (opt_Headers c))
      else if names_field k ''server'' then map_option (\<lambda>s. c\<lparr>opt_Server := s\<rparr>) (fill_string v (opt_Server c))
      else if names_field k ''remotes'' then map_option (\<lambda>l. c\<lparr>opt_Remotes := l\<rparr>) (fill_string_list v (opt_Remotes c))
      else Some c)"

text \<open>\<open>perm\<close> is the order in which the two maps are visited.\<close>

definition decode_options ::
  "((string \<times> string) list \<Rightarrow> (string \<times> string) list) \<Rightarrow> bytes \<Rightarrow> OptionsConfig option" where
  "decode_options perm b = map_option (\<lambda>c. c\<lparr>opt_Options := perm (opt_Options c), opt_Headers := perm (opt_Headers c)\<rparr>)
     (Option.bind (parse_json b) (\<lambda>v. fill_struct fill_OptionsConfig v
        \<lparr>opt_Options = [], opt_Headers = [], opt_Server = '''', opt_Remotes = []\<rparr>))"

subsection \<open>The authentication file\<close>

record AuthTLSConfig =
  atls_CA :: "string option"
  atls_SkipVerify :: "bool option"
  atls_Cert :: "string option"
  atls_Key :: "string option"

record AuthFileConfig =
  af_Fingerprint :: "string option"
  af_Auth :: "string option"
  af_TLS :: "AuthTLSConfig option"
  af_Headers :: "(string \<times> string) list option"
  af_Hostname :: "string option"
  af_SNI :: "string option"
  af_ClientID :: "string option"
  af_AppName :: "string option"
  af_UserID :: "string option"

definition fill_AuthTLSConfig :: "string \<Rightarrow> json \<Rightarrow> AuthTLSConfig \<Rightarrow> AuthTLSConfig option" where
  "fill_AuthTLSConfig k v t =
     (if names_field k ''ca'' then map_option (\<lambda>p. t\<lparr>atls_CA := p\<rparr>) (fill_ptr fill_string '''' v (atls_CA t))
      else if names_field k ''skip_verify'' then map_option (\<lambda>p. t\<lparr>atls_SkipVerify := p\<rparr>) (fill_ptr fill_bool False v (atls_SkipVerify t))
      else if names_field k ''cert'' then map_option (\<lambda>p. t\<lparr>atls_Cert := p\<rparr>) (fill_ptr fill_string '''' v (atls_Cert t))
      else if names_field k ''key'' then map_option (\<lambda>p. t\<lparr>atls_Key := p\<rparr>) (fill_ptr fill_string '''' v (atls_Key t))
      else Some t)"

definition fill_AuthFileConfig :: "string \<Rightarrow> json \<Rightarrow> AuthFileConfig \<Rightarrow> AuthFileConfig option" where
  "fill_AuthFileConfig k v c =
     (if names_field k ''fingerprint'' then map_option (\<lambda>p. c\<lparr>af_Fingerprint := p\<rparr>) (fill_ptr fill_string '''' v (af_Fingerprint c))
      else if names_field k ''auth'' then map_option (\<lambda>p. c\<lparr>af_Auth := p\<rparr>) (fill_ptr fill_string '''' v (af_Auth c))
      else if names_field k ''tls'' then map_option (\<lambda>p. c\<lparr>af_TLS := p\<rparr>)
        (fill_ptr (fill_struct fill_AuthTLSConfig) \<lparr>atls_CA = None, atls_SkipVerify = None, atls_Cert = None, atls_Key = None\<rparr>
           v (af_TLS c))
      else if names_field k ''headers'' then map_option (\<lambda>p. c\<lparr>af_Headers := p\<rparr>) (fill_ptr fill_string_map [] v (af_Headers c))
      else if names_field k ''hostname'' then map_option (\<lambda>p. c\<lparr>af_Hostname := p\<rparr>) (fill_ptr fill_string '''' v (af_Hostname c))
      else if names_field k ''sni'' then map_option (\<lambda>p. c\<lparr>af_SNI := p\<rparr>) (fill_ptr fill_string '''' v (af_SNI c))
      else if names_field k ''clientId'' then map_option (\<lambda>p. c\<lparr>af_ClientID := p\<rparr>) (fill_ptr fill_string '''' v (af_ClientID c))
      else if names_field k ''appName'' then map_option (\<lambda>p. c\<lparr>af_AppName := p\<rparr>) (fill_ptr fill_string '''' v (af_AppName c))
      else if names_field k ''userId'' then map_option (\<lambda>p. c\<lparr>af_UserID := p\<rparr>) (fill_ptr fill_string '''' v (af_UserID c))
      else Some c)"

definition decode_authfile :: "bytes \<Rightarrow> AuthFileConfig option" where
  "decode_authfile b = Option.bind (parse_json b) (\<lambda>v. fill_struct fill_AuthFileConfig v
     \<lparr>af_Fingerprint = None, af_Auth = None, af_TLS = None, af_Headers = None, af_Hostname = None, af_SNI = None,
       af_ClientID = None, af_AppName = None, af_UserID = None\<rparr>)"

subsection \<open>Users from a file's text\<close>

definition users_json :: "raw_users \<Rightarrow> json" where
  "users_json us = JObject (map (\<lambda>(auth, rs). (auth, JArray (map JString rs))) us)"

definition user_name :: "string \<times> string list \<Rightarrow> string" where
  "user_name e = fst (ParseAuth (fst e))"

definition ascii_users :: "raw_users \<Rightarrow> bool" where
  "ascii_users us \<longleftrightarrow> list_all (\<lambda>(auth, rs). ascii auth \<and> list_all ascii rs) us"

lemma users_json_plain:
  assumes "ascii_users us"
  shows "plain_json (users_json us) \<and> depth (users_json us) \<le> 2"
proof -
  have inner: "foldr (\<lambda>v. max (depth v)) (map JString rs) 0 = 0" for rs by (induction rs) simp_all
  have "foldr (\<lambda>(k, v). max (depth v)) (map (\<lambda>(auth, rs). (auth, JArray (map JString rs))) us) 0 \<le> 1"
    by (induction us) (auto simp: inner)
  with assms show ?thesis by (auto simp: users_json_def ascii_users_def list_all_iff)
qed

lemma fill_strings_all: "fill_strings (map JString rs) [] = Some rs"
  by (induction rs) (simp_all add: fill_string_def)

lemma fill_users:
  assumes "distinct (map fst (m @ us))"
  shows "fill_entries (\<lambda>v. fill_string_list v []) (map (\<lambda>(auth, rs). (auth, JArray (map JString rs))) us) m = Some (m @ us)"
  using assms
proof (induction us arbitrary: m)
  case (Cons e us)
  obtain auth rs where e: "e = (auth, rs)" by fastforce
  have "AList.update auth rs m = m @ [(auth, rs)]"
    using Cons.prems by (induction m) (auto simp: e)
  with Cons.IH [of "m @ [(auth, rs)]"] Cons.prems show ?case
    by (simp add: e fill_string_list_def fill_strings_all)
qed simp

lemma distinct_names_auths: "distinct (map user_name us) \<Longrightarrow> distinct (map fst us)"
proof (induction us)
  case (Cons e us)
  moreover have "fst e \<notin> fst ` set us"
  proof
    assume "fst e \<in> fst ` set us"
    then obtain f where "f \<in> set us" "fst e = fst f" by auto
    then have "user_name e = user_name f" "user_name f \<in> user_name ` set us" by (simp_all add: user_name_def)
    with Cons.prems show False by simp
  qed
  ultimately show ?case by simp
qed simp

lemma decode_users_json:
  assumes "ascii_users us" "distinct (map fst us)"
  shows "decode_users (show_json (users_json us)) = Some us"
proof -
  have "parse_json (show_json (users_json us)) = Some (users_json us)"
    using parse_show_json users_json_plain [OF assms(1)] by simp
  then show ?thesis
    using fill_users [of "[]" us] assms(2)
    by (simp add: decode_users_def users_json_def fill_map_def)
qed

lemma last_entry_distinct:
  assumes "distinct (map user_name raw)"
  shows "last_entry n raw = Some e \<longleftrightarrow> e \<in> set raw \<and> user_name e = n"
proof -
  have find: "distinct (map user_name xs) \<Longrightarrow> find (\<lambda>e. user_name e = n) xs = Some e \<longleftrightarrow> e \<in> set xs \<and> user_name e = n" for xs
    by (induction xs) (auto simp: image_iff)
  have "distinct (map user_name (rev raw))" using assms unfolding rev_map [symmetric] by simp
  from find [OF this] show ?thesis by (simp add: last_entry_def user_name_def)
qed

text \<open>
  What the users of a server do when they come from the entries of a decoded text, in the order in which
  they were visited: the last entry for a name counts. Without entries everyone is let in; otherwise a
  login is accepted for the password of the name's entry, and the user may reach an address exactly when one
  of the entry's patterns is empty, a star or matches it.
\<close>

definition users_admit ::
  "(string \<Rightarrow> 're option) \<Rightarrow> ('re \<Rightarrow> string \<Rightarrow> bool) \<Rightarrow> raw_users \<Rightarrow> 're UserIndex \<Rightarrow> bool" where
  "users_admit compile matches us i \<longleftrightarrow>
     (\<forall>s sid n p. index s = i \<longrightarrow>
        (fst (authUser sid n p s) \<longleftrightarrow> us = [] \<or> (\<exists>auth rs. last_entry n us = Some (auth, rs) \<and> ParseAuth auth = (n, p)))) \<and>
     (\<forall>n auth rs. last_entry n us = Some (auth, rs) \<longrightarrow> (\<exists>user. Users_Get n (inner i) = Some user \<and>
        (\<forall>addr. HasAccess matches user addr \<longleftrightarrow> (\<exists>r\<in>set rs. wildcard r \<or> matches (the (compile r)) addr))))"

lemma last_entryD: "last_entry n us = Some e \<Longrightarrow> e \<in> set us \<and> user_name e = n"
  by (auto simp: last_entry_def user_name_def find_Some_iff) (metis length_rev nth_mem set_rev)

lemma last_entry_None: "(\<forall>n. last_entry n us = None) \<longleftrightarrow> us = []"
proof
  assume "\<forall>n. last_entry n us = None"
  then show "us = []" by (cases us) (auto simp: last_entry_def find_None_iff)
qed (simp add: last_entry_def)

lemma users_admitI:
  assumes get: "\<And>n. Users_Get n (inner i) = map_option (entry_user compile allow_all) (last_entry n us)"
    and all: "\<And>addr. matches allow_all addr"
  shows "users_admit compile matches us i"
proof -
  have empty: "inner i = fmempty \<longleftrightarrow> us = []"
  proof -
    have "inner i = fmempty \<longleftrightarrow> (\<forall>n. Users_Get n (inner i) = None)"
      by (auto simp: Users_Get_def intro: fmap_ext)
    then show ?thesis by (simp add: get last_entry_None)
  qed
  have entry: "fst (ParseAuth auth) = n" if "last_entry n us = Some (auth, rs)" for n auth rs
    using last_entryD [OF that] by (simp add: user_name_def)
  have "fst (authUser sid n p s) \<longleftrightarrow> us = [] \<or> (\<exists>auth rs. last_entry n us = Some (auth, rs) \<and> ParseAuth auth = (n, p))"
    if "index s = i" for s :: "'a Server" and sid n p
  proof (cases "last_entry n us")
    case None
    with that get [of n] empty show ?thesis by (simp add: authUser_cases)
  next
    case (Some e)
    obtain auth rs where e: "e = (auth, rs)" by (cases e)
    have "us \<noteq> []" using last_entryD [OF Some] by auto
    with that get [of n] Some entry [of n auth rs] show ?thesis
      by (auto simp: authUser_cases e entry_user_def prod_eq_iff)
  qed
  moreover have "HasAccess matches (entry_user compile allow_all (auth, rs)) addr \<longleftrightarrow>
      (\<exists>r\<in>set rs. wildcard r \<or> matches (the (compile r)) addr)" for auth rs addr
    using all by (auto simp: entry_user_def HasAccess_iff addr_pattern_matches [where matches = matches, OF all]
        simp del: image_iff)
  ultimately show ?thesis by (simp add: users_admit_def get)
qed

text \<open>
  C20: what the text of an auth file does, whatever bytes it has and in whatever order the decoded
  map is visited. A text that does not decode, or has an entry without a name or with a pattern that does not compile, is
  an error that leaves the users as they were. Any other text replaces them by those it spells: the
  server accepts exactly their names with their passwords, each for the addresses of his list, and
  everyone if the text spells none, as \<open>{}\<close> and \<open>null\<close> do. If no two entries have the same name, every
  entry counts; if some have, one of them does. And the text that prints a list of users in ASCII
  decodes to that list.
\<close>

theorem users_file_means:
  assumes path: "configFile u \<noteq> ''''" "read_file (configFile u) = Some b"
    and perm: "\<And>raw. mset (perm raw) = mset raw" and all: "\<And>addr. matches allow_all addr"
  shows "(case decode_users b of
      None \<Rightarrow> \<exists>e. loadUserIndex compile allow_all read_file (visited_users perm) u = (Some e, u)
    | Some us \<Rightarrow>
        if list_all (entry_ok compile) us
        then \<exists>u'. loadUserIndex compile allow_all read_file (visited_users perm) u = (None, u') \<and>
          users_admit compile matches (perm us) u' \<and>
          (distinct (map user_name us) \<longrightarrow> (\<forall>n e. last_entry n (perm us) = Some e \<longleftrightarrow> e \<in> set us \<and> user_name e = n)) \<and>
          (\<forall>e\<in>set us. \<exists>e'\<in>set us. last_entry (user_name e) (perm us) = Some e' \<and> user_name e' = user_name e)
        else \<exists>e. loadUserIndex compile allow_all read_file (visited_users perm) u = (Some e, u)) \<and>
    decode_users ''{}'' = Some [] \<and> decode_users ''null'' = Some [] \<and>
    (\<forall>us. ascii_users us \<and> distinct (map fst us) \<longrightarrow> decode_users (show_json (users_json us)) = Some us)"
proof (intro conjI allI impI)
  let ?load = "loadUserIndex compile allow_all read_file (visited_users perm) u"
  show "case decode_users b of
      None \<Rightarrow> \<exists>e. ?load = (Some e, u)
    | Some us \<Rightarrow>
        if list_all (entry_ok compile) us
        then \<exists>u'. ?load = (None, u') \<and> users_admit compile matches (perm us) u' \<and>
          (distinct (map user_name us) \<longrightarrow> (\<forall>n e. last_entry n (perm us) = Some e \<longleftrightarrow> e \<in> set us \<and> user_name e = n)) \<and>
          (\<forall>e\<in>set us. \<exists>e'\<in>set us. last_entry (user_name e) (perm us) = Some e' \<and> user_name e' = user_name e)
        else \<exists>e. ?load = (Some e, u)"
  proof (cases "decode_users b")
    case None
    with path show ?thesis by (simp add: loadUserIndex_def visited_users_def)
  next
    case (Some us)
    then have raw: "visited_users perm b = Some (perm us)" by (simp add: visited_users_def)
    have same: "set (perm us) = set us" using perm [of us] by (metis set_mset_mset)
    obtain e u' where load: "?load = (e, u')" by fastforce
    note effect = loadUserIndex_effect [OF path raw load]
    have ok: "list_all (entry_ok compile) (perm us) = list_all (entry_ok compile) us" by (simp add: list_all_iff same)
    have counts: "\<exists>e'\<in>set us. last_entry (user_name e) (perm us) = Some e' \<and> user_name e' = user_name e"
      if "e \<in> set us" for e
    proof -
      have "last_entry (user_name e) (perm us) \<noteq> None"
        using that same by - (cases e, auto simp: last_entry_def find_None_iff user_name_def)
      then obtain e' where "last_entry (user_name e) (perm us) = Some e'" by blast
      with last_entryD [OF this] same show ?thesis by auto
    qed
    have unique: "last_entry n (perm us) = Some e \<longleftrightarrow> e \<in> set us \<and> user_name e = n" if "distinct (map user_name us)" for n e
    proof -
      have "distinct (map user_name (perm us))" using that perm [of us] by (metis mset_map mset_eq_imp_distinct_iff)
      from last_entry_distinct [OF this] show ?thesis by (simp add: same)
    qed
    show ?thesis
    proof (cases "list_all (entry_ok compile) us")
      case True
      with effect ok have "e = None" "\<And>n. Users_Get n (inner u') = map_option (entry_user compile allow_all) (last_entry n (perm us))"
        by simp_all
      with users_admitI [of u' compile allow_all "perm us" matches] all load counts unique True Some show ?thesis by auto
    next
      case False
      with effect ok load Some show ?thesis by auto
    qed
  qed
  show "decode_users ''{}'' = Some []" "decode_users ''null'' = Some []" by code_simp+
  show "decode_users (show_json (users_json us)) = Some us" if "ascii_users us \<and> distinct (map fst us)" for us
    using that decode_users_json by blast
qed

text \<open>The text of the sample file, which names one user twice.\<close>

definition sample_file :: bytes where
  "sample_file = show_json (users_json sample_raw)"

lemma sample_file_users: "visited_users id sample_file = Some sample_raw"
proof -
  have "ascii_users sample_raw" "distinct (map fst sample_raw)"
    by (simp_all add: sample_raw_def ascii_users_def ascii_def byte_def)
  then show ?thesis by (simp add: visited_users_def sample_file_def decode_users_json)
qed

text \<open>A file without users, like no file at all, lets everyone in.\<close>

lemma empty_file_opens:
  assumes "configFile u \<noteq> ''''" "read_file (configFile u) = Some b" "b \<in> {''{}'', ''null''}"
  shows "\<exists>u'. loadUserIndex compile allow_all read_file (visited_users id) u = (None, u') \<and>
    (\<forall>s sid n p. index s = u' \<longrightarrow> fst (authUser sid n p s))"
proof -
  have "decode_users ''{}'' = Some []" "decode_users ''null'' = Some []" by code_simp+
  then have "visited_users id b = Some []" using assms(3) by (auto simp: visited_users_def)
  then have "loadUserIndex compile allow_all read_file (visited_users id) u = (None, u\<lparr>inner := fmempty\<rparr>)"
    using assms(1,2) by (simp add: loadUserIndex_def Users_Reset_def)
  moreover have "index s = u\<lparr>inner := fmempty\<rparr> \<Longrightarrow> fst (authUser sid n p s)" for s sid n p
    by (simp add: authUser_def)
  ultimately show ?thesis by blast
qed

theorem users_file_means_witness:
  "\<exists>u'. loadUserIndex sample_compile '''' (\<lambda>_. Some (show_json (users_json [(''eve:pw'', [''*'']), (''bob:new'', [''db:22''])])))
        (visited_users rev) sample_index = (None, u') \<and>
    fst (authUser ''id'' ''bob'' ''new'' (sample_server\<lparr>index := u'\<rparr>)) \<and>
    \<not> fst (authUser ''id'' ''bob'' ''old'' (sample_server\<lparr>index := u'\<rparr>))"
proof -
  let ?us = "[(''eve:pw'', [''*'']), (''bob:new'', [''db:22''])]"
  let ?read = "\<lambda>_. Some (show_json (users_json ?us))"
  have auths: "ParseAuth ''eve:pw'' = (''eve'', ''pw'')" "ParseAuth ''bob:new'' = (''bob'', ''new'')"
    by (simp_all add: ParseAuth_def SplitN2_def)
  have us: "ascii_users ?us" "distinct (map fst ?us)" "list_all (entry_ok sample_compile) ?us"
    by (simp_all add: ascii_users_def ascii_def byte_def auths entry_ok_def sample_compile_def wildcard_def)
  have path: "configFile sample_index \<noteq> ''''" "?read (configFile sample_index) = Some (show_json (users_json ?us))"
    by (simp_all add: sample_index_def)
  have "decode_users (show_json (users_json ?us)) = Some ?us" using decode_users_json [OF us(1,2)] .
  with users_file_means [OF path, of rev sample_matches "''''" sample_compile] us(3)
  obtain u' where u': "loadUserIndex sample_compile '''' ?read (visited_users rev) sample_index = (None, u')"
    "users_admit sample_compile sample_matches (rev ?us) u'" by (auto simp: sample_matches_def)
  have "last_entry ''bob'' (rev ?us) = Some (''bob:new'', [''db:22''])" by (simp add: last_entry_def auths)
  with u'(2) have "fst (authUser sid ''bob'' p s) \<longleftrightarrow> p = ''new''" if "index s = u'" for sid p and s :: "string Server"
    using that by (auto simp: users_admit_def auths)
  with u'(1) show ?thesis by auto
qed

subsection \<open>The client's files from their texts\<close>

definition auth_json :: "AuthConfig \<Rightarrow> json" where
  "auth_json a = JObject
     [(''id'', JString (auth_ID a)), (''name'', JString (auth_Name a)), (''access_token'', JString (AccessToken a)),
      (''machine_id'', JString (MachineID a)), (''base_url'', JString (BaseUrl a))]"

lemma decode_first_show:
  assumes "plain_json v" "depth v \<le> 10000" "\<And>m. v \<noteq> JNumber m"
  shows "decode_first (show_json v @ rest) = Some v"
proof -
  have "parse_value (Suc (length (show_json v @ rest))) 10000 (show_json v @ rest) = Some (v, rest)"
    using plain_parses [OF assms(1)] assms(2, 3) by (auto simp: parses_def simp del: parse_value.simps)
  then show ?thesis by (simp add: decode_first_def del: parse_value.simps)
qed

text \<open>auth.json is read back as it was written, whatever stands after its first value.\<close>

lemma decode_auth_json:
  assumes "list_all ascii [auth_ID a, auth_Name a, AccessToken a, MachineID a, BaseUrl a]"
  shows "decode_auth (show_json (auth_json a) @ rest) = Some a"
proof -
  have keys: "ascii k" if "k \<in> {''id'', ''name'', ''access_token'', ''machine_id'', ''base_url''}" for k
    using that by (auto simp: ascii_def byte_def)
  then have "plain_json (auth_json a)" "depth (auth_json a) \<le> 10000"
    using assms by (simp_all add: auth_json_def)
  then have "decode_first (show_json (auth_json a) @ rest) = Some (auth_json a)"
    by (rule decode_first_show) (simp add: auth_json_def)
  then show ?thesis
    using keys by (simp add: decode_auth_def auth_json_def fill_struct_def fill_AuthConfig_def fill_string_def
        names_field_ascii ToLower_def lower_char_def)
qed

definition options_json :: "OptionsConfig \<Rightarrow> json" where
  "options_json c = JObject
     [(''options'', JObject (map (\<lambda>(k, v). (k, JString v)) (opt_Options c))),
      (''headers'', JObject (map (\<lambda>(k, v). (k, JString v)) (opt_Headers c))),
      (''server'', JString (opt_Server c)), (''remotes'', JArray (map JString (opt_Remotes c)))]"

definition ascii_map :: "(string \<times> string) list \<Rightarrow> bool" where
  "ascii_map m \<longleftrightarrow> list_all (\<lambda>(k, v). ascii k \<and> ascii v) m \<and> distinct (map fst m)"

lemma fill_string_entries:
  assumes "distinct (map fst (m @ kvs))"
  shows "fill_entries (\<lambda>v. fill_string v '''') (map (\<lambda>(k, v). (k, JString v)) kvs) m = Some (m @ kvs)"
  using assms
proof (induction kvs arbitrary: m)
  case (Cons e kvs)
  obtain k v where e: "e = (k, v)" by fastforce
  have "AList.update k v m = m @ [(k, v)]" using Cons.prems by (induction m) (auto simp: e)
  with Cons.IH [of "m @ [(k, v)]"] Cons.prems show ?case by (simp add: e fill_string_def)
qed simp

lemma fill_string_map_json: "ascii_map m \<Longrightarrow> fill_string_map (JObject (map (\<lambda>(k, v). (k, JString v)) m)) [] = Some m"
  using fill_string_entries [of "[]" m] by (simp add: fill_string_map_def fill_map_def ascii_map_def)

lemma map_json_plain:
  assumes "ascii_map m"
  shows "plain_json (JObject (map (\<lambda>(k, v). (k, JString v)) m))" "depth (JObject (map (\<lambda>(k, v). (k, JString v)) m)) \<le> 1"
proof -
  have "foldr (\<lambda>(k, v). max (depth v)) (map (\<lambda>(k, v). (k, JString v)) m) 0 = 0" for m :: "(string \<times> string) list"
    by (induction m) auto
  with assms show "plain_json (JObject (map (\<lambda>(k, v). (k, JString v)) m))"
    "depth (JObject (map (\<lambda>(k, v). (k, JString v)) m)) \<le> 1"
    by (auto simp: ascii_map_def list_all_iff)
qed

text \<open>The options file is read back as it was written, its maps in the order they are visited.\<close>

lemma decode_options_json:
  assumes "ascii_map (opt_Options c)" "ascii_map (opt_Headers c)" "ascii (opt_Server c)" "list_all ascii (opt_Remotes c)"
  shows "decode_options perm (show_json (options_json c)) =
    Some (c\<lparr>opt_Options := perm (opt_Options c), opt_Headers := perm (opt_Headers c)\<rparr>)"
proof -
  have keys: "ascii k" if "k \<in> {''options'', ''headers'', ''server'', ''remotes''}" for k
    using that by (auto simp: ascii_def byte_def)
  have "foldr (\<lambda>v. max (depth v)) (map JString rs) 0 = 0" for rs by (induction rs) simp_all
  then have "plain_json (options_json c)" "depth (options_json c) \<le> 10000"
    using assms keys map_json_plain [OF assms(1)] map_json_plain [OF assms(2)]
    by (simp_all add: options_json_def list_all_iff)
  with parse_show_json have "parse_json (show_json (options_json c)) = Some (options_json c)" by blast
  then show ?thesis
    using keys assms by (simp add: decode_options_def options_json_def fill_struct_def fill_OptionsConfig_def
        fill_string_def fill_string_list_def fill_strings_all fill_string_map_json names_field_ascii ToLower_def lower_char_def)
qed

end
