(* ===== verification/Server_Setup.thy ===== *)
theory Server_Setup
  imports Session Keys Environment Json_Files
begin

section \<open>Setting a server up\<close>

text \<open>
  Models the rest of server/server.go (making a server, starting it,
  the reclaiming timer, managing users), server/server_listen.go (the choice of a TLS
  configuration) and the defaults of server-main/main.go. The operating system, the SSH
  and TLS libraries and the encodings of keys are parameters.
\<close>

subsection \<open>Making a server\<close>

record ('re, 'pt) server_env =
  env_compile :: "string \<Rightarrow> 're option"
  env_allow_all :: 're
  env_read_file :: "string \<Rightarrow> bytes option"
  env_visit :: "raw_users \<Rightarrow> raw_users"
  env_watcher :: bool
  env_watch :: "string \<Rightarrow> bool"
  env_marshal :: "'pt PrivateKey \<Rightarrow> bytes option"
  env_parse :: "bytes \<Rightarrow> 'pt PrivateKey option"
  env_pem :: "bytes \<Rightarrow> bytes"
  env_sha512 :: "bytes \<Rightarrow> bytes"
  env_sha256 :: "bytes \<Rightarrow> bytes"
  env_curve :: "'pt curve"
  env_fresh :: "'pt PrivateKey option"
  env_public_key :: "bytes \<Rightarrow> bytes option"
  env_url_host :: "string \<Rightarrow> string option"

text \<open>
  The errors \<open>NewServer\<close> returns, and those on which it ends the process
  (\<open>log.Fatal\<close>).
\<close>

datatype server_error =
    LoadUsersFailed LoadError
  | BadProxy
  | MissingProtocol
  | FatalKeyFile
  | FatalInvalidKey
  | FatalKeyGen
  | FatalKeyParse

text \<open>The PEM text of the server's private key.\<close>

definition server_pem :: "('re, 'pt) server_env \<Rightarrow> ServerConfig \<Rightarrow> server_error + bytes" where
  "server_pem env c =
     (if KeyFile c \<noteq> '''' then
        (case (if IsCotunKey (KeyFile c) then Some (KeyFile c) else env_read_file env (KeyFile c)) of
           None \<Rightarrow> Inl FatalKeyFile
         | Some key \<Rightarrow>
             (if IsCotunKey key then
                (case CotunKey2PEM (env_marshal env) (env_parse env) (env_pem env) key of
                   None \<Rightarrow> Inl FatalInvalidKey
                 | Some b \<Rightarrow> Inr b)
              else Inr key))
      else (case Seed2PEM (env_marshal env) (env_pem env) (env_sha512 env) (env_curve env) (env_fresh env) (KeySeed c) of
              None \<Rightarrow> Inl FatalKeyGen
            | Some b \<Rightarrow> Inr b))"

definition auth_user :: "'re \<Rightarrow> string \<Rightarrow> 're users \<Rightarrow> 're users" where
  "auth_user allow_all auth m =
     (if auth \<noteq> '''' then
        (let (n, p) = ParseAuth auth in
         if n \<noteq> '''' then Users_AddUser \<lparr>Name = n, Pass = p, Addrs = [allow_all]\<rparr> m else m)
      else m)"

definition NewServer :: "('re, 'pt) server_env \<Rightarrow> ServerConfig \<Rightarrow> server_error + (string \<times> 're Server)" where
  "NewServer env c =
     (case (if AuthFile c \<noteq> ''''
            then LoadUsers (env_compile env) (env_allow_all env) (env_read_file env) (visited_users (env_visit env))
                   (env_watcher env) (env_watch env) (AuthFile c) NewUserIndex
            else (None, NewUserIndex)) of
        (Some e, _) \<Rightarrow> Inl (LoadUsersFailed e)
      | (None, idx) \<Rightarrow>
          (let idx = idx\<lparr>inner := auth_user (env_allow_all env) (Auth c) (inner idx)\<rparr> in
           case server_pem env c of
             Inl e \<Rightarrow> Inl e
           | Inr pemBytes \<Rightarrow>
               (case env_public_key env pemBytes of
                  None \<Rightarrow> Inl FatalKeyParse
                | Some pub \<Rightarrow>
                    (let fp = FingerprintKey (env_sha256 env) pub;
                         s = \<lparr>config = c, sessCount = 0, sessions = NewUsers, index = idx,
                              reverseProxy = None, allocator = NewPortAllocator (MinPort c) (MaxPort c)\<rparr>
                     in if ProxyURL c \<noteq> '''' then
                          (case env_url_host env (ProxyURL c) of
                             None \<Rightarrow> Inl BadProxy
                           | Some host \<Rightarrow>
                               (if host = '''' then Inl MissingProtocol
                                else Inr (fp, s\<lparr>reverseProxy := Some host\<rparr>)))
                        else Inr (fp, s)))))"

subsection \<open>Managing users\<close>

definition Server_AddUser :: "(string \<Rightarrow> 're option) \<Rightarrow> string \<Rightarrow> string \<Rightarrow> string list \<Rightarrow> 're Server \<Rightarrow> bool \<times> 're Server" where
  "Server_AddUser compile user pass addrs s =
     (if None \<in> set (map compile addrs) then (False, s)
      else (True, s\<lparr>index := (index s)\<lparr>inner := Users_AddUser
              \<lparr>Name = user, Pass = pass, Addrs = map (the \<circ> compile) addrs\<rparr> (inner (index s))\<rparr>\<rparr>))"

definition Server_DeleteUser :: "string \<Rightarrow> 're Server \<Rightarrow> 're Server" where
  "Server_DeleteUser user s = s\<lparr>index := (index s)\<lparr>inner := Users_Del user (inner (index s))\<rparr>\<rparr>"

definition Server_ResetUsers :: "'re User list \<Rightarrow> 're Server \<Rightarrow> 're Server" where
  "Server_ResetUsers users s = s\<lparr>index := (index s)\<lparr>inner := Users_Reset users (inner (index s))\<rparr>\<rparr>"

subsection \<open>The reclaiming timer\<close>

text \<open>
  The loop's events: a tick, with its time and the order in which Go visits the allocator's
  map then, or the context done. The result is what each tick freed.
\<close>

datatype timer_event = Tick time "string list" | CtxDone

fun RunFreeHangingTimer ::
  "timer_event list \<Rightarrow> PortAllocator \<Rightarrow>
   go_panic + (PortAllocation list list \<times> PortAllocator)" where
  "RunFreeHangingTimer [] pa = Inr ([], pa)"
| "RunFreeHangingTimer (CtxDone # es) pa = Inr ([], pa)"
| "RunFreeHangingTimer (Tick now order # es) pa =
     (case FreeHangingPorts now order pa of
        Inl p \<Rightarrow> Inl p
      | Inr (frees, pa') \<Rightarrow>
          (case RunFreeHangingTimer es pa' of
             Inl p \<Rightarrow> Inl p
           | Inr (rest, pa'') \<Rightarrow> Inr (frees # rest, pa'')))"

subsection \<open>Listening\<close>

datatype tls_kind =
    PlainHTTP
  | LetsEncrypt "string list" string "string option"
  | KeyCert string string "string option"

datatype listen_outcome =
    BothTLS
  | KeyPairError
  | CAError
  | ListenError
  | ListeningOn tls_kind string string

text \<open>
  \<open>stat\<close> says of a path whether it is a directory (none on an error), \<open>read_dir\<close> gives a
  directory's file names, \<open>join\<close> is filepath.Join.
\<close>

definition addPEMFile :: "(string \<Rightarrow> bytes option) \<Rightarrow> (bytes \<Rightarrow> bool) \<Rightarrow> string \<Rightarrow> bool" where
  "addPEMFile read_file certs_ok path =
     (case read_file path of None \<Rightarrow> False | Some content \<Rightarrow> if \<not> certs_ok content then False else True)"

fun addPEMFiles :: "(string \<Rightarrow> bool) \<Rightarrow> string list \<Rightarrow> bool" where
  "addPEMFiles add [] = True"
| "addPEMFiles add (f # fs) = (if \<not> add f then False else addPEMFiles add fs)"

definition addCA ::
  "(string \<Rightarrow> bool option) \<Rightarrow> (string \<Rightarrow> string list option) \<Rightarrow> (string \<Rightarrow> string \<Rightarrow> string) \<Rightarrow>
   (string \<Rightarrow> bytes option) \<Rightarrow> (bytes \<Rightarrow> bool) \<Rightarrow> string \<Rightarrow> bool" where
  "addCA stat read_dir join read_file certs_ok ca =
     (case stat ca of
        None \<Rightarrow> False
      | Some is_dir \<Rightarrow>
          (if is_dir then
             (case read_dir ca of
                None \<Rightarrow> False
              | Some files \<Rightarrow> addPEMFiles (\<lambda>f. addPEMFile read_file certs_ok (join ca f)) files)
           else addPEMFile read_file certs_ok ca))"

text \<open>The certificate cache: the variable, \<open>-\<close> for none, by default under the home directory.\<close>

definition le_cache :: "(string \<Rightarrow> string) \<Rightarrow> string option \<Rightarrow> (string \<Rightarrow> string) \<Rightarrow> string option" where
  "le_cache getenv home_dir cache_under =
     (let c = Env getenv ''LE_CACHE'';
          c = (if c = '''' then
                 (let h = getenv ''HOME'';
                      h = (if h = '''' then (case home_dir of Some d \<Rightarrow> d | None \<Rightarrow> h) else h)
                  in cache_under h)
               else c)
      in if c \<noteq> ''-'' then Some c else None)"

definition tlsLetsEncrypt ::
  "(string \<Rightarrow> string) \<Rightarrow> string option \<Rightarrow> (string \<Rightarrow> string) \<Rightarrow> string list \<Rightarrow> tls_kind" where
  "tlsLetsEncrypt getenv home_dir cache_under domains =
     LetsEncrypt domains (Env getenv ''LE_EMAIL'') (le_cache getenv home_dir cache_under)"

definition tlsKeyCert ::
  "(string \<Rightarrow> string \<Rightarrow> bool) \<Rightarrow> (string \<Rightarrow> bool) \<Rightarrow> string \<Rightarrow> string \<Rightarrow> string \<Rightarrow> listen_outcome + tls_kind" where
  "tlsKeyCert load_pair ca_ok key cert ca =
     (if \<not> load_pair cert key then Inl KeyPairError
      else if ca \<noteq> '''' \<and> \<not> ca_ok ca then Inl CAError
      else Inr (KeyCert key cert (if ca \<noteq> '''' then Some ca else None)))"

definition server_listener ::
  "(string list \<Rightarrow> tls_kind) \<Rightarrow> (string \<Rightarrow> string \<Rightarrow> bool) \<Rightarrow> (string \<Rightarrow> bool) \<Rightarrow> (string \<Rightarrow> bool) \<Rightarrow> ServerConfig \<Rightarrow>
   string \<Rightarrow> string \<Rightarrow> listen_outcome" where
  "server_listener lets_encrypt load_pair ca_ok listens c host port =
     (let hasDomains = length (TLSDomains c) > 0;
          hasKeyCert = TLSKey c \<noteq> '''' \<and> TLSCert c \<noteq> ''''
      in if hasDomains \<and> hasKeyCert then BothTLS
         else
           (let tlsConf = (if hasDomains then lets_encrypt (TLSDomains c) else PlainHTTP);
                keyed =
                  (if hasKeyCert then
                     (case tlsKeyCert load_pair ca_ok (TLSKey c) (TLSCert c) (TLSCA c) of
                        Inl e \<Rightarrow> Inl e
                      | Inr conf \<Rightarrow>
                          Inr (conf, if port \<noteq> ''443'' \<and> hasDomains
                            then '' (WARNING: LetsEncrypt will attempt to connect to your domain on port 443)''
                            else ''''))
                   else Inr (tlsConf, ''''))
            in case keyed of
                 Inl e \<Rightarrow> e
               | Inr (tlsConf, extra) \<Rightarrow>
                   (let addr = host @ '':'' @ port in
                    if \<not> listens addr then ListenError
                    else ListeningOn tlsConf
                           ((if tlsConf \<noteq> PlainHTTP then ''https'' else ''http'') @ ''://'' @ addr) extra)))"

text \<open>
  \<open>StartContext\<close>: an error of the listener, or what runs from then on: the client server,
  the control plane if a port is set and it can be listened on (an error there is dropped),
  and the timer.
\<close>

datatype service = ClientService string | ControlService string | TimerService

definition startControlServer :: "(string \<Rightarrow> bool) \<Rightarrow> ServerConfig \<Rightarrow> service option" where
  "startControlServer listens c =
     (let addr = ''0.0.0.0'' @ '':'' @ ControlPort c in
      if \<not> listens addr then None else Some (ControlService addr))"

definition StartContext :: "listen_outcome \<Rightarrow> (string \<Rightarrow> bool) \<Rightarrow> ServerConfig \<Rightarrow> listen_outcome + service list" where
  "StartContext l listens c =
     (case l of
        ListeningOn t url extra \<Rightarrow>
          Inr ((if ControlPort c \<noteq> '''' then (case startControlServer listens c of None \<Rightarrow> [] | Some sv \<Rightarrow> [sv]) else []) @
               [TimerService, ClientService url])
      | e \<Rightarrow> Inl e)"

subsection \<open>Defaults of the server's command line\<close>

record server_flags =
  flag_host :: string
  flag_p :: string
  flag_port :: string
  flag_config :: ServerConfig

definition default_to :: "string \<Rightarrow> string \<Rightarrow> string" where
  "default_to s d = (if s = '''' then d else s)"

definition server_main :: "(string \<Rightarrow> string) \<Rightarrow> server_flags \<Rightarrow> string \<times> string \<times> ServerConfig" where
  "server_main getenv f =
     (let host = default_to (default_to (flag_host f) (getenv ''HOST'')) ''0.0.0.0'';
          port = default_to (default_to (default_to (flag_port f) (flag_p f)) (getenv ''PORT'')) ''8080'';
          c = flag_config f;
          c = (if KeyFile c = '''' then c\<lparr>KeyFile := Env getenv ''KEY_FILE''\<rparr>
               else if KeySeed c = '''' then c\<lparr>KeySeed := Env getenv ''KEY''\<rparr> else c);
          c = (if Auth c = '''' then c\<lparr>Auth := getenv ''AUTH''\<rparr> else c)
      in (host, port, c))"

definition multiFlag_Set :: "string \<Rightarrow> string list \<Rightarrow> string list" where
  "multiFlag_Set arg values = values @ [arg]"

definition multiFlag_String :: "string list \<Rightarrow> string" where
  "multiFlag_String values = Join values '', ''"

subsection \<open>What the timer does\<close>

text \<open>The times of the ticks before the context is done.\<close>

fun ticks :: "timer_event list \<Rightarrow> time list" where
  "ticks [] = []"
| "ticks (CtxDone # es) = []"
| "ticks (Tick now order # es) = now # ticks es"

text \<open>Each tick's order visits every key of the map at that time.\<close>

fun timer_orders :: "timer_event list \<Rightarrow> PortAllocator \<Rightarrow> bool" where
  "timer_orders [] pa = True"
| "timer_orders (CtxDone # es) pa = True"
| "timer_orders (Tick now order # es) pa =
     (enumerates order (names pa) \<and>
      (case FreeHangingPorts now order pa of Inl p \<Rightarrow> True | Inr (frees, pa') \<Rightarrow> timer_orders es pa'))"

text \<open>
  The timer's loop never panics and keeps the ports exclusive; when it stops, exactly
  those leases are gone that had hung for more than ten minutes at one of its ticks, and
  every other lease is as it was.
\<close>

lemma timer_reclaims:
  assumes ex: "pa_exclusive pa" and orders: "timer_orders es pa"
  shows "\<exists>frees pa'. RunFreeHangingTimer es pa = Inr (frees, pa') \<and> pa_exclusive pa' \<and>
    leases pa' = (\<lambda>k. case leases pa k of None \<Rightarrow> None
      | Some v \<Rightarrow> if \<exists>now \<in> set (ticks es). hangs now v then None else Some v)"
  using ex orders
proof (induction es arbitrary: pa)
  case Nil
  then show ?case by (auto simp: fun_eq_iff split: option.split)
next
  case (Cons e es)
  show ?case
  proof (cases e)
    case CtxDone
    with Cons.prems show ?thesis by (auto simp: fun_eq_iff split: option.split)
  next
    case (Tick now order)
    then have order: "enumerates order (names pa)" using Cons.prems by simp
    obtain frees pa1 where step: "FreeHangingPorts now order pa = Inr (frees, pa1)" "pa_exclusive pa1"
      using FreeHangingPorts_exclusive [OF Cons.prems(1) order] by blast
    have "timer_orders es pa1" using Cons.prems(2) step by (simp add: Tick)
    from Cons.IH [OF step(2) this] obtain rest pa2 where
      run: "RunFreeHangingTimer es pa1 = Inr (rest, pa2)" "pa_exclusive pa2"
        "leases pa2 = (\<lambda>k. case leases pa1 k of None \<Rightarrow> None
          | Some v \<Rightarrow> if \<exists>now \<in> set (ticks es). hangs now v then None else Some v)" by blast
    have "leases pa1 = spec_reclaim now (leases pa)"
      by (rule FreeHangingPorts_leases [OF Cons.prems(1) order step(1)])
    with run step Tick show ?thesis
      by (auto simp: spec_reclaim_def fun_eq_iff split: option.split)
  qed
qed

theorem timer_reclaims_witness:
  "\<exists>frees pa'. RunFreeHangingTimer [Tick (5 * minute) [''m-u-web''], Tick (11 * minute) [''m-u-web''], CtxDone]
      (snd (AllocatePort 0 ''m'' ''u'' ''web'' 80 (NewPortAllocator 30000 30001))) = Inr (frees, pa') \<and>
    leases pa' ''m-u-web'' = None"
proof -
  let ?pa = "snd (AllocatePort 0 ''m'' ''u'' ''web'' 80 (NewPortAllocator 30000 30001))"
  let ?es = "[Tick (5 * minute) [''m-u-web''], Tick (11 * minute) [''m-u-web''], CtxDone]"
  have ex: "pa_exclusive ?pa" by (intro alloc_inv_intros)
  have pa: "names ?pa = [''m-u-web'' \<mapsto> 0]" "cells ?pa 0 = new_lease 0 ''m'' ''u'' ''web'' 80 30000"
    by (simp_all add: AllocatePort_def alloc_key_def NewPortAllocator_def free_slot_def scan_ports.simps
        register_def new_object_def Let_def)
  then have "timer_orders ?es ?pa"
    by (simp add: enumerates_def FreeHangingPorts_def Let_def)
  from timer_reclaims [OF ex this] obtain frees pa' where run: "RunFreeHangingTimer ?es ?pa = Inr (frees, pa')"
    and l: "leases pa' = (\<lambda>k. case leases ?pa k of None \<Rightarrow> None
      | Some v \<Rightarrow> if \<exists>now \<in> set (ticks ?es). hangs now v then None else Some v)"
    by blast
  have "leases pa' ''m-u-web'' = None"
    unfolding l by (simp add: leases_def pa hangs_def)
  with run show ?thesis by blast
qed

subsection \<open>Listening\<close>

text \<open>
  When the server listens, what on: over Let's Encrypt exactly when domains are given,
  with a key and certificate exactly when both are given and they load, with client
  certificates checked exactly if a CA is given too; in plain HTTP in all other cases, so
  also when only one of key and certificate is given. Domains and a key pair together are
  refused, and the warning about port 443 is never given.
\<close>

lemma server_listener_spec:
  "(case server_listener (tlsLetsEncrypt getenv home_dir cache_under) load_pair ca_ok listens c host port of
      ListeningOn t url extra \<Rightarrow> extra = '''' \<and> listens (host @ '':'' @ port) \<and>
        t = (if TLSDomains c \<noteq> [] then LetsEncrypt (TLSDomains c) (Env getenv ''LE_EMAIL'') (le_cache getenv home_dir cache_under)
             else if TLSKey c \<noteq> '''' \<and> TLSCert c \<noteq> ''''
             then KeyCert (TLSKey c) (TLSCert c) (if TLSCA c = '''' then None else Some (TLSCA c))
             else PlainHTTP) \<and>
        url = (if t = PlainHTTP then ''http://'' else ''https://'') @ host @ '':'' @ port
    | BothTLS \<Rightarrow> TLSDomains c \<noteq> [] \<and> TLSKey c \<noteq> '''' \<and> TLSCert c \<noteq> ''''
    | KeyPairError \<Rightarrow> \<not> load_pair (TLSCert c) (TLSKey c)
    | CAError \<Rightarrow> TLSCA c \<noteq> '''' \<and> \<not> ca_ok (TLSCA c)
    | ListenError \<Rightarrow> \<not> listens (host @ '':'' @ port))"
  by (cases "TLSDomains c"; cases "TLSKey c = ''''"; cases "TLSCert c = ''''"; cases "TLSCA c = ''''";
      cases "load_pair (TLSCert c) (TLSKey c)"; cases "ca_ok (TLSCA c)"; cases "listens (host @ '':'' @ port)")
    (simp_all add: server_listener_def tlsLetsEncrypt_def tlsKeyCert_def Let_def)

text \<open>Adding a CA needs every file of the bundle to load.\<close>

lemma addCA_iff:
  "addCA stat read_dir join read_file certs_ok ca \<longleftrightarrow>
     (case stat ca of
        None \<Rightarrow> False
      | Some True \<Rightarrow> (case read_dir ca of None \<Rightarrow> False
          | Some files \<Rightarrow> list_all (\<lambda>f. case read_file (join ca f) of None \<Rightarrow> False | Some b \<Rightarrow> certs_ok b) files)
      | Some False \<Rightarrow> (case read_file ca of None \<Rightarrow> False | Some b \<Rightarrow> certs_ok b))"
proof -
  have "addPEMFiles add fs \<longleftrightarrow> list_all add fs" for add fs by (induction fs) auto
  then show ?thesis by (auto simp: addCA_def addPEMFile_def split: option.split bool.split)
qed

subsection \<open>The users a server starts with\<close>

text \<open>
  A server knows the user of its --auth option, with access to everything, and the users
  of its auth file, by their last entry; the option's user wins over the file's.
\<close>

lemma NewServer_users:
  assumes new: "NewServer env c = Inr (fp, s)" and authfile: "AuthFile c \<noteq> ''''"
    and raw: "env_read_file env (AuthFile c) = Some b" "visited_users (env_visit env) b = Some raw"
  shows "Users_Get n (inner (index s)) =
    (if n \<noteq> '''' \<and> fst (ParseAuth (Auth c)) = n
     then Some \<lparr>Name = n, Pass = snd (ParseAuth (Auth c)), Addrs = [env_allow_all env]\<rparr>
     else map_option (entry_user (env_compile env) (env_allow_all env)) (last_entry n raw))"
proof -
  obtain idx where load: "LoadUsers (env_compile env) (env_allow_all env) (env_read_file env) (visited_users (env_visit env))
      (env_watcher env) (env_watch env) (AuthFile c) NewUserIndex = (None, idx)"
    and s: "inner (index s) = auth_user (env_allow_all env) (Auth c) (inner idx)"
    using new authfile by (auto simp: NewServer_def Let_def split: prod.splits option.splits sum.splits if_splits)
  have lu: "loadUserIndex (env_compile env) (env_allow_all env) (env_read_file env) (visited_users (env_visit env))
      (NewUserIndex\<lparr>configFile := AuthFile c\<rparr>) = (None, idx)"
    using load by (auto simp: LoadUsers_def split: prod.splits option.splits if_splits)
  have "Users_Get n (inner idx) = map_option (entry_user (env_compile env) (env_allow_all env)) (last_entry n raw)"
    using loadUserIndex_file [OF _ _ raw(2) lu] authfile raw(1) by simp
  moreover have "ParseAuth '''' = ('''', '''')" by (simp add: ParseAuth_def)
  ultimately show ?thesis
    by (cases "ParseAuth (Auth c)") (auto simp: s auth_user_def Let_def Users_AddUser_def users.get_set)
qed

text \<open>A sample: an auth file with the entry of \<open>bob\<close>, and the option \<open>root:secret\<close>.\<close>

definition sample_env :: "(string, bytes) server_env" where
  "sample_env = \<lparr>env_compile = sample_compile, env_allow_all = '''', env_read_file = (\<lambda>_. Some sample_file),
     env_visit = id, env_watcher = True, env_watch = (\<lambda>_. True),
     env_marshal = (\<lambda>_. Some ''DER''), env_parse = (\<lambda>_. None), env_pem = id,
     env_sha512 = (\<lambda>_. replicate 64 CHR ''a''), env_sha256 = id, env_curve = sample_curve,
     env_fresh = Some \<lparr>key_D = 1, key_XY = []\<rparr>, env_public_key = Some, env_url_host = (\<lambda>_. None)\<rparr>"

definition auth_config :: ServerConfig where
  "auth_config = sample_config\<lparr>AuthFile := ''users.json'', Auth := ''root:secret''\<rparr>"

lemma sample_server_new: "\<exists>fp s. NewServer sample_env auth_config = Inr (fp, s) \<and>
    configFile (index s) = ''users.json''"
proof -
  have "parse_users sample_compile '''' sample_raw = Inr (map (entry_user sample_compile '''') sample_raw)"
    using parse_users_eq [of sample_compile sample_raw "''''"] by (simp add: sample_ok)
  then show ?thesis
    by (simp add: NewServer_def LoadUsers_def loadUserIndex_def auth_config_def sample_config_def sample_env_def
        server_pem_def Seed2PEM_def seed2PrivateKey_def privateKey2PEM_def NewUserIndex_def sample_file_users)
qed

theorem NewServer_users_witness:
  "\<exists>fp s. NewServer sample_env auth_config = Inr (fp, s) \<and>
    map_option Pass (Users_Get ''root'' (inner (index s))) = Some ''secret'' \<and>
    map_option Pass (Users_Get ''bob'' (inner (index s))) = Some ''new''"
proof -
  obtain fp s where new: "NewServer sample_env auth_config = Inr (fp, s)" using sample_server_new by blast
  have "ParseAuth ''root:secret'' = (''root'', ''secret'')" by (simp add: ParseAuth_def SplitN2_def)
  with NewServer_users [OF new, of sample_file sample_raw] new show ?thesis
    by (simp add: auth_config_def sample_env_def sample_file_users sample_last entry_user_def sample_auths)
qed

text \<open>
  After the auth file is written and reloads, only the file counts: a user is known
  exactly by the file's last entry for the name, so the user of the --auth option is gone
  unless the file names it too, and a user added through the server is gone as well.
\<close>

lemma reload_forgets_other_users:
  assumes loads: "configFile (index s) \<noteq> ''''" "read_file (configFile (index s)) = Some b" "unmarshal b = Some raw"
    and ok: "list_all (entry_ok compile) raw" and wr: "and op write_op = write_op"
  shows "Users_Get n (inner (watch_event compile allow_all read_file unmarshal write_op op (index s))) =
    map_option (entry_user compile allow_all) (last_entry n raw)"
proof -
  obtain e u' where load: "loadUserIndex compile allow_all read_file unmarshal (index s) = (e, u')" by fastforce
  with loadUserIndex_effect [OF loads load] ok wr show ?thesis by (simp add: watch_event_def)
qed

theorem reload_forgets_other_users_witness:
  "\<exists>fp s. NewServer sample_env auth_config = Inr (fp, s) \<and>
    Users_Get ''root'' (inner (watch_event sample_compile '''' (\<lambda>_. Some []) (\<lambda>_. Some sample_raw) 2 2 (index s))) = None"
proof -
  obtain fp s where new: "NewServer sample_env auth_config = Inr (fp, s)" "configFile (index s) = ''users.json''"
    using sample_server_new by blast
  have "last_entry ''root'' sample_raw = None"
    by (simp add: last_entry_def sample_raw_def sample_auths)
  with new reload_forgets_other_users [of s "\<lambda>_. Some []" "[]" "\<lambda>_. Some sample_raw" sample_raw sample_compile 2 2 "''root''" "''''"]
  show ?thesis by (simp add: sample_ok)
qed

subsection \<open>The key of a server started from the command line\<close>

text \<open>
  The seed in the environment never matters: the command line's defaults read COTUN_KEY
  only when a key file is set, and then the key comes from that file. Two environments that
  differ in that variable alone give a server the same private key, host and port.
\<close>

lemma env_key_ignored:
  assumes same: "\<And>name. name \<noteq> ''COTUN_KEY'' \<Longrightarrow> getenv name = getenv' name"
  shows "(case server_main getenv f of (host, port, c) \<Rightarrow> (host, port, server_pem env c)) =
    (case server_main getenv' f of (host, port, c) \<Rightarrow> (host, port, server_pem env c))"
proof -
  have "getenv ''HOST'' = getenv' ''HOST''" "getenv ''PORT'' = getenv' ''PORT''" "getenv ''AUTH'' = getenv' ''AUTH''"
    "Env getenv ''KEY_FILE'' = Env getenv' ''KEY_FILE''"
    by (simp_all add: same Env_def)
  then show ?thesis
    by (simp add: server_main_def server_pem_def Let_def)
qed

theorem env_key_ignored_witness:
  "(case server_main (\<lambda>name. if name = ''COTUN_KEY'' then ''seed'' else '''')
       \<lparr>flag_host = '''', flag_p = '''', flag_port = '''', flag_config = sample_config\<rparr> of
      (host, port, c) \<Rightarrow> (host, port, server_pem sample_env c)) = (''0.0.0.0'', ''8080'', Inr ''DER'')"
proof -
  let ?f = "\<lparr>flag_host = '''', flag_p = '''', flag_port = '''', flag_config = sample_config\<rparr>"
  have "(case server_main (\<lambda>name. if name = ''COTUN_KEY'' then ''seed'' else '''') ?f of
      (host, port, c) \<Rightarrow> (host, port, server_pem sample_env c)) =
    (case server_main (\<lambda>_. '''') ?f of (host, port, c) \<Rightarrow> (host, port, server_pem sample_env c))"
    by (rule env_key_ignored) simp
  then show ?thesis
    by (simp add: server_main_def default_to_def Env_def sample_config_def sample_env_def server_pem_def
        Seed2PEM_def seed2PrivateKey_def privateKey2PEM_def)
qed

end
