(* ===== verification/Reload_System.thy ===== *)
theory Reload_System
  imports Login_System Server_Setup
begin

section \<open>A server and its auth file\<close>

text \<open>
  The logins and sessions of a server from \<open>NewServer\<close> on (server/server.go), while its auth file
  changes: the events of the file's watcher (share/settings/users.go) interleave with the steps
  of Login_System, each reading whatever the file holds then. Which users the server
  knows at any moment, and whom a session can run as, goes back to the texts it has read.
\<close>

subsection \<open>State and steps\<close>

text \<open>\<open>loads\<close> are the texts of the file that were loaded without an error, the latest first.\<close>

record 're reload_state =
  lgn :: "'re login_state"
  loads :: "bytes list"

text \<open>
  The environment holds what a server is made with. An event of the watcher carries its
  bits, what reading the file gives (none for an error), and the order in which the decoded
  map is visited.
\<close>

datatype 're reload_event =
    LoginEvent "'re login_event"
  | FileEvent "32 word" "bytes option"

definition loaded_now ::
  "('re, 'pt) server_env \<Rightarrow> (raw_users \<Rightarrow> raw_users) \<Rightarrow> 32 word \<Rightarrow> 32 word \<Rightarrow> bytes option \<Rightarrow> 're UserIndex \<Rightarrow> bytes list" where
  "loaded_now env perm write_op op b u =
     (if and op write_op = write_op \<and>
         fst (loadUserIndex (env_compile env) (env_allow_all env) (\<lambda>_. b) (visited_users perm) u) = None
      then [the b] else [])"

inductive reload_step ::
  "('re, 'pt) server_env \<Rightarrow> 32 word \<Rightarrow> 're reload_state \<Rightarrow> 're reload_event \<Rightarrow> 're reload_state \<Rightarrow> bool" for env write_op where
  login: "login_step (lgn s) e l \<Longrightarrow> \<forall>i. e \<noteq> UsersChanged i \<Longrightarrow>
    reload_step env write_op s (LoginEvent e) (s\<lparr>lgn := l\<rparr>)"
| watched: "login_step (lgn s) (UsersChanged (watch_event (env_compile env) (env_allow_all env) (\<lambda>_. b)
      (visited_users perm) write_op op (index (srv (lgn s))))) l \<Longrightarrow>
    \<forall>raw. mset (perm raw) = mset raw \<Longrightarrow>
    reload_step env write_op s (FileEvent op b)
      (s\<lparr>lgn := l, loads := loaded_now env perm write_op op b (index (srv (lgn s))) @ loads s\<rparr>)"

text \<open>A server as \<open>NewServer\<close> makes it, with the text of its auth file if it has one.\<close>

definition new_reload :: "('re, 'pt) server_env \<Rightarrow> ServerConfig \<Rightarrow> 're reload_state \<Rightarrow> bool" where
  "new_reload env c s \<longleftrightarrow>
     (\<exists>fp sv. NewServer env c = Inr (fp, sv) \<and> lgn s = \<lparr>srv = sv, logins = [], claims = []\<rparr>) \<and>
     loads s = (if AuthFile c = '''' then [] else [the (env_read_file env (AuthFile c))])"

inductive reload_reachable ::
  "('re, 'pt) server_env \<Rightarrow> ServerConfig \<Rightarrow> 32 word \<Rightarrow> 're reload_state \<Rightarrow> bool" for env c write_op where
  start: "new_reload env c s \<Longrightarrow> reload_reachable env c write_op s"
| step: "reload_reachable env c write_op s \<Longrightarrow> reload_step env write_op s e s' \<Longrightarrow> reload_reachable env c write_op s'"

subsection \<open>Where users come from\<close>

text \<open>
  A text grants a name a user: one of its entries has that name and the user's password, and
  the user may reach exactly the addresses of the entry's patterns. The option grants its
  user everything.
\<close>

definition file_grants ::
  "('re, 'pt) server_env \<Rightarrow> ('re \<Rightarrow> string \<Rightarrow> bool) \<Rightarrow> bytes \<Rightarrow> string \<Rightarrow> 're User \<Rightarrow> bool" where
  "file_grants env matches b n u \<longleftrightarrow>
     (\<exists>raw auth rs. decode_users b = Some raw \<and> (auth, rs) \<in> set raw \<and> ParseAuth auth = (n, Pass u) \<and>
        (\<forall>addr. HasAccess matches u addr \<longleftrightarrow> (\<exists>r\<in>set rs. wildcard r \<or> matches (the (env_compile env r)) addr)))"

definition option_grants :: "('re \<Rightarrow> string \<Rightarrow> bool) \<Rightarrow> ServerConfig \<Rightarrow> string \<Rightarrow> 're User \<Rightarrow> bool" where
  "option_grants matches c n u \<longleftrightarrow> n \<noteq> '''' \<and> ParseAuth (Auth c) = (n, Pass u) \<and> (\<forall>addr. HasAccess matches u addr)"

text \<open>
  A server is open to everyone if the text loaded last, when it has one, spells no users and the option,
  while it counts (nothing was loaded since the start), names none.
\<close>

definition open_to_all :: "ServerConfig \<Rightarrow> bytes list \<Rightarrow> bool" where
  "open_to_all c bs \<longleftrightarrow>
     (length bs \<le> 1 \<longrightarrow> fst (ParseAuth (Auth c)) = '''') \<and> (bs \<noteq> [] \<longrightarrow> decode_users (hd bs) = Some [])"

lemma find_SomeD: "find P xs = Some x \<Longrightarrow> x \<in> set xs \<and> P x"
  by (induction xs) (auto split: if_splits)

lemma entry_grants:
  assumes all: "\<And>addr. matches (env_allow_all env) addr" and raw: "decode_users b = Some raw"
    and e: "last_entry n raw' = Some e" "set raw' = set raw" and u: "u = entry_user (env_compile env) (env_allow_all env) e"
  shows "file_grants env matches b n u"
proof -
  obtain auth rs where ars: "e = (auth, rs)" by (cases e)
  have "e \<in> set raw \<and> fst (ParseAuth (fst e)) = n"
    using e find_SomeD [of "\<lambda>e. fst (ParseAuth (fst e)) = n" "rev raw'"] by (auto simp: last_entry_def)
  moreover have "HasAccess matches u addr \<longleftrightarrow> (\<exists>r\<in>set rs. wildcard r \<or> matches (the (env_compile env r)) addr)" for addr
    using all by (auto simp: u ars entry_user_def HasAccess_iff addr_pattern_matches [where matches = matches, OF all]
        simp del: image_iff split: prod.splits)
  ultimately show ?thesis
    unfolding file_grants_def using raw
    by (intro exI [of _ raw] exI [of _ auth] exI [of _ rs]) (auto simp: u ars entry_user_def split: prod.splits)
qed

text \<open>A load that succeeds leaves exactly users that the text grants; one that fails changes nothing.\<close>

lemma loaded_grants:
  assumes load: "loadUserIndex (env_compile env) (env_allow_all env) read_file (visited_users perm) i = (None, i')"
    and b: "read_file (configFile i) = b" and perm: "\<forall>raw. mset (perm raw) = mset raw"
    and all: "\<And>addr. matches (env_allow_all env) addr" and u: "Users_Get n (inner i') = Some u"
  shows "file_grants env matches (the b) n u"
proof -
  obtain b' raw where b': "b = Some b'" "decode_users b' = Some raw" and ne: "configFile i \<noteq> ''''"
    using load b by (auto simp: loadUserIndex_def visited_users_def split: if_splits option.splits)
  have "Users_Get n (inner i') = map_option (entry_user (env_compile env) (env_allow_all env)) (last_entry n (perm raw))"
    using b by (intro loadUserIndex_file [OF ne _ _ load, of b']) (simp_all add: visited_users_def b')
  with u obtain e where "last_entry n (perm raw) = Some e" "u = entry_user (env_compile env) (env_allow_all env) e"
    by (cases "last_entry n (perm raw)") auto
  moreover have "set (perm raw) = set raw" using perm by (metis set_mset_mset)
  ultimately show ?thesis
    using entry_grants [of matches env, OF all b'(2)] b'(1) by simp
qed

lemma loaded_open:
  assumes load: "loadUserIndex (env_compile env) (env_allow_all env) read_file (visited_users perm) i = (None, i')"
    and b: "read_file (configFile i) = b" and perm: "\<forall>raw. mset (perm raw) = mset raw"
  shows "inner i' = fmempty \<longleftrightarrow> decode_users (the b) = Some []"
proof -
  obtain b' raw where b': "b = Some b'" "decode_users b' = Some raw" and ne: "configFile i \<noteq> ''''"
    using load b by (auto simp: loadUserIndex_def visited_users_def split: if_splits option.splits)
  have get: "Users_Get n (inner i') = map_option (entry_user (env_compile env) (env_allow_all env)) (last_entry n (perm raw))" for n
    using b loadUserIndex_file [OF ne _ _ load, of b' "perm raw" n] by (simp add: visited_users_def b')
  have "perm raw = [] \<longleftrightarrow> raw = []" using perm by (metis mset_zero_iff_right mset.simps(1))
  moreover have "inner i' = fmempty \<longleftrightarrow> perm raw = []"
  proof
    assume "inner i' = fmempty"
    then have last: "last_entry n (perm raw) = None" for n using get [of n] by (simp add: Users_Get_def)
    show "perm raw = []"
    proof (cases "perm raw")
      case (Cons e es)
      with last [of "fst (ParseAuth (fst e))"] show ?thesis by (cases e) (auto simp: last_entry_def find_None_iff)
    qed
  next
    assume "perm raw = []"
    then have "Users_Get n (inner i') = None" for n using get [of n] by (simp add: last_entry_def)
    then show "inner i' = fmempty" by (intro fmap_ext) (simp add: Users_Get_def)
  qed
  ultimately show ?thesis using b' by simp
qed

lemma failed_load: "loadUserIndex compile allow_all read_file unmarshal i = (Some e, i') \<Longrightarrow> i' = i"
  by (auto simp: loadUserIndex_def split: if_splits option.splits sum.splits)

subsection \<open>The invariant\<close>

definition reload_inv :: "('re, 'pt) server_env \<Rightarrow> ServerConfig \<Rightarrow> ('re \<Rightarrow> string \<Rightarrow> bool) \<Rightarrow> 're reload_state \<Rightarrow> bool" where
  "reload_inv env c matches s \<longleftrightarrow>
     login_reachable (lgn s) \<and>
     (inner (index (srv (lgn s))) = fmempty \<longleftrightarrow> open_to_all c (loads s)) \<and>
     (loads s = [] \<longrightarrow> configFile (index (srv (lgn s))) = '''') \<and>
     (\<forall>n u. Users_Get n (inner (index (srv (lgn s)))) = Some u \<longrightarrow>
        (loads s \<noteq> [] \<and> file_grants env matches (hd (loads s)) n u) \<or> (length (loads s) \<le> 1 \<and> option_grants matches c n u)) \<and>
     (\<forall>sid n pw us u. (sid, n, pw, us) \<in> set (logins (lgn s)) \<longrightarrow> Users_Get n us = Some u \<longrightarrow>
        (\<exists>b\<in>set (loads s). file_grants env matches b n u) \<or> option_grants matches c n u)"

lemma reload_invD:
  assumes "reload_inv env c matches s"
  shows "login_reachable (lgn s)"
    and "inner (index (srv (lgn s))) = fmempty \<longleftrightarrow> open_to_all c (loads s)"
    and "Users_Get n (inner (index (srv (lgn s)))) = Some u \<Longrightarrow>
      (loads s \<noteq> [] \<and> file_grants env matches (hd (loads s)) n u) \<or> (length (loads s) \<le> 1 \<and> option_grants matches c n u)"
    and "(sid, n, pw, us) \<in> set (logins (lgn s)) \<Longrightarrow> Users_Get n us = Some u \<Longrightarrow>
      (\<exists>b\<in>set (loads s). file_grants env matches b n u) \<or> option_grants matches c n u"
    and "loads s = [] \<Longrightarrow> configFile (index (srv (lgn s))) = ''''"
  using assms by (auto simp: reload_inv_def)

lemma load_keeps_path: "loadUserIndex compile allow_all read_file unmarshal i = (e, i') \<Longrightarrow> configFile i' = configFile i"
  by (auto simp: loadUserIndex_def split: if_splits option.splits sum.splits)

lemma auth_user_empty: "auth_user allow_all auth m = fmempty \<longleftrightarrow> fst (ParseAuth auth) = '''' \<and> m = fmempty"
proof -
  have "ParseAuth '''' = ('''', '''')" by (simp add: ParseAuth_def)
  then show ?thesis
    by (cases "ParseAuth auth") (auto simp: auth_user_def Users_AddUser_def Users_Set_def)
qed

lemma NewServer_index:
  assumes "NewServer env c = Inr (fp, s)"
  obtains idx where "inner (index s) = auth_user (env_allow_all env) (Auth c) (inner idx)" "sessions s = NewUsers"
    "configFile (index s) = AuthFile c"
    "if AuthFile c = '''' then idx = NewUserIndex
     else loadUserIndex (env_compile env) (env_allow_all env) (env_read_file env) (visited_users (env_visit env))
       (NewUserIndex\<lparr>configFile := AuthFile c\<rparr>) = (None, idx)"
  using assms
  by (auto simp: NewServer_def LoadUsers_def NewUserIndex_def NewUsers_def Let_def dest: load_keeps_path
      split: prod.splits option.splits sum.splits if_splits)

lemma auth_user_Get:
  "Users_Get n (auth_user allow_all auth m) =
     (if auth \<noteq> '''' \<and> n \<noteq> '''' \<and> fst (ParseAuth auth) = n
      then Some \<lparr>Name = n, Pass = snd (ParseAuth auth), Addrs = [allow_all]\<rparr> else Users_Get n m)"
  by (auto simp: auth_user_def Users_AddUser_def users.get_set split: prod.splits)

lemma new_reload_inv:
  assumes new: "new_reload env c s" and visit: "\<forall>raw. mset (env_visit env raw) = mset raw"
    and all: "\<And>addr. matches (env_allow_all env) addr"
  shows "reload_inv env c matches s"
proof -
  obtain fp sv where sv: "NewServer env c = Inr (fp, sv)" and l: "lgn s = \<lparr>srv = sv, logins = [], claims = []\<rparr>"
    and loads: "loads s = (if AuthFile c = '''' then [] else [the (env_read_file env (AuthFile c))])"
    using new by (auto simp: new_reload_def)
  from sv obtain idx where idx: "inner (index sv) = auth_user (env_allow_all env) (Auth c) (inner idx)" "sessions sv = NewUsers"
      "configFile (index sv) = AuthFile c"
    and load: "if AuthFile c = '''' then idx = NewUserIndex
       else loadUserIndex (env_compile env) (env_allow_all env) (env_read_file env) (visited_users (env_visit env))
         (NewUserIndex\<lparr>configFile := AuthFile c\<rparr>) = (None, idx)" by (rule NewServer_index)
  have "(loads s \<noteq> [] \<and> file_grants env matches (hd (loads s)) n u) \<or> (length (loads s) \<le> 1 \<and> option_grants matches c n u)"
    if u: "Users_Get n (inner (index sv)) = Some u" for n u
  proof (cases "Auth c \<noteq> '''' \<and> n \<noteq> '''' \<and> fst (ParseAuth (Auth c)) = n")
    case True
    with u all show ?thesis by (auto simp: idx auth_user_Get option_grants_def loads HasAccess_iff prod_eq_iff)
  next
    case False
    with u have get: "Users_Get n (inner idx) = Some u" by (simp add: idx auth_user_Get)
    with load have "AuthFile c \<noteq> ''''" by (auto simp: Users_Get_def NewUserIndex_def NewUsers_def split: if_splits)
    with loaded_grants [of env "env_read_file env" "env_visit env" "NewUserIndex\<lparr>configFile := AuthFile c\<rparr>" idx _ matches,
        OF _ refl visit all get] load show ?thesis by (simp add: loads)
  qed
  moreover have "inner (index sv) = fmempty \<longleftrightarrow> open_to_all c (loads s)"
  proof -
    have "inner idx = fmempty \<longleftrightarrow> (AuthFile c \<noteq> '''' \<longrightarrow> decode_users (the (env_read_file env (AuthFile c))) = Some [])"
      using load loaded_open [of env "env_read_file env" "env_visit env" "NewUserIndex\<lparr>configFile := AuthFile c\<rparr>" idx, OF _ refl visit]
      by (auto simp: NewUserIndex_def NewUsers_def split: if_splits)
    then show ?thesis by (auto simp: idx(1) auth_user_empty open_to_all_def loads)
  qed
  moreover have "loads s = [] \<Longrightarrow> configFile (index sv) = ''''" by (simp add: loads idx(3) split: if_splits)
  moreover have "login_reachable (lgn s)"
    by (intro login_reachable.start) (simp add: fresh_server_def l idx)
  ultimately show ?thesis using l by (simp add: reload_inv_def)
qed

lemma login_keeps_users:
  assumes "login_step l e l'" "\<forall>i. e \<noteq> UsersChanged i"
  shows "index (srv l') = index (srv l)"
    and "\<And>x. x \<in> set (logins l') \<Longrightarrow> x \<in> set (logins l) \<or> (\<exists>sid n pw. x = (sid, n, pw, inner (index (srv l))))"
proof -
  show "index (srv l') = index (srv l)"
    using assms(1)
  proof (cases rule: login_step.cases)
    case (accepted sid n pw s1)
    from accepted(3) show ?thesis by (cases rule: authUser_accepts) (use accepted in auto)
  next
    case (claimed sid u s1)
    with claim_user_Some show ?thesis by fastforce
  qed (use assms(2) in \<open>auto dest: authUser_refuses claim_user_None\<close>)
  show "x \<in> set (logins l) \<or> (\<exists>sid n pw. x = (sid, n, pw, inner (index (srv l))))" if "x \<in> set (logins l')" for x
    using assms(1) by (cases rule: login_step.cases) (use assms(2) that in \<open>auto split: if_splits\<close>)
qed

lemma reload_step_inv:
  assumes step: "reload_step env write_op s e s'" and inv: "reload_inv env c matches s"
    and all: "\<And>addr. matches (env_allow_all env) addr"
  shows "reload_inv env c matches s'"
  using step
proof (cases rule: reload_step.cases)
  case (login e l)
  have "login_reachable l" using reload_invD(1) [OF inv] login(3) by (rule login_reachable.step)
  moreover note same = login_keeps_users(1) [OF login(3,4)]
  moreover have "(\<exists>b\<in>set (loads s). file_grants env matches b n u) \<or> option_grants matches c n u"
    if "(sid, n, pw, us) \<in> set (logins l)" "Users_Get n us = Some u" for sid n pw us u
    using login_keeps_users(2) [OF login(3,4) that(1)] reload_invD(3,4) [OF inv] that(2)
    by (metis (no_types, opaque_lifting) list.set_sel(1) prod.inject)
  ultimately show ?thesis using login reload_invD(2,3,5) [OF inv] by (simp add: reload_inv_def)
next
  case (watched b perm op l)
  let ?i = "index (srv (lgn s))"
  let ?load = "loadUserIndex (env_compile env) (env_allow_all env) (\<lambda>_. b) (visited_users perm) ?i"
  let ?new = "loaded_now env perm write_op op b ?i"
  have reach: "login_reachable l" using reload_invD(1) [OF inv] watched(3) by (rule login_reachable.step)
  have l: "logins l = logins (lgn s)"
      "index (srv l) = watch_event (env_compile env) (env_allow_all env) (\<lambda>_. b) (visited_users perm) write_op op ?i"
    using watched(3) by (auto elim: login_step.cases)
  show ?thesis
  proof (cases "?new = []")
    case True
    then have "index (srv l) = ?i"
      using failed_load [of _ _ _ _ ?i] by (cases ?load) (auto simp: l watch_event_def loaded_now_def split: if_splits)
    with watched True reach l(1) inv show ?thesis by (simp add: reload_inv_def)
  next
    case False
    then have new: "?new = [the b]" "fst ?load = None" "index (srv l) = snd ?load"
      by (auto simp: l watch_event_def loaded_now_def split: if_splits)
    have "file_grants env matches (the b) n u" if "Users_Get n (inner (index (srv l))) = Some u" for n u
      using loaded_grants [of env "\<lambda>_. b" perm ?i "snd ?load" b matches n u] new watched(4) all that
      by (cases ?load) auto
    moreover have "inner (index (srv l)) = fmempty \<longleftrightarrow> decode_users (the b) = Some []"
      using loaded_open [of env "\<lambda>_. b" perm ?i "snd ?load" b] new watched(4) by (cases ?load) auto
    moreover have "configFile ?i \<noteq> ''''" using new(2) by (auto simp: loadUserIndex_def)
    then have "loads s \<noteq> []" using reload_invD(5) [OF inv] by blast
    then have "\<not> length (the b # loads s) \<le> 1" by simp
    ultimately show ?thesis using watched new reach l(1) reload_invD(4) [OF inv]
      by (auto simp: reload_inv_def open_to_all_def)
  qed
qed

interpretation reload_steps: stepping "new_reload env c" "reload_step env write_op" "reload_reachable env c write_op"
  for env c write_op
proof unfold_locales
  show "P s" if "reload_reachable env c write_op s" "\<And>s. new_reload env c s \<Longrightarrow> P s"
    "\<And>s e s'. reload_reachable env c write_op s \<Longrightarrow> P s \<Longrightarrow> reload_step env write_op s e s' \<Longrightarrow> P s'" for s P
    using that by (induction rule: reload_reachable.induct) blast+
qed (rule reload_reachable.step)

lemma reload_reachable_inv:
  assumes "reload_reachable env c write_op s" "\<forall>raw. mset (env_visit env raw) = mset raw"
    "\<And>addr. matches (env_allow_all env) addr"
  shows "reload_inv env c matches s"
  using assms(1)
proof (rule reload_steps.reach_rule)
  show "reload_inv env c matches s" if "new_reload env c s" for s
    using that assms(2,3) by (rule new_reload_inv)
  show "reload_inv env c matches s'" if "reload_inv env c matches s" "reload_step env write_op s e s'" for s e s'
    using that(2,1) assms(3) by (rule reload_step_inv)
qed

subsection \<open>Whom the file lets in\<close>

text \<open>
  C16: who gets in, and as whom, goes back to the texts of the auth file. At any moment of a
  server's life, it is open to everyone if the text loaded last, when there is one, spells no users
  and the option --auth, while nothing was loaded since the start, names none. Otherwise, an accepted
  login is that of an entry of the text that was loaded last, or of the
  option while nothing was loaded since the start. And a session
  runs as a user only after an accepted login by a name and password that some text loaded
  so far, or the option, has for him, and may reach exactly the addresses of that entry's
  patterns. Texts that do not load, events without the write bit and failed reads give nobody
  anything.
\<close>

theorem sessions_follow_auth_file:
  assumes "reload_reachable env c write_op s" "\<forall>raw. mset (env_visit env raw) = mset raw"
    and "\<And>addr. matches (env_allow_all env) addr"
  shows "(open_to_all c (loads s) \<longrightarrow> fst (authUser sid n pw (srv (lgn s)))) \<and>
    (\<not> open_to_all c (loads s) \<and> fst (authUser sid n pw (srv (lgn s))) \<longrightarrow>
      (\<exists>u. Pass u = pw \<and> (loads s \<noteq> [] \<and> file_grants env matches (hd (loads s)) n u \<or>
         length (loads s) \<le> 1 \<and> option_grants matches c n u))) \<and>
    (\<forall>u s'. claim_user sid (srv (lgn s)) = Inr (Some u, s') \<longrightarrow>
      (\<exists>m us. (sid, m, Pass u, us) \<in> set (logins (lgn s)) \<and>
         ((\<exists>b\<in>set (loads s). file_grants env matches b m u) \<or> option_grants matches c m u)))"
proof (intro conjI impI allI)
  note inv = reload_reachable_inv [of env c write_op s matches, OF assms]
  show "fst (authUser sid n pw (srv (lgn s)))" if "open_to_all c (loads s)"
    using that reload_invD(2) [OF inv] by (simp add: authUser_def)
  show "\<exists>u. Pass u = pw \<and> (loads s \<noteq> [] \<and> file_grants env matches (hd (loads s)) n u \<or>
         length (loads s) \<le> 1 \<and> option_grants matches c n u)"
    if "\<not> open_to_all c (loads s) \<and> fst (authUser sid n pw (srv (lgn s)))"
    using that reload_invD(2,3) [OF inv] by (auto simp: authUser_cases split: option.splits if_splits)
  show "\<exists>m us. (sid, m, Pass u, us) \<in> set (logins (lgn s)) \<and>
      ((\<exists>b\<in>set (loads s). file_grants env matches b m u) \<or> option_grants matches c m u)"
    if "claim_user sid (srv (lgn s)) = Inr (Some u, s')" for u s'
  proof -
    have "login_inv (lgn s)" using logins.reach_inv reload_invD(1) [OF inv] .
    then have "logged_in (lgn s) sid u" using login_invD(1) claim_user_Some [OF that] by blast
    then show ?thesis using reload_invD(4) [OF inv] unfolding logged_in_def by blast
  qed
qed

subsection \<open>A sample run\<close>

text \<open>
  The server of the samples, whose option names \<open>root\<close>, reads its file again: from then on
  the file alone counts, and \<open>root\<close> is not in it.
\<close>

theorem sessions_follow_auth_file_witness:
  "\<exists>s0 s. new_reload sample_env auth_config s0 \<and> fst (authUser ''id1'' ''root'' ''secret'' (srv (lgn s0))) \<and>
    reload_step sample_env 2 s0 (FileEvent 2 (Some sample_file)) s \<and> loads s = [sample_file, sample_file] \<and>
    \<not> fst (authUser ''id1'' ''root'' ''secret'' (srv (lgn s)))"
proof -
  obtain fp sv where sv: "NewServer sample_env auth_config = Inr (fp, sv)" "configFile (index sv) = ''users.json''"
    using sample_server_new by blast
  define s0 where "s0 = \<lparr>lgn = \<lparr>srv = sv, logins = [], claims = []\<rparr>, loads = [sample_file]\<rparr>"
  have env: "env_compile sample_env = sample_compile" "env_allow_all sample_env = ''''" "env_visit sample_env = id"
    "env_read_file sample_env = (\<lambda>_. Some sample_file)" by (simp_all add: sample_env_def)
  have new: "new_reload sample_env auth_config s0"
    using sv(1) by (simp add: new_reload_def s0_def env) (simp add: auth_config_def)
  have "ParseAuth ''root:secret'' = (''root'', ''secret'')" by (simp add: ParseAuth_def SplitN2_def)
  then have "\<exists>u. Users_Get ''root'' (inner (index sv)) = Some u \<and> Pass u = ''secret''"
    using NewServer_users [OF sv(1), of sample_file sample_raw "''root''"]
    by (simp add: auth_config_def env sample_file_users)
  then have before: "fst (authUser ''id1'' ''root'' ''secret'' (srv (lgn s0)))" by (auto simp: s0_def authUser_cases)
  have "parse_users sample_compile '''' sample_raw = Inr (map (entry_user sample_compile '''') sample_raw)"
    using parse_users_eq [of sample_compile sample_raw "''''"] by (simp add: sample_ok)
  then have load: "loadUserIndex sample_compile '''' (\<lambda>_. Some sample_file) (visited_users id) (index sv) =
      (None, (index sv)\<lparr>inner := Users_Reset (map (entry_user sample_compile '''') sample_raw) (inner (index sv))\<rparr>)"
    by (simp add: loadUserIndex_def sv(2) sample_file_users)
  define i where "i = watch_event sample_compile '''' (\<lambda>_. Some sample_file) (visited_users id) 2 2 (index sv)"
  define s where "s = \<lparr>lgn = \<lparr>srv = sv\<lparr>index := i\<rparr>, logins = [], claims = []\<rparr>, loads = [sample_file, sample_file]\<rparr>"
  have "loaded_now sample_env id 2 2 (Some sample_file) (index sv) = [sample_file]"
    by (simp add: loaded_now_def env load)
  then have step: "reload_step sample_env 2 s0 (FileEvent 2 (Some sample_file)) s"
    using reload_step.watched [of s0 sample_env "Some sample_file" id 2 2 "\<lparr>srv = sv\<lparr>index := i\<rparr>, logins = [], claims = []\<rparr>"]
      login_step.changed [of "lgn s0" i]
    by (simp add: s0_def s_def env i_def)
  have reach: "reload_reachable sample_env auth_config 2 s"
    using reload_reachable.start [OF new] step by (rule reload_reachable.step)
  have "decode_users sample_file = Some sample_raw" using sample_file_users by (auto simp: visited_users_def)
  then have "\<not> file_grants sample_env sample_matches sample_file ''root'' u" "\<not> open_to_all auth_config (loads s)" for u
    by (auto simp: file_grants_def open_to_all_def s_def sample_raw_def sample_auths)
  with sessions_follow_auth_file [OF reach, of sample_matches "''id1''" "''root''" "''secret''"]
  have "\<not> fst (authUser ''id1'' ''root'' ''secret'' (srv (lgn s)))"
    by (auto simp: env s_def sample_matches_def)
  moreover have "loads s = [sample_file, sample_file]" by (simp add: s_def)
  ultimately show ?thesis using new before step by blast
qed

end
