(* ===== verification/Tunnel.thy ===== *)
theory Tunnel
  imports Remotes "HOL-Library.Word"
begin

section \<open>Tunnels\<close>

text \<open>
  Models share/tunnel/tunnel.go, tunnel_out_ssh.go and tunnel_in_proxy.go, with
  share/cnet/connstats.go: binding an SSH connection, waiting for one, the channels and
  requests of the other side, and the proxies that listen for the remotes. What the network
  does (listening, accepting, dialling, opening channels) is a parameter or an input.
\<close>

subsection \<open>Connection counters\<close>

record ConnCount =
  conn_count :: "32 word"
  conn_open :: "32 word"

definition ConnCount_New :: "ConnCount \<Rightarrow> 32 word \<times> ConnCount" where
  "ConnCount_New c = (conn_count c + 1, c\<lparr>conn_count := conn_count c + 1\<rparr>)"

definition ConnCount_Open :: "ConnCount \<Rightarrow> ConnCount" where
  "ConnCount_Open c = c\<lparr>conn_open := conn_open c + 1\<rparr>"

definition ConnCount_Close :: "ConnCount \<Rightarrow> ConnCount" where
  "ConnCount_Close c = c\<lparr>conn_open := conn_open c - 1\<rparr>"

definition ConnCount_String :: "ConnCount \<Rightarrow> string" where
  "ConnCount_String c =
     ''['' @ show_int (sint (conn_open c)) @ ''/'' @ show_int (sint (conn_count c)) @ '']''"

subsection \<open>State\<close>

record TunnelConfig =
  cfg_Inbound :: bool
  cfg_Outbound :: bool
  cfg_Socks :: bool
  cfg_KeepAlive :: time

text \<open>\<open>activeConn\<close> is the connection bound now, if any.\<close>

record 'conn Tunnel =
  tun_config :: TunnelConfig
  activeConn :: "'conn option"
  proxyCount :: int
  connStats :: ConnCount
  socksServer :: bool

definition New :: "TunnelConfig \<Rightarrow> 'conn Tunnel" where
  "New c = \<lparr>tun_config = c, activeConn = None, proxyCount = 0,
     connStats = \<lparr>conn_count = 0, conn_open = 0\<rparr>, socksServer = cfg_Socks c\<rparr>"

subsection \<open>Binding and waiting for a connection\<close>

definition BindSSH_begin :: "'conn \<Rightarrow> 'conn Tunnel \<Rightarrow> go_panic + 'conn Tunnel" where
  "BindSSH_begin c t =
     (if activeConn t \<noteq> None then Inl (PanicCall ''double bind ssh'')
      else Inr (t\<lparr>activeConn := Some c\<rparr>))"

definition BindSSH_end :: "'conn Tunnel \<Rightarrow> 'conn Tunnel" where
  "BindSSH_end t = t\<lparr>activeConn := None\<rparr>"

text \<open>\<open>serving\<close> is what the tunnel goes through until the connection is closed.\<close>

definition BindSSH :: "'conn \<Rightarrow> ('conn Tunnel \<Rightarrow> 'conn Tunnel) \<Rightarrow> 'conn Tunnel \<Rightarrow> go_panic + 'conn Tunnel" where
  "BindSSH c serving t =
     (case BindSSH_begin c t of Inl p \<Rightarrow> Inl p | Inr t' \<Rightarrow> Inr (BindSSH_end (serving t')))"

text \<open>How the wait for a connection ends.\<close>

datatype ssh_wait = WaitCancelled | WaitTimeout | WaitActive

text \<open>\<open>later\<close> is the tunnel when the wait group lets the waiter go.\<close>

definition getSSH :: "bool \<Rightarrow> ssh_wait \<Rightarrow> 'conn Tunnel \<Rightarrow> 'conn Tunnel \<Rightarrow> 'conn option" where
  "getSSH done_ctx w later t =
     (if done_ctx then None
      else (case activeConn t of
              Some c \<Rightarrow> Some c
            | None \<Rightarrow>
                (case w of
                   WaitCancelled \<Rightarrow> None
                 | WaitTimeout \<Rightarrow> None
                 | WaitActive \<Rightarrow> activeConn later)))"

text \<open>
  \<open>keepAliveLoop\<close>: each reply is none on an error. The loop closes the connection after the
  first bad reply; it returns how many pings it sent and whether it closed.
\<close>

fun keepAliveLoop :: "bytes option list \<Rightarrow> nat \<times> bool" where
  "keepAliveLoop [] = (0, False)"
| "keepAliveLoop (reply # replies) =
     (case reply of
        None \<Rightarrow> (1, True)
      | Some b \<Rightarrow>
          (if length b > 0 \<and> b \<noteq> ''pong'' then (1, True)
           else map_prod Suc id (keepAliveLoop replies)))"

subsection \<open>Requests and channels of the other side\<close>

text \<open>The replies to a stream of requests, by their types; an unknown one is not answered.\<close>

fun handleSSHRequests :: "string list \<Rightarrow> (bool \<times> bytes) option list" where
  "handleSSHRequests [] = []"
| "handleSSHRequests (ty # reqs) =
     (if ty = ''ping'' then Some (True, ''pong'') else None) # handleSSHRequests reqs"

datatype channel_service =
    Rejected string
  | AcceptFailed
  | ServeSocks
  | ServeUDP string
  | ServeTCP string

text \<open>
  \<open>handleSSHChannel\<close> on the channel's extra data: what it serves, and the tunnel while it
  does; \<open>channel_end\<close> is the rest of the handler.
\<close>

definition handleSSHChannel :: "bool \<Rightarrow> string \<Rightarrow> 'conn Tunnel \<Rightarrow> channel_service \<times> 'conn Tunnel" where
  "handleSSHChannel accept_ok extra t =
     (if \<not> cfg_Outbound (tun_config t) then (Rejected ''Denied outbound connection'', t)
      else
        (let (hostPort, proto) = L4Proto extra;
             udp = (proto = ''udp'');
             socks = (hostPort = ''socks'')
         in if socks \<and> \<not> socksServer t then (Rejected ''SOCKS5 is not enabled'', t)
            else if \<not> accept_ok then (AcceptFailed, t)
            else (let (_, st) = ConnCount_New (connStats t); t = t\<lparr>connStats := ConnCount_Open st\<rparr> in
                  if socks then (ServeSocks, t)
                  else if udp then (ServeUDP hostPort, t)
                  else (ServeTCP hostPort, t))))"

definition channel_end :: "'conn Tunnel \<Rightarrow> 'conn Tunnel" where
  "channel_end t = t\<lparr>connStats := ConnCount_Close (connStats t)\<rparr>"

subsection \<open>Proxies\<close>

datatype proxy_listener =
    StdioProxy
  | TcpListener string
  | UdpListener string

datatype proxy_error =
    ListenFailed string
  | UnknownLocalProto

record Proxy =
  proxy_id :: int
  proxy_count :: int
  proxy_remote :: Remote
  listener :: proxy_listener

text \<open>\<open>listen proto addr\<close> says whether resolving and listening succeed.\<close>

definition Proxy_listen :: "(string \<Rightarrow> string \<Rightarrow> bool) \<Rightarrow> Remote \<Rightarrow> proxy_error + proxy_listener" where
  "Proxy_listen listen r =
     (if Stdio r then Inr StdioProxy
      else if LocalProto r = ''tcp'' then
        (let addr = LocalHost r @ '':'' @ LocalPort r in
         if listen ''tcp'' addr then Inr (TcpListener addr) else Inl (ListenFailed addr))
      else if LocalProto r = ''udp'' then
        (let addr = Remote_Local r in
         if listen ''udp'' addr then Inr (UdpListener addr) else Inl (ListenFailed addr))
      else Inl UnknownLocalProto)"

definition NewProxy :: "(string \<Rightarrow> string \<Rightarrow> bool) \<Rightarrow> int \<Rightarrow> Remote \<Rightarrow> proxy_error + Proxy" where
  "NewProxy listen i r =
     (case Proxy_listen listen r of
        Inl e \<Rightarrow> Inl e
      | Inr l \<Rightarrow> Inr \<lparr>proxy_id = i + 1, proxy_count = 0, proxy_remote = r, listener = l\<rparr>)"

datatype proxy_run = RunStdio | RunTCP | RunUDP

definition Proxy_Run :: "Proxy \<Rightarrow> go_panic + proxy_run" where
  "Proxy_Run p =
     (if Stdio (proxy_remote p) then Inr RunStdio
      else if LocalProto (proxy_remote p) = ''tcp'' then Inr RunTCP
      else if LocalProto (proxy_remote p) = ''udp'' then Inr RunUDP
      else Inl (PanicCall ''should not get here''))"

text \<open>
  \<open>runTCP\<close>: the results of accepting in order, none for an error; the loop ends with the
  first error, which is not reported when the context is done. It returns the number of
  connections handed over.
\<close>

fun runTCP :: "(unit option \<times> bool) list \<Rightarrow> nat \<times> bool option" where
  "runTCP [] = (0, None)"
| "runTCP ((src, done_ctx) # accepts) =
     (case src of
        None \<Rightarrow> (0, Some (\<not> done_ctx))
      | Some _ \<Rightarrow> map_prod Suc id (runTCP accepts))"

datatype 'conn piped =
    NoConnection
  | StreamError
  | Piped 'conn bytes

text \<open>\<open>pipeRemote\<close>: \<open>conn\<close> is what \<open>getSSH\<close> gives, \<open>open_channel\<close> whether the channel opens.\<close>

definition pipeRemote :: "'conn option \<Rightarrow> ('conn \<Rightarrow> bytes \<Rightarrow> bool) \<Rightarrow> Proxy \<Rightarrow> 'conn piped \<times> Proxy" where
  "pipeRemote conn open_channel p =
     (let p = p\<lparr>proxy_count := proxy_count p + 1\<rparr> in
      case conn of
        None \<Rightarrow> (NoConnection, p)
      | Some c \<Rightarrow>
          (let data = Remote_Remote (proxy_remote p) in
           if \<not> open_channel c data then (StreamError, p) else (Piped c data, p)))"

text \<open>
  \<open>runStdio\<close>: pipe standard input and output again and again until the context is done; each
  round is what the pipe met and whether the context is done after it.
\<close>

fun runStdio ::
  "('conn option \<times> ('conn \<Rightarrow> bytes \<Rightarrow> bool) \<times> bool) list \<Rightarrow> Proxy \<Rightarrow> 'conn piped list \<times> bool \<times> Proxy" where
  "runStdio [] p = ([], False, p)"
| "runStdio ((conn, open_channel, done_ctx) # rounds) p =
     (let (res, p) = pipeRemote conn open_channel p in
      if done_ctx then ([res], True, p)
      else (let (rest, ended, p) = runStdio rounds p in (res # rest, ended, p)))"

text \<open>It never ends by itself: without a connection it tries again at once, for ever.\<close>

lemma runStdio_spins:
  "runStdio (replicate n (None, open_channel, False)) p =
     (replicate n NoConnection, False, p\<lparr>proxy_count := proxy_count p + int n\<rparr>)"
  by (induction n arbitrary: p) (simp_all add: pipeRemote_def)

subsection \<open>Binding remotes\<close>

datatype bind_error =
    NoRemotes
  | InboundBlocked
  | ProxyFailed proxy_error

text \<open>The loop that makes the proxies; on an error it returns those already listening.\<close>

fun make_proxies ::
  "(string \<Rightarrow> string \<Rightarrow> bool) \<Rightarrow> Remote list \<Rightarrow> int \<Rightarrow> proxy_error option \<times> Proxy list \<times> int" where
  "make_proxies listen [] k = (None, [], k)"
| "make_proxies listen (r # rs) k =
     (case NewProxy listen k r of
        Inl e \<Rightarrow> (Some e, [], k)
      | Inr p \<Rightarrow>
          (let (e, ps, n) = make_proxies listen rs (k + 1) in (e, p # ps, n)))"

definition BindRemotes ::
  "(string \<Rightarrow> string \<Rightarrow> bool) \<Rightarrow> Remote list \<Rightarrow> 'conn Tunnel \<Rightarrow> bind_error option \<times> Proxy list \<times> 'conn Tunnel" where
  "BindRemotes listen remotes t =
     (if length remotes = 0 then (Some NoRemotes, [], t)
      else if \<not> cfg_Inbound (tun_config t) then (Some InboundBlocked, [], t)
      else (let (e, ps, n) = make_proxies listen remotes (proxyCount t);
                t = t\<lparr>proxyCount := n\<rparr>
            in (map_option ProxyFailed e, ps, t)))"

subsection \<open>A channel serves its remote\<close>

text \<open>What a proxy sends when it opens a channel for a remote, with the suffix of udp ones.\<close>

definition channel_data :: "Remote \<Rightarrow> string" where
  "channel_data r = (if RemoteProto r = ''udp'' then Remote_Remote r @ ''/udp'' else Remote_Remote r)"

lemma L4Proto_port_end:
  assumes "isPort p"
  shows "L4Proto (s @ p) = (s @ p, '''')"
proof -
  have "p \<noteq> []" "last p \<in> set p" using isPort_chars [OF assms] by auto
  then have "is_digit (last p) \<or> last p = CHR ''+''"
    using isPort_chars(2) [OF assms] by (simp only: list_all_iff)
  then have "last p \<noteq> CHR ''p''" "lower_char (last p) = last p"
    by (auto simp: lower_char_def is_digit_def Let_def)
  moreover have "last (ToLower (drop k (s @ p))) = lower_char (last p)" if "k < length (s @ p)" for k
    using that \<open>p \<noteq> []\<close> by (simp add: ToLower_def last_map last_drop del: drop_append)
  moreover have "length (s @ p) - 4 < length (s @ p)" using \<open>p \<noteq> []\<close> by simp
  ultimately have p: "last (ToLower (drop (length (s @ p) - 4) (s @ p))) \<noteq> CHR ''p''" by metis
  have "x \<noteq> ''/tcp'' \<and> x \<noteq> ''/udp''" if "last x \<noteq> CHR ''p''" for x using that by auto
  from this [OF p] show ?thesis by (auto simp: L4Proto_def Let_def)
qed

lemma host_port_not_socks:
  "ToLower ((h @ '':'') @ p) \<noteq> ''socks''" "(h @ '':'') @ p \<noteq> ''socks''"
proof -
  have "CHR '':'' \<in> set (ToLower ((h @ '':'') @ p))"
    by (simp add: ToLower_def lower_char_def image_Un)
  then show "ToLower ((h @ '':'') @ p) \<noteq> ''socks''" by auto
  show "(h @ '':'') @ p \<noteq> ''socks''"
  proof
    assume "(h @ '':'') @ p = ''socks''"
    then have "CHR '':'' \<in> set ''socks''" by (metis Un_iff list.set_intros(1) set_append)
    then show False by simp
  qed
qed

lemma channel_serves:
  assumes ok: "if Socks r then RemoteProto r = ''tcp'' else RemoteHost r \<noteq> '''' \<and> isPort (RemotePort r) \<and>
      (RemoteProto r = ''tcp'' \<or> RemoteProto r = ''udp'')"
    and out: "cfg_Outbound (tun_config t)"
  shows "fst (handleSSHChannel True (channel_data r) t) =
    (if Socks r then (if socksServer t then ServeSocks else Rejected ''SOCKS5 is not enabled'')
     else if RemoteProto r = ''udp'' then ServeUDP (ToLower (RemoteHost r @ '':'' @ RemotePort r))
     else ServeTCP (RemoteHost r @ '':'' @ RemotePort r))"
proof (cases "Socks r")
  case True
  then have "channel_data r = ''socks''" using ok by (auto simp: channel_data_def Remote_Remote_def)
  moreover have "L4Proto ''socks'' = (''socks'', '''')" by (rule L4Proto_no_slash) simp
  ultimately show ?thesis using True out by (simp add: handleSSHChannel_def Let_def case_prod_beta)
next
  case False
  then have r: "RemoteHost r \<noteq> ''''" "isPort (RemotePort r)" "RemoteProto r = ''tcp'' \<or> RemoteProto r = ''udp''"
    using ok by auto
  then have remote: "Remote_Remote r = (RemoteHost r @ '':'') @ RemotePort r"
    using False by (simp add: Remote_Remote_def)
  note not_socks = host_port_not_socks [of "RemoteHost r" "RemotePort r"]
  from r(3) show ?thesis
  proof
    assume "RemoteProto r = ''tcp''"
    then have "L4Proto (channel_data r) = ((RemoteHost r @ '':'') @ RemotePort r, '''')"
      using L4Proto_port_end [OF r(2), of "RemoteHost r @ '':''"] by (simp add: channel_data_def remote)
    with \<open>RemoteProto r = ''tcp''\<close> False out not_socks(2) show ?thesis
      by (simp add: handleSSHChannel_def Let_def case_prod_beta)
  next
    assume "RemoteProto r = ''udp''"
    then have "L4Proto (channel_data r) = (ToLower ((RemoteHost r @ '':'') @ RemotePort r), ''udp'')"
      using L4Proto_udp [of "(RemoteHost r @ '':'') @ RemotePort r"] by (simp add: channel_data_def remote)
    with \<open>RemoteProto r = ''udp''\<close> False out not_socks(1) show ?thesis
      by (simp add: handleSSHChannel_def Let_def case_prod_beta)
  qed
qed

text \<open>
  A channel opened for a well-formed remote serves that remote: on a tunnel that allows
  outbound channels, SOCKS remotes go to the SOCKS server if there is one and are refused
  otherwise, udp remotes are forwarded to their lower-cased host and port, and tcp remotes
  are dialled exactly at their host and port.
\<close>

lemma channel_serves_remote:
  assumes wf: "wf_remote r" and out: "cfg_Outbound (tun_config t)"
  shows "fst (handleSSHChannel True (channel_data r) t) =
    (if Socks r then (if socksServer t then ServeSocks else Rejected ''SOCKS5 is not enabled'')
     else if RemoteProto r = ''udp'' then ServeUDP (ToLower (RemoteHost r @ '':'' @ RemotePort r))
     else ServeTCP (RemoteHost r @ '':'' @ RemotePort r))"
  by (rule channel_serves [OF _ out])
    (use wf in \<open>auto simp: wf_remote_def host_tokenD\<close>)

definition sample_tunnel :: "nat Tunnel" where
  "sample_tunnel = New \<lparr>cfg_Inbound = True, cfg_Outbound = True, cfg_Socks = False, cfg_KeepAlive = 25 * second\<rparr>"

theorem channel_serves_remote_witness:
  "fst (handleSSHChannel True (channel_data sample_remote) sample_tunnel) = ServeUDP ''localhost:8080''"
proof -
  have "fst (handleSSHChannel True (channel_data sample_remote) sample_tunnel) = ServeUDP (ToLower ''localhost:8080'')"
    using channel_serves_remote [OF sample_remote_wf, of sample_tunnel]
    by (simp add: sample_tunnel_def New_def sample_remote_def)
  then show ?thesis by (simp add: ToLower_def lower_char_def Let_def)
qed

subsection \<open>Proxies listen and run\<close>

lemma BindRemotes_facts:
  assumes "BindRemotes listen rs t = (e, ps, t')" "rs \<noteq> []" "cfg_Inbound (tun_config t)"
  shows "map proxy_remote ps = take (length ps) rs \<and>
    map proxy_id ps = map (\<lambda>i. proxyCount t + 1 + int i) [0..<length ps] \<and>
    proxyCount t' = proxyCount t + int (length ps) \<and>
    (case e of
       None \<Rightarrow> length ps = length rs
     | Some err \<Rightarrow> length ps < length rs \<and>
         (\<exists>x. err = ProxyFailed x \<and> Proxy_listen listen (rs ! length ps) = Inl x)) \<and>
    list_all (\<lambda>p. Proxy_Run p = Inr (case listener p of StdioProxy \<Rightarrow> RunStdio
      | TcpListener _ \<Rightarrow> RunTCP | UdpListener _ \<Rightarrow> RunUDP)) ps"
proof -
  have "map proxy_remote ps = take (length ps) rs \<and>
    map proxy_id ps = map (\<lambda>i. k + 1 + int i) [0..<length ps] \<and> n = k + int (length ps) \<and>
    (case x of None \<Rightarrow> length ps = length rs
     | Some y \<Rightarrow> length ps < length rs \<and> Proxy_listen listen (rs ! length ps) = Inl y) \<and>
    list_all (\<lambda>p. Proxy_Run p = Inr (case listener p of StdioProxy \<Rightarrow> RunStdio
      | TcpListener _ \<Rightarrow> RunTCP | UdpListener _ \<Rightarrow> RunUDP)) ps"
    if "make_proxies listen rs k = (x, ps, n)" for x ps n k
    using that
  proof (induction rs arbitrary: k ps)
    case (Cons r rs)
    show ?case
    proof (cases "Proxy_listen listen r")
      case (Inl y)
      with Cons.prems show ?thesis by (auto simp: NewProxy_def)
    next
      case (Inr l)
      then obtain ps' where ps: "make_proxies listen rs (k + 1) = (x, ps', n)"
        "ps = \<lparr>proxy_id = k + 1, proxy_count = 0, proxy_remote = r, listener = l\<rparr> # ps'"
        using Cons.prems by (auto simp: NewProxy_def split: prod.splits)
      have "Proxy_Run \<lparr>proxy_id = k + 1, proxy_count = 0, proxy_remote = r, listener = l\<rparr> =
          Inr (case l of StdioProxy \<Rightarrow> RunStdio | TcpListener _ \<Rightarrow> RunTCP | UdpListener _ \<Rightarrow> RunUDP)"
        using Inr by (auto simp: Proxy_listen_def Proxy_Run_def Let_def split: if_splits)
      moreover have "map (\<lambda>i. k + 1 + int i) [0..<Suc m] = (k + 1) # map (\<lambda>i. k + 1 + 1 + int i) [0..<m]" for m
        by (simp add: upt_conv_Cons map_Suc_upt [symmetric] del: upt_Suc)
      ultimately show ?thesis
        using Cons.IH [OF ps(1)] by (auto simp: ps(2) split: option.splits simp del: upt_Suc)
    qed
  qed simp
  from this [of "proxyCount t" _ ps] assms show ?thesis
    by (auto simp: BindRemotes_def split: prod.splits option.splits)
qed

text \<open>
  Binding remotes makes one proxy per remote, in order, with consecutive numbers, until
  a remote cannot be listened on: then it fails with that remote's error, and the proxies
  made before it, already listening, are the prefix of the remotes before it. Every proxy
  made runs the loop of its kind and does not panic.
\<close>

lemma BindRemotes_spec:
  assumes "BindRemotes listen rs t = (e, ps, t')" "rs \<noteq> []" "cfg_Inbound (tun_config t)"
  shows "map proxy_remote ps = take (length ps) rs \<and>
    map proxy_id ps = map (\<lambda>i. proxyCount t + 1 + int i) [0..<length ps] \<and>
    proxyCount t' = proxyCount t + int (length ps) \<and>
    (case e of
       None \<Rightarrow> length ps = length rs
     | Some err \<Rightarrow> length ps < length rs \<and>
         (\<exists>x. err = ProxyFailed x \<and> Proxy_listen listen (rs ! length ps) = Inl x)) \<and>
    list_all (\<lambda>p. Proxy_Run p = Inr (case listener p of StdioProxy \<Rightarrow> RunStdio
      | TcpListener _ \<Rightarrow> RunTCP | UdpListener _ \<Rightarrow> RunUDP)) ps"
  using assms by (rule BindRemotes_facts)

theorem BindRemotes_spec_witness:
  "\<exists>t'. BindRemotes (\<lambda>_ addr. addr = ''0.0.0.0:53'')
      [plain_remote ''0.0.0.0'' ''53'' ''127.0.0.1'' ''53'' ''tcp'' False,
       plain_remote ''0.0.0.0'' ''54'' ''127.0.0.1'' ''54'' ''tcp'' False] sample_tunnel =
     (Some (ProxyFailed (ListenFailed ''0.0.0.0:54'')),
      [\<lparr>proxy_id = 1, proxy_count = 0, proxy_remote = plain_remote ''0.0.0.0'' ''53'' ''127.0.0.1'' ''53'' ''tcp'' False,
        listener = TcpListener ''0.0.0.0:53''\<rparr>], t') \<and> proxyCount t' = 1"
proof -
  obtain t' where run: "BindRemotes (\<lambda>_ addr. addr = ''0.0.0.0:53'')
      [plain_remote ''0.0.0.0'' ''53'' ''127.0.0.1'' ''53'' ''tcp'' False,
       plain_remote ''0.0.0.0'' ''54'' ''127.0.0.1'' ''54'' ''tcp'' False] sample_tunnel =
     (Some (ProxyFailed (ListenFailed ''0.0.0.0:54'')),
      [\<lparr>proxy_id = 1, proxy_count = 0, proxy_remote = plain_remote ''0.0.0.0'' ''53'' ''127.0.0.1'' ''53'' ''tcp'' False,
        listener = TcpListener ''0.0.0.0:53''\<rparr>], t')"
    by (simp add: BindRemotes_def NewProxy_def Proxy_listen_def plain_remote_def sample_tunnel_def New_def)
  from BindRemotes_spec [OF run] run show ?thesis
    by (simp add: sample_tunnel_def New_def)
qed

subsection \<open>Keep-alive and counters\<close>

definition good_pong :: "bytes option \<Rightarrow> bool" where
  "good_pong reply \<longleftrightarrow> reply = Some [] \<or> reply = Some ''pong''"

lemma good_pong_simps [simp]: "\<not> good_pong None" "good_pong (Some b) \<longleftrightarrow> b = [] \<or> b = ''pong''"
  by (simp_all add: good_pong_def)

text \<open>
  The keep-alive loop closes the connection after the first reply that is an error or
  neither empty nor \<open>pong\<close>, and keeps pinging as long as every reply is good.
\<close>

lemma keepAliveLoop_spec:
  "keepAliveLoop replies =
     (if list_all good_pong replies then (length replies, False)
      else (Suc (length (takeWhile good_pong replies)), True))"
  by (induction replies) (auto split: option.splits)

text \<open>Channels coming and going: the handlers' starts and ends in the order they happen.\<close>

datatype channel_event = ChannelArrives bool string | ChannelCloses

definition served :: "channel_service \<Rightarrow> bool" where
  "served s = (case s of Rejected _ \<Rightarrow> False | AcceptFailed \<Rightarrow> False | _ \<Rightarrow> True)"

fun run_channels :: "channel_event list \<Rightarrow> nat \<times> nat \<times> 'conn Tunnel \<Rightarrow> nat \<times> nat \<times> 'conn Tunnel" where
  "run_channels [] s = s"
| "run_channels (ChannelArrives ok extra # es) (m, k, t) =
     (case handleSSHChannel ok extra t of
        (s, t') \<Rightarrow> run_channels es (if served s then Suc m else m, k, t'))"
| "run_channels (ChannelCloses # es) (m, k, t) = run_channels es (m, Suc k, channel_end t)"

lemma handleSSHChannel_stats:
  "handleSSHChannel ok extra t = (s, t') \<Longrightarrow>
   connStats t' = (if served s then \<lparr>conn_count = conn_count (connStats t) + 1, conn_open = conn_open (connStats t) + 1\<rparr>
     else connStats t)"
  by (auto simp: handleSSHChannel_def Let_def served_def ConnCount_New_def ConnCount_Open_def split: prod.splits if_splits)

text \<open>
  The counters of a tunnel are exact, modulo their 32 bits: after any sequence of
  arriving and closing channels, the first counts the channels served and the second those
  served and not yet closed.
\<close>

lemma channel_counters:
  "case run_channels es (0, 0, New c) of
     (m, k, t) \<Rightarrow> conn_count (connStats t) = of_nat m \<and> conn_open (connStats t) = of_nat m - of_nat k"
proof -
  have "case run_channels es (m, k, t) of
      (m', k', t') \<Rightarrow> conn_count (connStats t') = of_nat m' \<and> conn_open (connStats t') = of_nat m' - of_nat k'"
    if "conn_count (connStats t) = of_nat m" "conn_open (connStats t) = of_nat m - of_nat k" for m k and t :: "'conn Tunnel"
    using that
  proof (induction es "(m, k, t)" arbitrary: m k t rule: run_channels.induct)
    case (2 ok extra es m k t)
    obtain s t' where h: "handleSSHChannel ok extra t = (s, t')" by fastforce
    show ?case
      using "2.hyps" [OF h [symmetric]] "2.prems" handleSSHChannel_stats [OF h] by (simp add: h)
  next
    case (3 es m k t)
    then show ?case by (simp add: channel_end_def ConnCount_Close_def)
  qed simp
  from this [of "New c" 0 0] show ?thesis by (simp add: New_def)
qed

end
