(* ===== verification/Client.thy ===== *)
theory Client
  imports Remotes Users Keys Tunnel
begin

section \<open>The client\<close>

text \<open>
  Models client/client.go and client/client_connect.go: preparing a client from its
  configuration, verifying the server's key, choosing the outbound proxy, one connection
  and the loop that retries it. Parsing URLs, reading TLS files, binding addresses, hash
  functions and the backoff timer are parameters.
\<close>

subsection \<open>Configuration\<close>

record ClientTLSConfig =
  SkipVerify :: bool
  TLS_CA :: string
  TLS_Cert :: string
  TLS_Key :: string
  ServerName :: string

record ClientConfig =
  Fingerprint :: string
  ClientAuth :: string
  ClientKeepAlive :: time
  MaxRetryCount :: int
  MaxRetryInterval :: time
  ServerAddr :: string
  ClientProxy :: string
  RemoteSpecs :: "string list"
  TLS :: ClientTLSConfig

record GoURL =
  Scheme :: string
  Host :: string

datatype client_error =
    BadServerURL
  | CALoadFailed
  | CADecodeFailed
  | KeyPairFailed
  | CertKeyIncomplete
  | BadRemote string RemoteError
  | SecondStdio
  | ClientCannotListen Remote
  | BadProxyURL

text \<open>What the TLS configuration ends up with; none for a plain connection.\<close>

record tls_settings =
  tls_ServerName :: string
  tls_Insecure :: bool
  tls_RootCA :: "string option"
  tls_KeyPair :: "(string \<times> string) option"

record Client =
  client_config :: ClientConfig
  computed_remotes :: "Remote list"
  server_scheme :: string
  server_host :: string
  ssh_user :: string
  ssh_pass :: string
  tls_config :: "tls_settings option"
  proxy_url :: "GoURL option"
  client_tunnel :: TunnelConfig

subsection \<open>NewClient\<close>

text \<open>\<open>strings.Replace(s, old, new, 1)\<close>: the first occurrence.\<close>

fun Replace1 :: "string \<Rightarrow> string \<Rightarrow> string \<Rightarrow> string" where
  "Replace1 [] old repl = (if old = [] then repl else [])"
| "Replace1 (c # cs) old repl =
     (if HasPrefix (c # cs) old then repl @ drop (length old) (c # cs) else c # Replace1 cs old repl)"

text \<open>\<^verbatim>\<open>:\d+$\<close> on the host.\<close>

definition has_port :: "string \<Rightarrow> bool" where
  "has_port h =
     (let ds = takeWhile is_digit (rev h); rest = dropWhile is_digit (rev h)
      in ds \<noteq> [] \<and> rest \<noteq> [] \<and> hd rest = CHR '':'')"

definition default_server :: "string \<Rightarrow> string" where
  "default_server s = (if \<not> HasPrefix s ''http'' then ''http://'' @ s else s)"

definition websocket_url :: "GoURL \<Rightarrow> GoURL" where
  "websocket_url u =
     (let u = u\<lparr>Scheme := Replace1 (Scheme u) ''http'' ''ws''\<rparr> in
      if \<not> has_port (Host u)
      then u\<lparr>Host := Host u @ (if Scheme u = ''wss'' then '':443'' else '':80'')\<rparr> else u)"

text \<open>
  \<open>read_file\<close> reads the CA bundle, \<open>certs_ok\<close> says whether its PEM content parses,
  \<open>load_pair\<close> whether a certificate and key load as a pair.
\<close>

definition client_tls ::
  "(string \<Rightarrow> bytes option) \<Rightarrow> (bytes \<Rightarrow> bool) \<Rightarrow> (string \<Rightarrow> string \<Rightarrow> bool) \<Rightarrow> ClientTLSConfig \<Rightarrow>
   client_error + tls_settings" where
  "client_tls read_file certs_ok load_pair c =
     (let tc = \<lparr>tls_ServerName = ServerName c, tls_Insecure = False, tls_RootCA = None, tls_KeyPair = None\<rparr>;
          verified =
            (if SkipVerify c then Inr (tc\<lparr>tls_Insecure := True\<rparr>)
             else if TLS_CA c \<noteq> '''' then
               (case read_file (TLS_CA c) of
                  None \<Rightarrow> Inl CALoadFailed
                | Some b \<Rightarrow> if \<not> certs_ok b then Inl CADecodeFailed else Inr (tc\<lparr>tls_RootCA := Some (TLS_CA c)\<rparr>))
             else Inr tc)
      in case verified of
           Inl e \<Rightarrow> Inl e
         | Inr tc \<Rightarrow>
             (if TLS_Cert c \<noteq> '''' \<and> TLS_Key c \<noteq> '''' then
                (if load_pair (TLS_Cert c) (TLS_Key c)
                 then Inr (tc\<lparr>tls_KeyPair := Some (TLS_Cert c, TLS_Key c)\<rparr>) else Inl KeyPairFailed)
              else if TLS_Cert c \<noteq> '''' \<or> TLS_Key c \<noteq> '''' then Inl CertKeyIncomplete
              else Inr tc))"

record remote_flags =
  hasReverse :: bool
  hasSocks :: bool
  hasStdio :: bool

fun client_remotes ::
  "(string \<Rightarrow> string \<Rightarrow> bool) \<Rightarrow> string list \<Rightarrow> remote_flags \<Rightarrow> client_error + (Remote list \<times> remote_flags)" where
  "client_remotes bind [] f = Inr ([], f)"
| "client_remotes bind (s # ss) f =
     (case DecodeRemote s of
        Inl e \<Rightarrow> Inl (BadRemote s e)
      | Inr r \<Rightarrow>
          (let f = (if Socks r then f\<lparr>hasSocks := True\<rparr> else f);
               f = (if Reverse r then f\<lparr>hasReverse := True\<rparr> else f)
           in if Stdio r \<and> hasStdio f then Inl SecondStdio
              else (let f = (if Stdio r then f\<lparr>hasStdio := True\<rparr> else f) in
                    if \<not> Reverse r \<and> \<not> Stdio r \<and> \<not> CanListen bind r then Inl (ClientCannotListen r)
                    else (case client_remotes bind ss f of
                            Inl e \<Rightarrow> Inl e
                          | Inr (rs, f) \<Rightarrow> Inr (r # rs, f)))))"

definition NewClient ::
  "(string \<Rightarrow> GoURL option) \<Rightarrow> (string \<Rightarrow> bytes option) \<Rightarrow> (bytes \<Rightarrow> bool) \<Rightarrow> (string \<Rightarrow> string \<Rightarrow> bool) \<Rightarrow>
   (string \<Rightarrow> string \<Rightarrow> bool) \<Rightarrow> ClientConfig \<Rightarrow> client_error + Client" where
  "NewClient url_parse read_file certs_ok load_pair bind c0 =
     (let c1 = c0\<lparr>ServerAddr := default_server (ServerAddr c0)\<rparr>;
          c = (if MaxRetryInterval c1 < second then c1\<lparr>MaxRetryInterval := 5 * minute\<rparr> else c1)
      in case url_parse (ServerAddr c) of
           None \<Rightarrow> Inl BadServerURL
         | Some u0 \<Rightarrow>
             (let u = websocket_url u0 in
              case (if Scheme u = ''wss'' then map_sum id Some (client_tls read_file certs_ok load_pair (TLS c))
                    else Inr None) of
                Inl e \<Rightarrow> Inl e
              | Inr tc \<Rightarrow>
                  (case client_remotes bind (RemoteSpecs c) \<lparr>hasReverse = False, hasSocks = False, hasStdio = False\<rparr> of
                     Inl e \<Rightarrow> Inl e
                   | Inr (rs, f) \<Rightarrow>
                       (case (if ClientProxy c = '''' then Inr None
                              else (case url_parse (ClientProxy c) of None \<Rightarrow> Inl BadProxyURL | Some p \<Rightarrow> Inr (Some p))) of
                          Inl e \<Rightarrow> Inl e
                        | Inr px \<Rightarrow>
                            (let (user, pass) = ParseAuth (ClientAuth c) in
                             Inr \<lparr>client_config = c, computed_remotes = rs, server_scheme = Scheme u,
                                  server_host = Host u, ssh_user = user, ssh_pass = pass, tls_config = tc,
                                  proxy_url = px,
                                  client_tunnel = \<lparr>cfg_Inbound = True, cfg_Outbound = hasReverse f,
                                    cfg_Socks = hasReverse f \<and> hasSocks f,
                                    cfg_KeepAlive = ClientKeepAlive c\<rparr>\<rparr>)))))"

lemma client_remotes_ok:
  assumes "client_remotes bind ss f = Inr (rs, f')"
  shows "map DecodeRemote ss = map Inr rs"
    "list_all (\<lambda>r. Reverse r \<or> Stdio r \<or> CanListen bind r) rs"
    "hasReverse f' \<longleftrightarrow> hasReverse f \<or> (\<exists>r\<in>set rs. Reverse r)"
    "hasSocks f' \<longleftrightarrow> hasSocks f \<or> (\<exists>r\<in>set rs. Socks r)"
    "length (filter Stdio rs) \<le> (if hasStdio f then 0 else 1)"
proof -
  have "map DecodeRemote ss = map Inr rs \<and> list_all (\<lambda>r. Reverse r \<or> Stdio r \<or> CanListen bind r) rs \<and>
      (hasReverse f' \<longleftrightarrow> hasReverse f \<or> (\<exists>r\<in>set rs. Reverse r)) \<and>
      (hasSocks f' \<longleftrightarrow> hasSocks f \<or> (\<exists>r\<in>set rs. Socks r)) \<and>
      length (filter Stdio rs) \<le> (if hasStdio f then 0 else 1)"
    using assms
  proof (induction ss arbitrary: f rs)
    case (Cons s ss)
    obtain r where r: "DecodeRemote s = Inr r" using Cons.prems by (auto split: sum.splits)
    define f1 where "f1 = (if Socks r then f\<lparr>hasSocks := True\<rparr> else f)"
    define f2 where "f2 = (if Reverse r then f1\<lparr>hasReverse := True\<rparr> else f1)"
    define f3 where "f3 = (if Stdio r then f2\<lparr>hasStdio := True\<rparr> else f2)"
    have flags: "hasStdio f2 = hasStdio f" "hasReverse f3 \<longleftrightarrow> hasReverse f \<or> Reverse r"
      "hasSocks f3 \<longleftrightarrow> hasSocks f \<or> Socks r" "hasStdio f3 \<longleftrightarrow> hasStdio f \<or> Stdio r"
      by (auto simp: f1_def f2_def f3_def)
    have "\<not> (Stdio r \<and> hasStdio f)" "Reverse r \<or> Stdio r \<or> CanListen bind r"
      and "\<exists>rs'. client_remotes bind ss f3 = Inr (rs', f') \<and> rs = r # rs'"
      using Cons.prems unfolding client_remotes.simps r sum.case Let_def
        f1_def [symmetric] f2_def [symmetric] f3_def [symmetric]
      by (auto simp: flags split: if_split_asm sum.split_asm)
    then obtain rs' where ok: "client_remotes bind ss f3 = Inr (rs', f')" "rs = r # rs'"
        "Stdio r \<longrightarrow> \<not> hasStdio f" "Reverse r \<or> Stdio r \<or> CanListen bind r" by blast
    from Cons.IH [OF ok(1)] ok(2-) show ?case
      by (auto simp: flags r split: if_splits)
  qed simp
  then show "map DecodeRemote ss = map Inr rs" "list_all (\<lambda>r. Reverse r \<or> Stdio r \<or> CanListen bind r) rs"
    "hasReverse f' \<longleftrightarrow> hasReverse f \<or> (\<exists>r\<in>set rs. Reverse r)"
    "hasSocks f' \<longleftrightarrow> hasSocks f \<or> (\<exists>r\<in>set rs. Socks r)"
    "length (filter Stdio rs) \<le> (if hasStdio f then 0 else 1)"
    by blast+
qed

lemma has_port_default: "has_port (h @ '':443'')" "has_port (h @ '':80'')"
  by (simp_all add: has_port_def is_digit_def Let_def)

lemma NewClient_facts:
  assumes "NewClient url_parse read_file certs_ok load_pair bind c = Inr cl"
  shows "map DecodeRemote (RemoteSpecs c) = map Inr (computed_remotes cl) \<and>
    list_all (\<lambda>r. Reverse r \<or> Stdio r \<or> CanListen bind r) (computed_remotes cl) \<and>
    length (filter Stdio (computed_remotes cl)) \<le> 1 \<and>
    (cfg_Outbound (client_tunnel cl) \<longleftrightarrow> (\<exists>r\<in>set (computed_remotes cl). Reverse r)) \<and>
    (cfg_Socks (client_tunnel cl) \<longleftrightarrow>
       (\<exists>r\<in>set (computed_remotes cl). Reverse r) \<and> (\<exists>r\<in>set (computed_remotes cl). Socks r)) \<and>
    has_port (server_host cl) \<and> MaxRetryInterval (client_config cl) \<ge> second"
proof -
  define c1 where "c1 = c\<lparr>ServerAddr := default_server (ServerAddr c)\<rparr>"
  define c2 where "c2 = (if MaxRetryInterval c1 < second then c1\<lparr>MaxRetryInterval := 5 * minute\<rparr> else c1)"
  let ?f = "\<lparr>hasReverse = False, hasSocks = False, hasStdio = False\<rparr>"
  have same: "RemoteSpecs c2 = RemoteSpecs c" "MaxRetryInterval c2 \<ge> second"
    by (auto simp: c2_def c1_def)
  obtain u0 rs f px user pass tc where
    "client_remotes bind (RemoteSpecs c2) ?f = Inr (rs, f)" and
    cl: "cl = \<lparr>client_config = c2, computed_remotes = rs, server_scheme = Scheme (websocket_url u0),
      server_host = Host (websocket_url u0), ssh_user = user, ssh_pass = pass, tls_config = tc,
      proxy_url = px, client_tunnel = \<lparr>cfg_Inbound = True, cfg_Outbound = hasReverse f,
        cfg_Socks = hasReverse f \<and> hasSocks f, cfg_KeepAlive = ClientKeepAlive c2\<rparr>\<rparr>"
    using assms unfolding NewClient_def Let_def c1_def [symmetric] c2_def [symmetric]
    by (auto split: option.split_asm sum.split_asm prod.split_asm)
  moreover have "has_port (Host (websocket_url u0))"
    by (simp add: websocket_url_def Let_def has_port_default)
  ultimately show ?thesis
    using client_remotes_ok [of bind "RemoteSpecs c2" ?f rs f] same by simp
qed

text \<open>
  What a client that was made from a configuration is ready for: its remotes are the
  decoded specifications, in order; every remote that is neither reversed nor stdio can be
  listened on, and at most one is stdio; its tunnel accepts outbound channels exactly when
  some remote is reversed, and SOCKS exactly when moreover some remote is SOCKS; the server
  address has a port; and the longest retry interval is at least a second.
\<close>

lemma NewClient_ok:
  assumes "NewClient url_parse read_file certs_ok load_pair bind c = Inr cl"
  shows "map DecodeRemote (RemoteSpecs c) = map Inr (computed_remotes cl) \<and>
    list_all (\<lambda>r. Reverse r \<or> Stdio r \<or> CanListen bind r) (computed_remotes cl) \<and>
    length (filter Stdio (computed_remotes cl)) \<le> 1 \<and>
    (cfg_Outbound (client_tunnel cl) \<longleftrightarrow> (\<exists>r\<in>set (computed_remotes cl). Reverse r)) \<and>
    (cfg_Socks (client_tunnel cl) \<longleftrightarrow>
       (\<exists>r\<in>set (computed_remotes cl). Reverse r) \<and> (\<exists>r\<in>set (computed_remotes cl). Socks r)) \<and>
    has_port (server_host cl) \<and> MaxRetryInterval (client_config cl) \<ge> second"
  using assms by (rule NewClient_facts)

subsection \<open>Verifying the server\<close>

definition hex_digit :: "nat \<Rightarrow> char" where
  "hex_digit d = (if d < 10 then char_of (48 + d) else char_of (87 + d))"

definition hex2 :: "char \<Rightarrow> string" where
  "hex2 b = [hex_digit (of_char b div 16), hex_digit (of_char b mod 16)]"

text \<open>\<open>key\<close> is the marshalled public key; the result is whether it is accepted.\<close>

definition verifyLegacyFingerprint :: "(bytes \<Rightarrow> bytes) \<Rightarrow> string \<Rightarrow> bytes \<Rightarrow> bool" where
  "verifyLegacyFingerprint md5 expect key =
     (let got = Join (map hex2 (md5 key)) '':'' in if \<not> HasPrefix got expect then False else True)"

definition verifyServer :: "(bytes \<Rightarrow> bytes) \<Rightarrow> (bytes \<Rightarrow> bytes) \<Rightarrow> string \<Rightarrow> bytes \<Rightarrow> bool" where
  "verifyServer sha256 md5 expect key =
     (if expect = '''' then True
      else (let got = FingerprintKey sha256 key in
            case base64_decode True expect of
              None \<Rightarrow> verifyLegacyFingerprint md5 expect key
            | Some _ \<Rightarrow> if got \<noteq> expect then False else True))"

text \<open>
  Checking a fingerprint: the server's own fingerprint is accepted; any fingerprint that
  is valid base64 is accepted only for keys with exactly the hash it encodes; and a
  fingerprint that is not valid base64 is accepted for every key whose colon-separated MD5
  fingerprint begins with it, however short it is.
\<close>

lemma verifyServer_spec:
  "verifyServer sha256 md5 (FingerprintKey sha256 key) key \<and>
   (case base64_decode True expect of
      Some h \<Rightarrow> (verifyServer sha256 md5 expect key \<longleftrightarrow> expect = '''' \<or> expect = base64_encode True h \<and> h = sha256 key)
    | None \<Rightarrow> (verifyServer sha256 md5 expect key \<longleftrightarrow> prefix expect (Join (map hex2 (md5 key)) '':'')))"
proof -
  have "verifyServer sha256 md5 (FingerprintKey sha256 key) key"
    by (simp add: verifyServer_def FingerprintKey_def base64_decode_encode)
  moreover have "base64_decode True '''' = Some []" by (simp add: base64_decode_def)
  then have "expect \<noteq> ''''" if "base64_decode True expect = None" using that by auto
  ultimately show ?thesis
    by (auto simp: verifyServer_def verifyLegacyFingerprint_def FingerprintKey_def HasPrefix_def Let_def
        base64_decode_encode split: option.split)
qed

text \<open>A single character is accepted as the fingerprint of one key in sixteen.\<close>

lemma one_character_fingerprint:
  assumes "length (md5 key) = 16"
  shows "\<exists>d < 16. verifyServer sha256 md5 [hex_digit d] key"
proof -
  obtain b bs where m: "md5 key = b # bs" using assms by (cases "md5 key") auto
  have "base64_decode True [c] = None \<or> base64_decode True [c] = Some []" for c
    by (simp add: base64_decode_def not_newline_def)
  moreover have "hex_digit d \<noteq> CHR 0x0A \<and> hex_digit d \<noteq> CHR 0x0D" if "d < 16" for d
  proof -
    have "(of_char (hex_digit d) :: nat) \<ge> 48" using that by (auto simp: hex_digit_def)
    then show ?thesis by auto
  qed
  then have none: "base64_decode True [hex_digit d] = None" if "d < 16" for d
    using that by (simp add: base64_decode_def not_newline_def)
  have d: "(of_char b :: nat) div 16 < 16" by (simp add: less_mult_imp_div_less)
  have "HasPrefix (Join (map hex2 (md5 key)) '':'') [hex_digit (of_char b div 16)]"
    by (cases bs) (simp_all add: m hex2_def HasPrefix_def)
  with d none [OF d] show ?thesis
    by (intro exI [of _ "of_char b div 16"]) (simp add: verifyServer_def verifyLegacyFingerprint_def Let_def)
qed

theorem NewClient_ok_witness:
  "\<exists>cl. NewClient (\<lambda>_. Some \<lparr>Scheme = ''http'', Host = ''tunnel.example''\<rparr>) (\<lambda>_. None) (\<lambda>_. True) (\<lambda>_ _. True) (\<lambda>_ _. True)
     \<lparr>Fingerprint = '''', ClientAuth = ''bob:pw'', ClientKeepAlive = 25 * second, MaxRetryCount = -1,
      MaxRetryInterval = 0, ServerAddr = ''tunnel.example'', ClientProxy = '''', RemoteSpecs = [''R:2222:db:22''],
      TLS = \<lparr>SkipVerify = False, TLS_CA = '''', TLS_Cert = '''', TLS_Key = '''', ServerName = ''''\<rparr>\<rparr> = Inr cl \<and>
    cfg_Outbound (client_tunnel cl) \<and> has_port (server_host cl)"
proof -
  let ?r = "\<lparr>LocalHost = ''0.0.0.0'', LocalPort = ''2222'', LocalProto = ''tcp'', RemoteHost = ''db'',
    RemotePort = ''22'', RemoteProto = ''tcp'', Socks = False, Reverse = True, Stdio = False\<rparr>"
  let ?new = "NewClient (\<lambda>_. Some \<lparr>Scheme = ''http'', Host = ''tunnel.example''\<rparr>) (\<lambda>_. None) (\<lambda>_. True) (\<lambda>_ _. True) (\<lambda>_ _. True)
     \<lparr>Fingerprint = '''', ClientAuth = ''bob:pw'', ClientKeepAlive = 25 * second, MaxRetryCount = -1,
      MaxRetryInterval = 0, ServerAddr = ''tunnel.example'', ClientProxy = '''', RemoteSpecs = [''R:2222:db:22''],
      TLS = \<lparr>SkipVerify = False, TLS_CA = '''', TLS_Cert = '''', TLS_Key = '''', ServerName = ''''\<rparr>\<rparr>"
  have dec: "DecodeRemote ''R:2222:db:22'' = Inr ?r" by (simp add: decode_eval)
  have "Scheme (websocket_url \<lparr>Scheme = ''http'', Host = ''tunnel.example''\<rparr>) = ''ws''"
    by (simp add: websocket_url_def Let_def HasPrefix_def)
  then obtain cl where new: "?new = Inr cl"
    by (cases "ParseAuth ''bob:pw''") (simp add: NewClient_def Let_def dec)
  have "\<exists>r\<in>set (computed_remotes cl). Reverse r"
    using NewClient_ok [OF new] dec by (auto simp: Cons_eq_map_conv)
  with NewClient_ok [OF new] new show ?thesis by blast
qed

subsection \<open>The outbound proxy\<close>

datatype proxy_choice =
    ConnectProxy GoURL
  | SocksProxy string "(string \<times> string) option"
  | UnsupportedProxy string
  | SocksDialFailed

text \<open>\<open>userinfo\<close> is the user and password of the proxy's URL, \<open>dialer\<close> whether the dialer is made.\<close>

definition setProxy :: "GoURL \<Rightarrow> (string \<times> string) option \<Rightarrow> bool \<Rightarrow> proxy_choice" where
  "setProxy u userinfo dialer =
     (if \<not> HasPrefix (Scheme u) ''socks'' then ConnectProxy u
      else if Scheme u \<noteq> ''socks'' \<and> Scheme u \<noteq> ''socks5h'' then UnsupportedProxy (Scheme u)
      else if \<not> dialer then SocksDialFailed
      else SocksProxy (Host u) userinfo)"

subsection \<open>One connection\<close>

datatype connect_error =
    Cancelled
  | ProxyError proxy_choice
  | DialError
  | ClientHandshakeError
  | ConfigSendError
  | ConfigRejected bytes
  | TunnelClosed

text \<open>
  The environment of one attempt: whether the context is done, the proxy to set up, whether
  dialling and the SSH handshake succeed, the reply to the configuration (none if sending
  fails), and for how long the tunnel was up, counted from the configuration. The context
  of the dialler is \<open>ctx\<close>'s, so dialling fails when it is cancelled later.
\<close>

record attempt_env =
  ctx_done :: bool
  via_proxy :: "proxy_choice option"
  dialled :: bool
  handshaken :: bool
  config_reply :: "bytes option"
  up_time :: time

definition connectionOnce :: "attempt_env \<Rightarrow> bool \<times> connect_error" where
  "connectionOnce e =
     (if ctx_done e then (False, Cancelled)
      else (case via_proxy e of
              Some (UnsupportedProxy s) \<Rightarrow> (False, ProxyError (UnsupportedProxy s))
            | Some SocksDialFailed \<Rightarrow> (False, ProxyError SocksDialFailed)
            | _ \<Rightarrow>
                (if \<not> dialled e then (False, DialError)
                 else if \<not> handshaken e then (False, ClientHandshakeError)
                 else (case config_reply e of
                         None \<Rightarrow> (False, ConfigSendError)
                       | Some configerr \<Rightarrow>
                           (if length configerr > 0 then (False, ConfigRejected configerr)
                            else (let connected = up_time e > 5 * second in (connected, TunnelClosed)))))))"

subsection \<open>The connection loop\<close>

text \<open>
  The backoff timer is third-party code: \<open>attempt\<close>, \<open>duration\<close> and \<open>reset\<close> are its
  operations on its state. Each round is one attempt and, unless the loop gives up, the end
  of the wait: the timer (or a signal), or the context. The loop runs on the list of the
  rounds to come; with none left it is still running. It returns nil in both of its ends, and
  after giving up it stops the client.
\<close>

datatype wait_end = RetryNow | ContextDone

datatype loop_end = GaveUp | LoopCancelled | Running

fun connectionLoop ::
  "('b \<Rightarrow> nat) \<Rightarrow> ('b \<Rightarrow> time \<times> 'b) \<Rightarrow> ('b \<Rightarrow> 'b) \<Rightarrow> int \<Rightarrow> (attempt_env \<times> wait_end) list \<Rightarrow> 'b \<Rightarrow>
   loop_end \<times> nat" where
  "connectionLoop attempt duration reset maxAttempt [] b = (Running, 0)"
| "connectionLoop attempt duration reset maxAttempt ((e, w) # rounds) b =
     (let (connected, err) = connectionOnce e;
          b = (if connected then reset b else b)
      in if maxAttempt \<ge> 0 \<and> int (attempt b) \<ge> maxAttempt then (GaveUp, 1)
         else (let (d, b) = duration b in
               case w of
                 ContextDone \<Rightarrow> (LoopCancelled, 1)
               | RetryNow \<Rightarrow>
                   (let (r, n) = connectionLoop attempt duration reset maxAttempt rounds b in (r, Suc n))))"

text \<open>The number of failed attempts since the last time the tunnel was up for five seconds.\<close>

fun failures :: "(attempt_env \<times> wait_end) list \<Rightarrow> nat \<Rightarrow> nat" where
  "failures [] k = k"
| "failures ((e, w) # rounds) k = failures rounds (if fst (connectionOnce e) then 1 else Suc k)"

lemma connectionLoop_waits:
  assumes backoff: "\<And>b. attempt (reset b) = 0" "\<And>b. attempt (snd (duration b)) = Suc (attempt b)"
    and "list_all (\<lambda>(e, w). w = RetryNow) rounds"
  shows "connectionLoop attempt duration reset maxAttempt rounds b =
    (if \<exists>n < length rounds. maxAttempt \<ge> 0 \<and> int (failures (take (Suc n) rounds) (attempt b)) > maxAttempt
     then (GaveUp, Suc (LEAST n. n < length rounds \<and> int (failures (take (Suc n) rounds) (attempt b)) > maxAttempt))
     else (Running, length rounds))"
  using assms(3)
proof (induction rounds arbitrary: b)
  case (Cons x rounds)
  obtain e where x: "x = (e, RetryNow)" using Cons.prems by (cases x) auto
  define b1 where "b1 = (if fst (connectionOnce e) then reset b else b)"
  define k1 where "k1 = (if fst (connectionOnce e) then 1 else Suc (attempt b))"
  have k1: "Suc (attempt b1) = k1" "attempt (snd (duration b1)) = k1"
    by (simp_all add: b1_def k1_def backoff)
  let ?bad = "\<lambda>n. n < length rounds \<and> int (failures (take (Suc n) rounds) k1) > maxAttempt"
  let ?bad' = "\<lambda>n. n < length (x # rounds) \<and> int (failures (take (Suc n) (x # rounds)) (attempt b)) > maxAttempt"
  have bad0: "?bad' 0 \<longleftrightarrow> int (attempt b1) \<ge> maxAttempt"
    using k1(1) by (auto simp: x k1_def)
  have badS: "?bad' (Suc n) \<longleftrightarrow> ?bad n" for n
    by (simp add: x k1_def)
  have step: "connectionLoop attempt duration reset maxAttempt (x # rounds) b =
      (if maxAttempt \<ge> 0 \<and> int (attempt b1) \<ge> maxAttempt then (GaveUp, 1)
       else map_prod id Suc (connectionLoop attempt duration reset maxAttempt rounds (snd (duration b1))))"
    by (simp add: x b1_def case_prod_beta Let_def prod_eq_iff)
  show ?case
  proof (cases "maxAttempt \<ge> 0 \<and> ?bad' 0")
    case True
    then have "(LEAST n. ?bad' n) = 0" by (intro Least_equality) auto
    with True show ?thesis unfolding step bad0 [symmetric] by auto
  next
    case False
    have ex: "(\<exists>n<length (x # rounds). maxAttempt \<ge> 0 \<and> int (failures (take (Suc n) (x # rounds)) (attempt b)) > maxAttempt)
        \<longleftrightarrow> (\<exists>n<length rounds. maxAttempt \<ge> 0 \<and> int (failures (take (Suc n) rounds) k1) > maxAttempt)"
      using False badS by (metis not0_implies_Suc)
    have least: "(LEAST n. ?bad' n) = Suc (LEAST n. ?bad n)" if "maxAttempt \<ge> 0" "?bad n" for n
    proof -
      have "?bad' (Suc n)" using that badS by blast
      moreover have "\<not> ?bad' 0" using False that by blast
      ultimately show ?thesis by (subst Least_Suc [of ?bad', where n = "Suc n"]) (simp_all only: badS not_False_eq_True simp_thms)
    qed
    show ?thesis
      using False Cons least unfolding step bad0 [symmetric] ex by (auto simp: k1)
  qed
qed simp

text \<open>
  C31: when the client stops retrying, with no cancellation: with a backoff timer that counts
  its delays since its last reset, the loop gives up exactly at the first attempt at which
  the attempts since the tunnel was last up for five seconds exceed the configured maximum;
  with a negative maximum, or before that, it is still running after every attempt.
\<close>

theorem connectionLoop_gives_up:
  assumes "\<And>b. attempt (reset b) = 0" "\<And>b. attempt (snd (duration b)) = Suc (attempt b)" "attempt b = 0"
    and "list_all (\<lambda>(e, w). w = RetryNow) rounds"
  shows "connectionLoop attempt duration reset maxAttempt rounds b =
    (if \<exists>n < length rounds. maxAttempt \<ge> 0 \<and> int (failures (take (Suc n) rounds) 0) > maxAttempt
     then (GaveUp, Suc (LEAST n. n < length rounds \<and> int (failures (take (Suc n) rounds) 0) > maxAttempt))
     else (Running, length rounds))"
  using connectionLoop_waits [of attempt reset duration rounds maxAttempt b, OF assms(1,2,4)]
  unfolding assms(3) .

definition failed_attempt :: attempt_env where
  "failed_attempt = \<lparr>ctx_done = False, via_proxy = None, dialled = False, handshaken = False,
     config_reply = None, up_time = 0\<rparr>"

theorem connectionLoop_gives_up_witness:
  "connectionLoop (\<lambda>n. n) (\<lambda>n. (second, Suc n)) (\<lambda>_. 0) 2 (replicate 5 (failed_attempt, RetryNow)) 0 = (GaveUp, 3)"
proof -
  have f: "failures (replicate n (failed_attempt, RetryNow)) k = n + k" for n k
    by (induction n arbitrary: k) (simp_all add: connectionOnce_def failed_attempt_def)
  have "(LEAST n. n < 5 \<and> int (failures (take (Suc n) (replicate 5 (failed_attempt, RetryNow))) 0) > 2) = 2"
    by (rule Least_equality) (auto simp: f min_def split: if_splits)
  moreover have "\<exists>n<5. int (failures (take (Suc n) (replicate 5 (failed_attempt, RetryNow))) 0) > 2"
    by (rule exI [of _ 2]) (simp add: f)
  ultimately show ?thesis
    using connectionLoop_gives_up [of "\<lambda>n. n" "\<lambda>_. 0" "\<lambda>n. (second, Suc n)" 0 "replicate 5 (failed_attempt, RetryNow)" 2]
    by (simp add: list_all_iff)
qed

end
