(* ===== verification/Go_Regexp.thy ===== *)
theory Go_Regexp
  imports Prelude
begin

section \<open>Regular expressions\<close>

text \<open>
  What the code uses of the package regexp, as its documentation states it: among the
  matches that start leftmost, the one a backtracking engine would find first. A pattern's
  ways to match at the start of a text are listed in the order such an engine tries them,
  each with the number of bytes consumed and the text of the group, if it was passed. The
  patterns of the code have one group at most. Models no line of the program; the component
  theories prove their matchers equal to these.
\<close>

datatype regex =
    Class "char \<Rightarrow> bool"
  | Many "char \<Rightarrow> bool"
  | Seq regex regex
  | Or regex regex
  | Opt regex
  | Group regex
  | EndText

fun ways :: "regex \<Rightarrow> string \<Rightarrow> (nat \<times> string option) list" where
  "ways (Class p) s = (if s \<noteq> [] \<and> p (hd s) then [(1, None)] else [])"
| "ways (Many p) s = map (\<lambda>n. (n, None)) (rev [1..<Suc (length (takeWhile p s))])"
| "ways (Seq r q) s =
     concat (map (\<lambda>(n, g). map (\<lambda>(m, h). (n + m, if h = None then g else h)) (ways q (drop n s))) (ways r s))"
| "ways (Or r q) s = ways r s @ ways q s"
| "ways (Opt r) s = ways r s @ [(0, None)]"
| "ways (Group r) s = map (\<lambda>(n, _). (n, Some (take n s))) (ways r s)"
| "ways EndText s = (if s = [] then [(0, None)] else [])"

text \<open>\<open>MatchString\<close>: a match anywhere.\<close>

definition MatchString :: "regex \<Rightarrow> string \<Rightarrow> bool" where
  "MatchString r s \<longleftrightarrow> list_ex (\<lambda>n. ways r (drop n s) \<noteq> []) [0..<Suc (length s)]"

text \<open>
  The groups of \<open>FindAllStringSubmatch(s, -1)\<close>: successive matches that do not overlap; an
  empty match is not taken right after a match, and the search goes on one byte later.
\<close>

function find_all :: "regex \<Rightarrow> bool \<Rightarrow> string \<Rightarrow> string option list" where
  "find_all r after s =
     (case ways r s of
        (n, g) # _ \<Rightarrow>
          (if 0 < n \<and> n \<le> length s then g # find_all r True (drop n s)
           else if s = [] then (if after then [] else [g])
           else (if after then find_all r False (tl s) else g # find_all r False (tl s)))
      | [] \<Rightarrow> (if s = [] then [] else find_all r False (tl s)))"
  by pat_completeness auto
termination
  by (relation "measure (\<lambda>(r, after, s). length s)") auto

declare find_all.simps [simp del]

definition FindAllSubmatch1 :: "regex \<Rightarrow> string \<Rightarrow> string list" where
  "FindAllSubmatch1 r s = map (\<lambda>g. case g of None \<Rightarrow> '''' | Some t \<Rightarrow> t) (find_all r False s)"

subsection \<open>Classes\<close>

definition one_of :: "string \<Rightarrow> char \<Rightarrow> bool" where
  "one_of cs c \<longleftrightarrow> c \<in> set cs"

definition none_of :: "string \<Rightarrow> char \<Rightarrow> bool" where
  "none_of cs c \<longleftrightarrow> c \<notin> set cs"

text \<open>A word of classes, one after the other.\<close>

fun Letters :: "(char \<Rightarrow> bool) list \<Rightarrow> regex" where
  "Letters [] = Opt (Class (\<lambda>_. False))"
| "Letters (p # ps) = Seq (Class p) (Letters ps)"

lemma ways_Letters: "ways (Letters ps) s = (if length ps \<le> length s \<and> list_all2 (\<lambda>p c. p c) ps (take (length ps) s)
    then [(length ps, None)] else [])"
proof (induction ps arbitrary: s)
  case (Cons p ps)
  then show ?case by (cases s) auto
qed simp

lemma ways_Many_hd:
  "ways (Many p) s = (if takeWhile p s = [] then []
     else (length (takeWhile p s), None) # map (\<lambda>n. (n, None)) (rev [1..<length (takeWhile p s)]))"
  by (cases "length (takeWhile p s)") auto

lemma ways_bounded: "(n, g) \<in> set (ways r s) \<Longrightarrow> n \<le> length s"
proof (induction r arbitrary: n g s)
  case (Many p)
  then show ?case using length_takeWhile_le [of p s] by auto
next
  case (Seq r q)
  then obtain k g1 m g2 where "(k, g1) \<in> set (ways r s)" "(m, g2) \<in> set (ways q (drop k s))" "n = k + m"
    by auto
  with Seq.IH(1) [of k g1 s] Seq.IH(2) [of m g2 "drop k s"] show ?case by simp
qed (auto split: if_splits simp: Suc_leI)

lemma ways_Class_Seq:
  "ways (Seq (Class p) q) [] = []"
  "ways (Seq (Class p) q) (c # cs) = (if p c then map (\<lambda>(m, h). (Suc m, h)) (ways q cs) else [])"
  by (auto simp: case_prod_unfold)

lemma ways_EndText: "ways (Seq r EndText) s = filter (\<lambda>(n, _). length s \<le> n) (ways r s)"
proof -
  have "concat (map (\<lambda>(n, g). map (\<lambda>(m, h). (n + m, if h = None then g else h)) (ways EndText (drop n s))) ws)
      = filter (\<lambda>(n, _). length s \<le> n) ws" for ws
    by (induction ws) auto
  then show ?thesis by simp
qed

end
