(* ===== verification/Remote_Patterns.thy ===== *)
theory Remote_Patterns
  imports Client Go_Regexp
begin

section \<open>The patterns of the code\<close>

text \<open>
  The regular expressions of share/settings/remote.go and client/client.go as patterns, and
  the proofs that the matchers the component theories use, written as loops, are equal to
  what the package regexp finds for them.
\<close>

text \<open>\<^verbatim>\<open>(\[[^\[\]]+\]|[^\[\]:]+):?\<close>\<close>

definition token_pattern :: regex where
  "token_pattern =
     Or (Seq (Class (one_of ''['')) (Seq (Many (none_of ''[]'')) (Class (one_of '']''))))
        (Many (none_of ''[]:''))"

definition remote_pattern :: regex where
  "remote_pattern = Seq (Group token_pattern) (Opt (Class (one_of '':'')))"

text \<open>\<^verbatim>\<open>(?i)\/(tcp|udp)$\<close>\<close>

definition letter :: "char \<Rightarrow> char \<Rightarrow> bool" where
  "letter l c \<longleftrightarrow> lower_char c = l"

definition l4Proto :: regex where
  "l4Proto = Seq (Class (one_of ''/'')) (Seq (Group (Or (Letters (map letter ''tcp'')) (Letters (map letter ''udp''))))
     EndText)"

text \<open>\<^verbatim>\<open>:\d+$\<close>\<close>

definition port_pattern :: regex where
  "port_pattern = Seq (Class (one_of '':'')) (Seq (Many is_digit) EndText)"

subsection \<open>The tokenizer\<close>

declare ways.simps(2,3) [simp del] Letters.simps [simp del]

lemma none_of_bracket: "none_of ''[]'' = not_bracket" "none_of ''[]:'' = plain_char"
  by (auto simp: none_of_def not_bracket_def plain_char_def fun_eq_iff)

lemma hd_drop_takeWhile: "n < length (takeWhile p s) \<Longrightarrow> p (hd (drop n s))"
  by (metis hd_drop_conv_nth length_takeWhile_le nth_mem order_less_le_trans set_takeWhileD takeWhile_nth)

lemma ways_closing:
  "ways (Seq (Many not_bracket) (Class (one_of '']''))) s =
     (let body = takeWhile not_bracket s; rest = dropWhile not_bracket s in
      if body \<noteq> [] \<and> rest \<noteq> [] \<and> hd rest = CHR '']'' then [(Suc (length body), None)] else [])"
proof -
  let ?L = "length (takeWhile not_bracket s)"
  let ?f = "\<lambda>n. if n < length s \<and> hd (drop n s) = CHR '']'' then [(Suc n, None :: string option)] else []"
  have "?f n = []" if "n \<in> set (rev [1..<?L])" for n
    using that hd_drop_takeWhile [of n not_bracket s] by (auto simp: not_bracket_def)
  then have nil: "concat (map ?f (rev [1..<?L])) = []" by auto
  have ways: "ways (Seq (Many not_bracket) (Class (one_of '']''))) s = concat (map ?f (rev [1..<Suc ?L]))"
    by (simp add: ways.simps comp_def one_of_def del: upt_Suc) (rule arg_cong [where f = concat], auto)
  show ?thesis
  proof (cases ?L)
    case 0
    then show ?thesis unfolding ways by simp
  next
    case (Suc k)
    then have "rev [1..<Suc ?L] = ?L # rev [1..<?L]" by simp
    then have first: "ways (Seq (Many not_bracket) (Class (one_of '']''))) s = ?f ?L"
      unfolding ways using nil by simp
    have rest: "drop ?L s = dropWhile not_bracket s" by (simp add: dropWhile_eq_drop)
    then have "?L < length s \<longleftrightarrow> dropWhile not_bracket s \<noteq> []"
      by (metis drop_eq_Nil linorder_not_le)
    with rest Suc have "?f ?L = (let body = takeWhile not_bracket s; rest = dropWhile not_bracket s in
      if body \<noteq> [] \<and> rest \<noteq> [] \<and> hd rest = CHR '']'' then [(Suc (length body), None)] else [])"
      by (cases "takeWhile not_bracket s") (simp_all add: Let_def del: dropWhile_eq_Nil_conv takeWhile_eq_Nil_iff)
    with first show ?thesis by (rule trans)
  qed
qed

lemma Seq_first:
  assumes "ways r s = (n, g) # ws" "ways q (drop n s) = (m, h) # vs"
  shows "\<exists>us. ways (Seq r q) s = (n + m, if h = None then g else h) # us"
  by (simp add: ways.simps(3) assms)

lemma colon_first: "\<exists>vs. ways (Opt (Class (one_of '':''))) s =
    (length s - length (skip_colon s), None) # vs"
  by (cases s) (auto simp: skip_colon_def one_of_def)

text \<open>The first way to match the whole pattern at the start of a text.\<close>

lemma remote_pattern_first:
  assumes "ways token_pattern s = (n, None) # ws"
    and "n \<le> length s"
  shows "\<exists>us. ways remote_pattern s = (n + (length s - n - length (skip_colon (drop n s))), Some (take n s)) # us"
proof -
  have token: "ways (Group token_pattern) s = (n, Some (take n s)) # map (\<lambda>(n, _). (n, Some (take n s))) ws"
    using assms by simp
  obtain vs where "ways (Opt (Class (one_of '':''))) (drop n s) =
      (length s - n - length (skip_colon (drop n s)), None) # vs"
    using colon_first [of "drop n s"] by auto
  from Seq_first [OF token this] show ?thesis
    unfolding remote_pattern_def by (simp only: simp_thms if_True)
qed

lemma skip_colon_drop: "drop (n + (length s - n - length (skip_colon (drop n s)))) s = skip_colon (drop n s)"
proof (cases "drop n s")
  case (Cons c cs)
  then have "drop (Suc n) s = cs" by (metis drop_Suc drop_tl list.sel(3))
  moreover have "length s - n = Suc (length cs)" using Cons by (metis length_Cons length_drop)
  ultimately show ?thesis using Cons by (simp add: skip_colon_def)
qed (simp add: skip_colon_def)

lemma find_all_first:
  assumes w: "ways token_pattern s = (n, None) # ws"
    and n: "0 < n" "n \<le> length s"
  shows "find_all remote_pattern after s = Some (take n s) # find_all remote_pattern True (skip_colon (drop n s))"
proof -
  let ?k = "n + (length s - n - length (skip_colon (drop n s)))"
  obtain us where "ways remote_pattern s = (?k, Some (take n s)) # us"
    using remote_pattern_first [OF w n(2)] by blast
  moreover have "0 < ?k" "?k \<le> length s" using n by auto
  ultimately show ?thesis
    using skip_colon_drop [of n s] by (simp add: find_all.simps [of remote_pattern after s])
qed

lemma split_at:
  "take (Suc (Suc (length b))) (c # b @ x # t) = c # b @ [x]"
  "drop (Suc (Suc (length b))) (c # b @ x # t) = t"
  "Suc (Suc (length b)) \<le> length (c # b @ x # t)"
  by simp_all

lemma find_all_bracketed:
  assumes "c = CHR ''[''" "takeWhile not_bracket cs \<noteq> []" "dropWhile not_bracket cs \<noteq> []"
    "hd (dropWhile not_bracket cs) = CHR '']''"
  shows "find_all remote_pattern after (c # cs) =
    Some (c # takeWhile not_bracket cs @ '']'') # find_all remote_pattern True (skip_colon (tl (dropWhile not_bracket cs)))"
proof -
  let ?body = "takeWhile not_bracket cs" and ?rest = "dropWhile not_bracket cs"
  let ?n = "Suc (Suc (length ?body))"
  have closing: "ways (Seq (Many not_bracket) (Class (one_of '']''))) cs = [(Suc (length ?body), None)]"
    using assms by (simp only: ways_closing Let_def) simp
  have cs: "cs = ?body @ CHR '']'' # tl ?rest"
    using assms by (metis list.collapse takeWhile_dropWhile_id)
  note split = split_at [of ?body c "CHR '']''" "tl ?rest", folded cs]
  have "ways token_pattern (c # cs) = [(?n, None)]"
    unfolding token_pattern_def none_of_bracket
    by (simp add: ways_Class_Seq closing assms(1) one_of_def ways_Many_hd plain_char_def not_bracket_def)
  then have "find_all remote_pattern after (c # cs) =
      Some (take ?n (c # cs)) # find_all remote_pattern True (skip_colon (drop ?n (c # cs)))"
    by (rule find_all_first) (use split(3) in simp_all)
  with split show ?thesis by simp
qed

lemma find_all_plain:
  assumes "c \<noteq> CHR ''[''" "plain_char c"
  shows "find_all remote_pattern after (c # cs) =
    Some (c # takeWhile plain_char cs) # find_all remote_pattern True (skip_colon (dropWhile plain_char cs))"
proof -
  let ?n = "Suc (length (takeWhile plain_char cs))"
  have "find_all remote_pattern after (c # cs) =
      Some (take ?n (c # cs)) # find_all remote_pattern True (skip_colon (drop ?n (c # cs)))"
    by (rule find_all_first)
      (use assms in \<open>simp_all add: token_pattern_def none_of_bracket one_of_def ways_Many_hd ways_Class_Seq
         length_takeWhile_le del: upt_Suc\<close>)
  moreover have "take ?n (c # cs) = c # takeWhile plain_char cs" "drop ?n (c # cs) = dropWhile plain_char cs"
    by (simp_all add: takeWhile_eq_take [symmetric] dropWhile_eq_drop)
  ultimately show ?thesis by simp
qed

lemma find_all_skip:
  assumes "c \<noteq> CHR ''['' \<and> \<not> plain_char c \<or> c = CHR ''['' \<and>
    \<not> (takeWhile not_bracket cs \<noteq> [] \<and> dropWhile not_bracket cs \<noteq> [] \<and> hd (dropWhile not_bracket cs) = CHR '']'')"
  shows "find_all remote_pattern after (c # cs) = find_all remote_pattern False cs"
proof -
  have plain: "c = CHR ''['' \<Longrightarrow> \<not> plain_char c" by (simp add: plain_char_def not_bracket_def)
  have closing: "ways (Seq (Many not_bracket) (Class (one_of '']''))) cs = []" if "c = CHR ''[''"
    using assms that unfolding ways_closing Let_def by metis
  have "ways token_pattern (c # cs) = []"
    using assms plain closing unfolding token_pattern_def none_of_bracket
    by (cases "c = CHR ''[''") (simp_all add: ways_Class_Seq one_of_def ways_Many_hd)
  then have "ways remote_pattern (c # cs) = []"
    by (simp add: remote_pattern_def ways.simps(3))
  then show ?thesis by (simp add: find_all.simps [of remote_pattern after "c # cs"])
qed

lemma find_all_remote: "find_all remote_pattern after s = map Some (remote_parts s)"
proof (induction s arbitrary: after rule: remote_parts.induct)
  case 1
  show ?case
    by (simp add: find_all.simps [of remote_pattern after "[]"]) (simp add: remote_pattern_def token_pattern_def ways.simps)
next
  case (2 c cs)
  let ?body = "takeWhile not_bracket cs" and ?rest = "dropWhile not_bracket cs"
  consider (bracketed) "c = CHR ''[''" "?body \<noteq> []" "?rest \<noteq> []" "hd ?rest = CHR '']''"
    | (plain) "c \<noteq> CHR ''[''" "plain_char c"
    | (skip) "c \<noteq> CHR ''['' \<and> \<not> plain_char c \<or>
        c = CHR ''['' \<and> \<not> (?body \<noteq> [] \<and> ?rest \<noteq> [] \<and> hd ?rest = CHR '']'')"
    by blast
  then show ?case
  proof cases
    case bracketed
    with find_all_bracketed [OF bracketed] 2(1) [OF _ refl refl] show ?thesis by (simp add: Let_def)
  next
    case plain
    with find_all_plain [OF plain] 2(3) show ?thesis by simp
  next
    case skip
    moreover have "remote_parts (c # cs) = remote_parts cs"
      using skip by (auto simp: Let_def plain_char_def not_bracket_def)
    moreover have "find_all remote_pattern False cs = map Some (remote_parts cs)"
      using skip 2(2) [OF _ refl refl] 2(4) by (auto simp: plain_char_def not_bracket_def)
    ultimately show ?thesis using find_all_skip by simp
  qed
qed


subsection \<open>Suffixes\<close>

lemma MatchString_iff: "MatchString r s \<longleftrightarrow> (\<exists>n \<le> length s. ways r (drop n s) \<noteq> [])"
  by (auto simp: MatchString_def list_ex_iff less_Suc_eq_le simp del: upt_Suc)

lemma length_ToLower [simp]: "length (ToLower s) = length s"
  by (simp add: ToLower_def)

lemma l4Proto_at: "ways l4Proto t \<noteq> [] \<longleftrightarrow> ToLower t = ''/tcp'' \<or> ToLower t = ''/udp''"
proof (cases "length t = 4")
  case True
  then obtain a b c d where t: "t = [a, b, c, d]"
    by (auto simp: numeral_eq_Suc length_Suc_conv)
  have "one_of ''/'' a \<longleftrightarrow> lower_char a = CHR ''/''"
    by (auto simp: one_of_def lower_char_def Let_def char_of_eq_iff take_bit_eq_mod)
  then show ?thesis
    by (simp add: t l4Proto_def ways_Letters letter_def ToLower_def ways_Class_Seq ways_EndText numeral_eq_Suc)
next
  case False
  then have "\<not> (ToLower t = ''/tcp'' \<or> ToLower t = ''/udp'')" by (auto dest: arg_cong [where f = length])
  moreover have "ways l4Proto t = []"
    using False by (cases t) (auto simp: l4Proto_def ways_Letters ways_Class_Seq ways_EndText)
  ultimately show ?thesis by simp
qed

lemma L4Proto_pattern: "MatchString l4Proto s \<longleftrightarrow>
    4 \<le> length s \<and> (ToLower (drop (length s - 4) s) = ''/tcp'' \<or> ToLower (drop (length s - 4) s) = ''/udp'')"
proof -
  have "n = length s - 4 \<and> 4 \<le> length s" if "n \<le> length s" "ToLower (drop n s) = ''/tcp'' \<or> ToLower (drop n s) = ''/udp''" for n
    using that by (auto dest: arg_cong [where f = length])
  then show ?thesis unfolding MatchString_iff l4Proto_at by (metis diff_le_self)
qed

lemma port_pattern_at: "ways port_pattern t \<noteq> [] \<longleftrightarrow> (\<exists>ds. t = CHR '':'' # ds \<and> ds \<noteq> [] \<and> list_all is_digit ds)"
proof (cases t)
  case (Cons c cs)
  have "ways (Seq (Many is_digit) EndText) cs \<noteq> [] \<longleftrightarrow> cs \<noteq> [] \<and> list_all is_digit cs"
  proof -
    have "ways (Seq (Many is_digit) EndText) cs \<noteq> [] \<longleftrightarrow>
        (\<exists>n. 0 < n \<and> n \<le> length (takeWhile is_digit cs) \<and> length cs \<le> n)"
      unfolding ways_EndText
      by (auto simp: filter_empty_conv ways.simps(2) Suc_le_eq less_Suc_eq_le simp del: upt_Suc)
    also have "\<dots> \<longleftrightarrow> cs \<noteq> [] \<and> takeWhile is_digit cs = cs"
      by (metis length_0_conv length_takeWhile_le neq0_conv order_antisym order_trans takeWhile_eq_take take_all order_refl)
    finally show ?thesis by (simp add: takeWhile_eq_all_conv list_all_iff)
  qed
  then show ?thesis by (auto simp: Cons port_pattern_def ways_Class_Seq one_of_def)
qed (simp add: port_pattern_def ways_Class_Seq)

lemma has_port_pattern: "MatchString port_pattern h \<longleftrightarrow> has_port h"
proof -
  let ?ds = "takeWhile is_digit (rev h)" and ?rest = "dropWhile is_digit (rev h)"
  have "MatchString port_pattern h \<longleftrightarrow> (\<exists>a ds. h = a @ CHR '':'' # ds \<and> ds \<noteq> [] \<and> list_all is_digit ds)"
    unfolding MatchString_iff port_pattern_at
    by (metis append_eq_conv_conj append_take_drop_id le_add1 length_append)
  also have "\<dots> \<longleftrightarrow> has_port h"
  proof
    assume "\<exists>a ds. h = a @ CHR '':'' # ds \<and> ds \<noteq> [] \<and> list_all is_digit ds"
    then obtain a ds where h: "rev h = rev ds @ CHR '':'' # rev a" "ds \<noteq> []" "list_all is_digit ds" by auto
    moreover have "\<not> is_digit CHR '':''" by (simp add: is_digit_def)
    ultimately show "has_port h" by (simp add: has_port_def takeWhile_run)
  next
    assume p: "has_port h"
    then have "rev h = ?ds @ CHR '':'' # tl ?rest"
      by (metis has_port_def list.collapse takeWhile_dropWhile_id)
    then have "h = rev (tl ?rest) @ CHR '':'' # rev ?ds"
      by (metis append.assoc append_Cons append_Nil rev.simps(2) rev_append rev_rev_ident)
    moreover have "rev ?ds \<noteq> []" "list_all is_digit (rev ?ds)"
      using p by (auto simp: has_port_def Let_def list_all_iff dest: set_takeWhileD)
    ultimately show "\<exists>a ds. h = a @ CHR '':'' # ds \<and> ds \<noteq> [] \<and> list_all is_digit ds" by blast
  qed
  finally show ?thesis .
qed

subsection \<open>The equivalences\<close>

text \<open>
  C26: the hand-written matchers are the code's regular expressions: the tokenizer gives the
  groups of \<open>FindAllStringSubmatch\<close> for the remote pattern, the protocol suffix is cut
  exactly when the l4 pattern matches, and a host is taken to have a port exactly when the
  port pattern matches.
\<close>

theorem patterns_match:
  "remote_parts s = FindAllSubmatch1 remote_pattern s \<and>
   L4Proto s = (if MatchString l4Proto s
                then (ToLower (take (length s - 4) s), drop (length s - 3) s) else (s, '''')) \<and>
   has_port s = MatchString port_pattern s"
  by (simp add: FindAllSubmatch1_def find_all_remote comp_def L4Proto_def L4Proto_pattern has_port_pattern Let_def)

end
