(* ===== verification/Udp_Listener.thy ===== *)
theory Udp_Listener
  imports Tunnel Environment
begin

section \<open>The UDP listener at a tunnel's entry\<close>

text \<open>
  Models tunnel_in_proxy_udp.go of share/tunnel: the listener of a udp remote, the
  channel it caches, its two loops and \<open>run\<close>, which joins them. Sockets, the packets
  decoded from the channel (Udp_Channel has its bytes) and the SSH connection are inputs of the steps.
\<close>

subsection \<open>Packets and listeners\<close>

record udpPacket =
  Src :: string
  Payload :: bytes

text \<open>\<open>outbound\<close> is the SSH connection of the cached channel; the counters are in bytes.\<close>

record 'conn udpListener =
  udp_remote :: Remote
  udp_inbound :: string
  maxMTU :: int
  outbound :: "'conn option"
  udp_sent :: int
  udp_recv :: int

datatype udp_listen_error = UdpResolveFailed | UdpListenFailed

text \<open>\<open>resolve\<close> and \<open>listen\<close> are the answers of the network.\<close>

definition listenUDP ::
  "(string \<Rightarrow> string) \<Rightarrow> (string \<Rightarrow> string option) \<Rightarrow> (string \<Rightarrow> bool) \<Rightarrow> Remote \<Rightarrow>
   udp_listen_error + 'conn udpListener" where
  "listenUDP getenv resolve listen r =
     (case resolve (Remote_Local r) of
        None \<Rightarrow> Inl UdpResolveFailed
      | Some a \<Rightarrow>
          (if \<not> listen a then Inl UdpListenFailed
           else Inr \<lparr>udp_remote = r, udp_inbound = a, maxMTU = EnvInt getenv ''UDP_MAX_SIZE'' 9012,
             outbound = None, udp_sent = 0, udp_recv = 0\<rparr>))"

subsection \<open>The channel\<close>

datatype udp_chan_error = SshNil | ChanError string

text \<open>
  \<open>getUDPChan\<close>: \<open>ssh\<close> is what \<open>getSSH\<close> returns, \<open>open_channel\<close> the error text if the
  channel does not open. \<open>unsetUDPChan\<close> runs when the SSH connection has ended.
\<close>

definition udp_channel_addr :: "Remote \<Rightarrow> string" where
  "udp_channel_addr r = Remote_Remote r @ ''/udp''"

definition getUDPChan ::
  "'conn option \<Rightarrow> ('conn \<Rightarrow> string \<Rightarrow> string option) \<Rightarrow> 'conn udpListener \<Rightarrow>
   (udp_chan_error + 'conn) \<times> 'conn udpListener" where
  "getUDPChan ssh open_channel u =
     (case outbound u of
        Some c \<Rightarrow> (Inr c, u)
      | None \<Rightarrow>
          (case ssh of
             None \<Rightarrow> (Inl SshNil, u)
           | Some c \<Rightarrow>
               (case open_channel c (udp_channel_addr (udp_remote u)) of
                  Some e \<Rightarrow> (Inl (ChanError e), u)
                | None \<Rightarrow> (Inr c, u\<lparr>outbound := Some c\<rparr>))))"

definition unsetUDPChan :: "'conn udpListener \<Rightarrow> 'conn udpListener" where
  "unsetUDPChan u = u\<lparr>outbound := None\<rparr>"

subsection \<open>One iteration of each loop\<close>

text \<open>What one iteration of a loop does: go on, with a packet sent or delivered, or end it.\<close>

datatype 'conn udp_loop =
    Continue
  | Sent 'conn udpPacket
  | Delivered udpPacket
  | LoopError string

definition chan_error_eof :: "udp_chan_error \<Rightarrow> bool" where
  "chan_error_eof e = (case e of SshNil \<Rightarrow> False | ChanError s \<Rightarrow> suffix ''EOF'' s)"

datatype udp_read = ReadTimeout | ReadFailed | ReadPacket string bytes

definition runInbound_once ::
  "nat \<Rightarrow> udp_read \<Rightarrow> (udp_chan_error + 'conn) \<Rightarrow> string option \<Rightarrow> 'conn udp_loop" where
  "runInbound_once mtu rd chan encode_err =
     (case rd of
        ReadTimeout \<Rightarrow> Continue
      | ReadFailed \<Rightarrow> LoopError ''read error''
      | ReadPacket addr b \<Rightarrow>
          (case chan of
             Inl e \<Rightarrow> (if chan_error_eof e then Continue else LoopError ''inbound-udpchan'')
           | Inr c \<Rightarrow>
               (case encode_err of
                  Some e \<Rightarrow> (if suffix ''EOF'' e then Continue else LoopError ''encode error'')
                | None \<Rightarrow> Sent c \<lparr>Src = addr, Payload = take mtu b\<rparr>)))"

datatype udp_decode = DecodeEOF | DecodeError | Decoded udpPacket

definition runOutbound_once ::
  "(udp_chan_error + 'conn) \<Rightarrow> udp_decode \<Rightarrow> (string \<Rightarrow> bool) \<Rightarrow> bool \<Rightarrow> 'conn udp_loop" where
  "runOutbound_once chan decoded resolves write_ok =
     (case chan of
        Inl e \<Rightarrow> (if chan_error_eof e then Continue else LoopError ''outbound-udpchan'')
      | Inr c \<Rightarrow>
          (case decoded of
             DecodeEOF \<Rightarrow> Continue
           | DecodeError \<Rightarrow> LoopError ''decode error''
           | Decoded p \<Rightarrow>
               (if \<not> resolves (Src p) then LoopError ''resolve error''
                else if \<not> write_ok then LoopError ''write error''
                else Delivered p)))"

text \<open>A whole iteration: the channel is looked up, and what is sent or delivered is counted.\<close>

definition runInbound_round ::
  "udp_read \<Rightarrow> 'conn option \<Rightarrow> ('conn \<Rightarrow> string \<Rightarrow> string option) \<Rightarrow> string option \<Rightarrow> 'conn udpListener \<Rightarrow>
   'conn udp_loop \<times> 'conn udpListener" where
  "runInbound_round rd ssh open_channel encode_err u =
     (case rd of
        ReadPacket addr b \<Rightarrow>
          (let (chan, u) = getUDPChan ssh open_channel u;
               res = runInbound_once (nat (maxMTU u)) rd chan encode_err
           in case res of
                Sent c p \<Rightarrow> (res, u\<lparr>udp_sent := udp_sent u + int (length (Payload p))\<rparr>)
              | _ \<Rightarrow> (res, u))
      | _ \<Rightarrow> (runInbound_once (nat (maxMTU u)) rd (Inl SshNil) encode_err, u))"

definition runOutbound_round ::
  "'conn option \<Rightarrow> ('conn \<Rightarrow> string \<Rightarrow> string option) \<Rightarrow> udp_decode \<Rightarrow> (string \<Rightarrow> bool) \<Rightarrow> bool \<Rightarrow> 'conn udpListener \<Rightarrow>
   'conn udp_loop \<times> 'conn udpListener" where
  "runOutbound_round ssh open_channel decoded resolves write_ok u =
     (let (chan, u) = getUDPChan ssh open_channel u;
          res = runOutbound_once chan decoded resolves write_ok
      in case res of
           Delivered p \<Rightarrow> (res, u\<lparr>udp_recv := udp_recv u + int (length (Payload p))\<rparr>)
         | _ \<Rightarrow> (res, u))"

subsection \<open>The two loops together\<close>

text \<open>
  \<open>run\<close> starts both loops. What happens then is a sequence of events: an iteration of a loop, or
  the end of the loop because its context was found done; the end of the SSH connection,
  after which the cached channel is dropped; and the end of the context. \<open>returned\<close> holds
  what the loops have returned, in that order. A loop that has returned does nothing more.
\<close>

datatype 'conn listener_event =
    InboundRound udp_read "'conn option" "'conn \<Rightarrow> string \<Rightarrow> string option" "string option"
  | InboundDone
  | OutboundRound "'conn option" "'conn \<Rightarrow> string \<Rightarrow> string option" udp_decode "string \<Rightarrow> bool" bool
  | OutboundDone
  | ChannelLost
  | ContextEnds

record 'conn listener_run =
  listener_state :: "'conn udpListener"
  context_done :: bool
  in_running :: bool
  out_running :: bool
  returned :: "string option list"

text \<open>\<open>runInbound\<close> first makes its buffer, which panics for a negative size.\<close>

definition listener_start :: "'conn udpListener \<Rightarrow> go_panic + 'conn listener_run" where
  "listener_start u =
     (if maxMTU u < 0 then Inl (PanicCall ''makeslice: len out of range'')
      else Inr \<lparr>listener_state = u, context_done = False, in_running = True, out_running = True, returned = []\<rparr>)"

text \<open>A loop that returns an error ends the context of the group, which the other one sees.\<close>

definition in_returns :: "string option \<Rightarrow> 'conn listener_run \<Rightarrow> 'conn listener_run" where
  "in_returns e s =
     s\<lparr>in_running := False, returned := returned s @ [e], context_done := context_done s \<or> e \<noteq> None\<rparr>"

definition out_returns :: "string option \<Rightarrow> 'conn listener_run \<Rightarrow> 'conn listener_run" where
  "out_returns e s =
     s\<lparr>out_running := False, returned := returned s @ [e], context_done := context_done s \<or> e \<noteq> None\<rparr>"

fun listener_step :: "'conn listener_event \<Rightarrow> 'conn listener_run \<Rightarrow> 'conn listener_run" where
  "listener_step (InboundRound rd ssh open_channel encode_err) s =
     (if \<not> in_running s then s
      else (case runInbound_round rd ssh open_channel encode_err (listener_state s) of
              (LoopError e, u) \<Rightarrow> in_returns (Some e) (s\<lparr>listener_state := u\<rparr>)
            | (_, u) \<Rightarrow> s\<lparr>listener_state := u\<rparr>))"
| "listener_step InboundDone s = (if in_running s \<and> context_done s then in_returns None s else s)"
| "listener_step (OutboundRound ssh open_channel decoded resolves write_ok) s =
     (if \<not> out_running s then s
      else (case runOutbound_round ssh open_channel decoded resolves write_ok (listener_state s) of
              (LoopError e, u) \<Rightarrow> out_returns (Some e) (s\<lparr>listener_state := u\<rparr>)
            | (_, u) \<Rightarrow> s\<lparr>listener_state := u\<rparr>))"
| "listener_step OutboundDone s = (if out_running s \<and> context_done s then out_returns None s else s)"
| "listener_step ChannelLost s = s\<lparr>listener_state := unsetUDPChan (listener_state s)\<rparr>"
| "listener_step ContextEnds s = s\<lparr>context_done := True\<rparr>"

text \<open>\<open>run\<close> returns what the group's \<open>wait\<close> makes of the two results, once both are there.\<close>

definition listener_result :: "(string option list \<Rightarrow> string option) \<Rightarrow> 'conn listener_run \<Rightarrow> string option option" where
  "listener_result wait s = (if in_running s \<or> out_running s then None else Some (wait (returned s)))"

subsection \<open>A listener without a connection ends\<close>

lemma listener_step_ended:
  "first_error (returned s) = Some x \<Longrightarrow> first_error (returned (listener_step e s)) = Some x"
  by (cases e) (auto simp: in_returns_def out_returns_def split: prod.splits udp_loop.splits)

text \<open>
  A round of the outbound loop without a connection is its last; it ends the context of both
  loops, and the error stays the first that the loops return.
\<close>

lemma out_round_ends:
  assumes "out_running s" "outbound (listener_state s) = None" "first_error (returned s) = None"
    and l: "l = listener_step (OutboundRound None open_channel decoded resolves ok) s"
  shows "\<not> out_running l \<and> context_done l \<and> first_error (returned l) = Some ''outbound-udpchan''"
  using assms by (simp add: runOutbound_round_def getUDPChan_def runOutbound_once_def chan_error_eof_def out_returns_def)

lemma listener_step_keeps:
  assumes "context_done s" "\<not> out_running s"
  shows "context_done (listener_step e s)" "\<not> out_running (listener_step e s)" "in_running (listener_step e s) \<Longrightarrow> in_running s"
  using assms by (cases e; auto simp: in_returns_def out_returns_def split: prod.splits udp_loop.splits if_splits)+

lemma listener_step_over:
  "\<not> in_running s \<Longrightarrow> \<not> out_running s \<Longrightarrow>
   returned (listener_step e s) = returned s \<and> \<not> in_running (listener_step e s) \<and> \<not> out_running (listener_step e s)"
  by (cases e) simp_all

end
