(* ===== verification/Udp_Tunnel.thy ===== *)
theory Udp_Tunnel
  imports Udp_Listener "HOL-Library.Finite_Map"
begin

section \<open>UDP over a tunnel\<close>

text \<open>
  Models share/tunnel/tunnel_out_ssh_udp.go: the handler at the exit with its table of
  connections by source and the goroutines waiting for replies. Sockets and the packets
  decoded from the channel are inputs of the steps. Packets between it and the listener at the entry come back to
  where they came from.
\<close>

subsection \<open>The table of connections\<close>

text \<open>
  A connection is a socket's number. \<open>next_sock\<close> is the first number not used yet, \<open>closed\<close>
  the sockets closed by the program, \<open>readers\<close> the sources for which a goroutine waits.
\<close>

record udpConns =
  conns :: "(string, nat) fmap"
  next_sock :: nat
  closed :: "nat list"
  readers :: "string list"

definition no_conns :: udpConns where
  "no_conns = \<lparr>conns = fmempty, next_sock = 0, closed = [], readers = []\<rparr>"

text \<open>\<open>reachable_addr\<close> says whether dialling succeeds.\<close>

definition udp_dial :: "bool \<Rightarrow> string \<Rightarrow> udpConns \<Rightarrow> (nat \<times> bool) option \<times> udpConns" where
  "udp_dial reachable_addr i cs =
     (case fmlookup (conns cs) i of
        Some c \<Rightarrow> (Some (c, True), cs)
      | None \<Rightarrow>
          (if \<not> reachable_addr then (None, cs)
           else (let c = next_sock cs in
                 (Some (c, False), cs\<lparr>conns := fmupd i c (conns cs), next_sock := c + 1\<rparr>))))"

definition udp_len :: "udpConns \<Rightarrow> nat" where
  "udp_len cs = fcard (fmdom (conns cs))"

definition udp_remove :: "string \<Rightarrow> udpConns \<Rightarrow> udpConns" where
  "udp_remove i cs = cs\<lparr>conns := fmdrop i (conns cs)\<rparr>"

text \<open>\<open>order\<close> is the order of the loop over the map.\<close>

fun udp_closeAll :: "string list \<Rightarrow> udpConns \<Rightarrow> udpConns" where
  "udp_closeAll [] cs = cs"
| "udp_closeAll (i # order) cs =
     (case fmlookup (conns cs) i of
        None \<Rightarrow> udp_closeAll order cs
      | Some c \<Rightarrow> udp_closeAll order (cs\<lparr>closed := c # closed cs, conns := fmdrop i (conns cs)\<rparr>))"

subsection \<open>The handler at the exit\<close>

definition maxConns :: nat where
  "maxConns = 100"

datatype write_result =
    DecodeFailed
  | DialFailed
  | WriteFailed
  | Written nat bytes

text \<open>One iteration of \<open>handleUDP\<close>: the decoded packet, if decoding succeeds.\<close>

definition handleWrite :: "udpPacket option \<Rightarrow> bool \<Rightarrow> bool \<Rightarrow> udpConns \<Rightarrow> write_result \<times> udpConns" where
  "handleWrite packet reachable_addr write_ok cs =
     (case packet of
        None \<Rightarrow> (DecodeFailed, cs)
      | Some p \<Rightarrow>
          (case udp_dial reachable_addr (Src p) cs of
             (None, cs) \<Rightarrow> (DialFailed, cs)
           | (Some (c, exists), cs) \<Rightarrow>
               (let cs = (if \<not> exists \<and> udp_len cs \<le> maxConns then cs\<lparr>readers := Src p # readers cs\<rparr> else cs)
                in if \<not> write_ok then (WriteFailed, cs) else (Written c (Payload p), cs))))"

text \<open>
  The goroutine waiting for replies to a source: the results of its reads in order, none for
  an error or a timeout, each with whether the packet could be sent back. It gives the
  packets sent back; when it ends, the source's connection leaves the table.
\<close>

fun handleRead :: "nat \<Rightarrow> string \<Rightarrow> (bytes option \<times> bool) list \<Rightarrow> udpPacket list" where
  "handleRead mtu src [] = []"
| "handleRead mtu src ((reply, sent) # rs) =
     (case reply of
        None \<Rightarrow> []
      | Some b \<Rightarrow>
          (if \<not> sent then []
           else \<lparr>Src = src, Payload = take mtu b\<rparr> # handleRead mtu src rs))"

definition reader_ends :: "string \<Rightarrow> udpConns \<Rightarrow> udpConns" where
  "reader_ends i cs = udp_remove i (cs\<lparr>readers := remove1 i (readers cs)\<rparr>)"

text \<open>The handler's run: packets arriving and readers ending, in the order they happen.\<close>

datatype udp_event =
    PacketIn udpPacket bool bool
  | ReaderEnds string

fun udp_event_step :: "udp_event \<Rightarrow> udpConns \<Rightarrow> udpConns" where
  "udp_event_step (PacketIn p d w) cs = snd (handleWrite (Some p) d w cs)"
| "udp_event_step (ReaderEnds i) cs = (if i \<in> set (readers cs) then reader_ends i cs else cs)"

definition run_udp :: "udp_event list \<Rightarrow> udpConns \<Rightarrow> udpConns" where
  "run_udp es cs = fold udp_event_step es cs"

text \<open>
  \<open>handleUDP\<close>: the loop runs until the channel ends or a packet cannot be handled; then
  \<open>closeAll\<close> closes the connections in the table. The result is what ended it, if anything
  has; \<open>order\<close> is the order in which the map is visited.
\<close>

datatype handler_event =
    Arrives udpPacket bool bool
  | ReplyEnds string
  | ChannelEnds

fun handleUDP_loop :: "handler_event list \<Rightarrow> udpConns \<Rightarrow> write_result option \<times> udpConns" where
  "handleUDP_loop [] cs = (None, cs)"
| "handleUDP_loop (Arrives p d w # es) cs =
     (case handleWrite (Some p) d w cs of
        (Written _ _, cs) \<Rightarrow> handleUDP_loop es cs
      | (err, cs) \<Rightarrow> (Some err, cs))"
| "handleUDP_loop (ReplyEnds i # es) cs =
     handleUDP_loop es (if i \<in> set (readers cs) then reader_ends i cs else cs)"
| "handleUDP_loop (ChannelEnds # es) cs = (Some (fst (handleWrite None True True cs)), cs)"

definition handleUDP :: "string list \<Rightarrow> handler_event list \<Rightarrow> write_result option \<times> udpConns" where
  "handleUDP order es =
     (case handleUDP_loop es no_conns of
        (None, cs) \<Rightarrow> (None, cs)
      | (Some err, cs) \<Rightarrow> (Some err, udp_closeAll order cs))"

subsection \<open>Readers and connections\<close>

text \<open>
  Each source has at most one waiting goroutine, and only sources in the table have one; at
  most a hundred wait at a time.
\<close>

definition udp_inv :: "udpConns \<Rightarrow> bool" where
  "udp_inv cs \<longleftrightarrow> distinct (readers cs) \<and> set (readers cs) \<subseteq> fset (fmdom (conns cs)) \<and>
     length (readers cs) \<le> maxConns \<and> (\<forall>i c. fmlookup (conns cs) i = Some c \<longrightarrow> c < next_sock cs) \<and>
     (\<forall>i j c. fmlookup (conns cs) i = Some c \<and> fmlookup (conns cs) j = Some c \<longrightarrow> i = j)"

lemma readers_le_len:
  assumes "distinct (readers cs)" "set (readers cs) \<subseteq> fset (fmdom (conns cs))"
  shows "length (readers cs) \<le> udp_len cs"
proof -
  have "card (set (readers cs)) \<le> card (fset (fmdom (conns cs)))"
    using assms by (intro card_mono) auto
  then show ?thesis using assms by (simp add: udp_len_def distinct_card fcard.rep_eq)
qed

lemma udp_inv_readers:
  "udp_inv cs \<Longrightarrow> distinct rs \<Longrightarrow> set rs \<subseteq> fset (fmdom (conns cs)) \<Longrightarrow> length rs \<le> maxConns \<Longrightarrow>
   udp_inv (cs\<lparr>readers := rs\<rparr>)"
  by (simp add: udp_inv_def)

lemma handleWrite_inv:
  assumes "udp_inv cs"
  shows "udp_inv (snd (handleWrite packet d w cs))"
proof (cases packet)
  case (Some p)
  show ?thesis
  proof (cases "fmlookup (conns cs) (Src p)")
    case None
    let ?cs = "cs\<lparr>conns := fmupd (Src p) (next_sock cs) (conns cs), next_sock := next_sock cs + 1\<rparr>"
    have new: "Src p \<notin> set (readers cs)"
      using assms None by (auto simp: udp_inv_def fmlookup_dom_iff)
    have lt: "c < next_sock cs" if "fmlookup (conns cs) i = Some c" for i c
      using assms that by (simp add: udp_inv_def)
    have basic: "distinct (readers cs)" "set (readers cs) \<subseteq> fset (fmdom (conns cs))" "length (readers cs) \<le> maxConns"
      using assms by (simp_all add: udp_inv_def)
    have sep: "i = j" if "fmlookup (conns cs) i = Some c" "fmlookup (conns cs) j = Some c" for i j c
      using assms that unfolding udp_inv_def by blast
    have inv: "udp_inv ?cs"
      unfolding udp_inv_def
    proof (intro conjI allI impI)
      fix i j c
      assume "fmlookup (conns ?cs) i = Some c \<and> fmlookup (conns ?cs) j = Some c"
      then show "i = j" using lt sep by (auto split: if_splits)
    next
      fix i c
      assume "fmlookup (conns ?cs) i = Some c"
      then show "c < next_sock ?cs" using less_SucI [OF lt] by (auto split: if_splits)
    qed (use basic in auto)
    have "udp_inv (?cs\<lparr>readers := Src p # readers cs\<rparr>)" if "udp_len ?cs \<le> maxConns"
    proof -
      let ?cs' = "?cs\<lparr>readers := Src p # readers cs\<rparr>"
      have "distinct (readers ?cs')" "set (readers ?cs') \<subseteq> fset (fmdom (conns ?cs'))"
        using basic new by auto
      moreover from readers_le_len [OF this] that have "length (readers ?cs') \<le> maxConns"
        by (simp add: udp_len_def)
      ultimately show ?thesis by (intro udp_inv_readers inv) auto
    qed
    with inv assms Some None show ?thesis
      by (auto simp: handleWrite_def udp_dial_def Let_def)
  qed (use assms Some in \<open>auto simp: handleWrite_def udp_dial_def Let_def\<close>)
qed (use assms in \<open>simp add: handleWrite_def\<close>)

lemma reader_ends_inv: "udp_inv cs \<Longrightarrow> i \<in> set (readers cs) \<Longrightarrow> udp_inv (reader_ends i cs)"
  by (auto simp: udp_inv_def reader_ends_def udp_remove_def length_remove1 dest: notin_set_remove1 split: if_splits)

lemma no_conns_inv: "udp_inv no_conns"
  by (simp add: udp_inv_def no_conns_def)

lemma udp_inv_run:
  assumes "udp_inv cs"
  shows "udp_inv (run_udp es cs)"
  using assms
proof (induction es arbitrary: cs)
  case (Cons e es)
  have "udp_inv (udp_event_step e cs)"
    using Cons.prems by (cases e) (auto intro: handleWrite_inv reader_ends_inv)
  with Cons.IH show ?case by (simp add: run_udp_def)
qed (simp add: run_udp_def)

text \<open>
  Whatever packets arrive and whichever readers end, in whatever order: at most a
  hundred goroutines wait for replies, at most one for each source, and each one's source
  is in the table, so its reply can still be matched to it; and no two sources share a
  connection.
\<close>

lemma udp_readers_bounded:
  "(let cs = run_udp es no_conns in
    length (readers cs) \<le> 100 \<and> distinct (readers cs) \<and> set (readers cs) \<subseteq> fset (fmdom (conns cs)) \<and>
    inj_on (fmlookup (conns cs)) (fset (fmdom (conns cs))))"
  using udp_inv_run [OF no_conns_inv, of es]
  by (auto simp: udp_inv_def maxConns_def Let_def inj_on_def fmlookup_dom_iff)

subsection \<open>A packet's way and its reply's\<close>

text \<open>
  A datagram read at the entry is sent with its sender's address, cut to the largest
  size; the exit writes exactly its payload to the connection of that sender, which it keeps
  for later packets; and every reply from that connection comes back marked with the same
  address and cut to the same size, to be delivered there.
\<close>

lemma udp_round_trip:
  assumes sent: "runInbound_once mtu (ReadPacket addr b) chan encode_err = Sent c p"
    and exit: "handleWrite (Some p) True True cs = (res, cs')"
  shows "p = \<lparr>Src = addr, Payload = take mtu b\<rparr> \<and>
    (\<exists>k. res = Written k (take mtu b) \<and> fmlookup (conns cs') addr = Some k \<and>
       fst (handleWrite (Some \<lparr>Src = addr, Payload = again\<rparr>) True True cs') = Written k again) \<and>
    (\<forall>q \<in> set (handleRead mtu (Src p) replies). Src q = addr \<and> length (Payload q) \<le> mtu \<and>
       runOutbound_once (Inr c) (Decoded q) (\<lambda>_. True) True = (Delivered q :: 'conn udp_loop))"
proof -
  have p: "p = \<lparr>Src = addr, Payload = take mtu b\<rparr>"
    using sent by (auto simp: runInbound_once_def split: sum.splits option.splits if_splits)
  have "\<exists>k. res = Written k (take mtu b) \<and> fmlookup (conns cs') addr = Some k"
    using exit by (auto simp: handleWrite_def udp_dial_def p Let_def split: option.splits if_splits)
  moreover have "fst (handleWrite (Some \<lparr>Src = addr, Payload = again\<rparr>) True True cs') = Written k again"
    if "fmlookup (conns cs') addr = Some k" for k
    using that by (simp add: handleWrite_def udp_dial_def Let_def)
  moreover have "Src q = s \<and> length (Payload q) \<le> mtu" if "q \<in> set (handleRead mtu s replies)" for q s
    using that by (induction mtu s replies rule: handleRead.induct) (auto split: option.splits if_splits)
  ultimately show ?thesis by (auto simp: p runOutbound_once_def)
qed

theorem udp_round_trip_witness:
  "\<exists>k. fst (handleWrite (Some \<lparr>Src = ''10.0.0.1:53'', Payload = ''query''\<rparr>) True True no_conns) = Written k ''query''"
proof -
  have sent: "runInbound_once 9012 (ReadPacket ''10.0.0.1:53'' ''query'') (Inr (0::nat)) None =
      Sent 0 \<lparr>Src = ''10.0.0.1:53'', Payload = ''query''\<rparr>"
    by (simp add: runInbound_once_def)
  show ?thesis
    using udp_round_trip [OF sent prod.collapse [symmetric], where cs = no_conns and again = "[]" and replies = "[]"]
    by auto
qed

subsection \<open>A full table\<close>

text \<open>Packets from new sources are still given connections when no reader may wait for them.\<close>

lemma udp_len_new: "fmlookup (conns cs) i = None \<Longrightarrow>
    udp_len (cs\<lparr>conns := fmupd i c (conns cs), next_sock := n\<rparr>) = Suc (udp_len cs)"
  by (simp add: udp_len_def fcard_finsert_disjoint fmlookup_dom_iff)

lemma handleWrite_new:
  assumes "fmlookup (conns cs) (Src p) = None" "snd (handleWrite (Some p) True w cs) = cs'"
  shows "udp_len cs' = Suc (udp_len cs)"
    "readers cs' = (if udp_len cs < maxConns then Src p # readers cs else readers cs)"
    "fmdom (conns cs') = finsert (Src p) (fmdom (conns cs))"
  using assms udp_len_new [OF assms(1)]
  by (auto simp: handleWrite_def udp_dial_def Let_def udp_len_def Suc_le_eq split: if_splits)

lemma handleWrite_old:
  "fmlookup (conns cs) (Src p) \<noteq> None \<or> \<not> d \<Longrightarrow> snd (handleWrite (Some p) d w cs) = cs"
  by (auto simp: handleWrite_def udp_dial_def Let_def split: option.splits)

text \<open>
  The limit on waiting goroutines does not free the table: once a hundred connections
  are left with no goroutine waiting, which nothing removes, no reply to any source is ever
  awaited again for as long as the channel lives, whatever packets arrive.
\<close>

lemma udp_table_stuck:
  assumes "readers cs = []" "100 \<le> udp_len cs"
  shows "readers (run_udp es cs) = [] \<and> udp_len cs \<le> udp_len (run_udp es cs)"
  using assms
proof (induction es arbitrary: cs)
  case (Cons e es)
  have "readers (udp_event_step e cs) = [] \<and> udp_len cs \<le> udp_len (udp_event_step e cs)"
  proof (cases e)
    case (PacketIn p d w)
    show ?thesis
    proof (cases "fmlookup (conns cs) (Src p) \<noteq> None \<or> \<not> d")
      case True
      with handleWrite_old [OF True] show ?thesis by (simp add: PacketIn Cons.prems)
    next
      case False
      with handleWrite_new [of cs p w, OF _ refl] Cons.prems show ?thesis
        by (simp add: PacketIn maxConns_def)
    qed
  qed (use Cons.prems in simp)
  with Cons show ?case by (fastforce simp: run_udp_def)
qed (simp add: run_udp_def)

text \<open>Such a table arises: two hundred sources send a packet each, then the readers time out.\<close>

definition burst :: "nat \<Rightarrow> udp_event list" where
  "burst n = map (\<lambda>i. PacketIn \<lparr>Src = replicate i CHR ''a'', Payload = []\<rparr> True True) [0..<n]"

lemma burst_table:
  "udp_len (run_udp (burst n) no_conns) = n \<and>
   fset (fmdom (conns (run_udp (burst n) no_conns))) = (\<lambda>i. replicate i CHR ''a'') ` {..<n} \<and>
   readers (run_udp (burst n) no_conns) = rev (map (\<lambda>i. replicate i CHR ''a'') [0..<min n 100])"
proof (induction n)
  case (Suc n)
  let ?cs = "run_udp (burst n) no_conns"
  have new: "fmlookup (conns ?cs) (replicate n CHR ''a'') = None"
  proof -
    have "replicate n CHR ''a'' \<notin> fset (fmdom (conns ?cs))"
      using Suc by (auto simp: replicate_eq_replicate)
    then show ?thesis by (simp add: fmdom_notD)
  qed
  have "run_udp (burst (Suc n)) no_conns =
      snd (handleWrite (Some \<lparr>Src = replicate n CHR ''a'', Payload = []\<rparr>) True True ?cs)"
    by (simp add: run_udp_def burst_def)
  with handleWrite_new [of ?cs "\<lparr>Src = replicate n CHR ''a'', Payload = []\<rparr>" True, OF _ refl] new Suc
  show ?case by (auto simp: maxConns_def min_def lessThan_Suc)
qed (simp add: run_udp_def burst_def no_conns_def udp_len_def)

lemma readers_all_end:
  assumes "udp_inv cs"
  shows "readers (run_udp (map ReaderEnds (readers cs)) cs) = [] \<and>
    udp_len (run_udp (map ReaderEnds (readers cs)) cs) + length (readers cs) = udp_len cs"
  using assms
proof (induction "readers cs" arbitrary: cs)
  case (Cons i rest)
  let ?cs = "reader_ends i cs"
  have i: "i \<in> set (readers cs)" "readers ?cs = rest" by (simp_all add: reader_ends_def udp_remove_def flip: Cons.hyps(2))
  then have "i |\<in>| fmdom (conns cs)" using Cons.prems by (auto simp: udp_inv_def)
  then have "Suc (udp_len ?cs) = udp_len cs"
    by (simp add: udp_len_def reader_ends_def udp_remove_def del: fcard_fminus_finsert) (metis fcard_Suc_fminus1)
  moreover have "run_udp (map ReaderEnds (readers cs)) cs = run_udp (map ReaderEnds (readers ?cs)) ?cs"
    using i by (simp add: run_udp_def flip: Cons.hyps(2))
  ultimately show ?case
    using Cons.hyps(1) [of ?cs] reader_ends_inv [OF Cons.prems i(1)] i(2) by (simp flip: Cons.hyps(2))
qed (simp add: run_udp_def)

theorem udp_table_stuck_witness:
  "\<exists>es. let cs = run_udp es no_conns in
     udp_len cs = 100 \<and> readers cs = [] \<and>
     readers (run_udp [PacketIn \<lparr>Src = ''10.0.0.1:53'', Payload = ''query''\<rparr> True True] cs) = []"
proof -
  let ?cs = "run_udp (burst 200) no_conns"
  let ?es = "burst 200 @ map ReaderEnds (readers ?cs)"
  have "udp_inv (run_udp es no_conns)" for es
    using udp_inv_run [OF no_conns_inv] .
  then have "readers (run_udp ?es no_conns) = [] \<and> udp_len (run_udp ?es no_conns) + 100 = 200"
    using readers_all_end [of ?cs] burst_table [of 200] by (simp add: run_udp_def)
  then have end_state: "readers (run_udp ?es no_conns) = []" "100 \<le> udp_len (run_udp ?es no_conns)"
    "udp_len (run_udp ?es no_conns) = 100" by simp_all
  from udp_table_stuck [OF end_state(1,2)] end_state show ?thesis
    unfolding Let_def by blast
qed

subsection \<open>What becomes of the sockets\<close>

definition live_socks :: "udpConns \<Rightarrow> nat set" where
  "live_socks cs = {c. \<exists>i. fmlookup (conns cs) i = Some c}"

text \<open>The sockets of sources whose goroutine ended while the handler ran.\<close>

fun ended_socks :: "handler_event list \<Rightarrow> udpConns \<Rightarrow> nat set" where
  "ended_socks [] cs = {}"
| "ended_socks (Arrives p d w # es) cs =
     (case handleWrite (Some p) d w cs of
        (Written _ _, cs) \<Rightarrow> ended_socks es cs
      | _ \<Rightarrow> {})"
| "ended_socks (ReplyEnds i # es) cs =
     (if i \<in> set (readers cs) then {c. fmlookup (conns cs) i = Some c} \<union> ended_socks es (reader_ends i cs)
      else ended_socks es cs)"
| "ended_socks (ChannelEnds # es) cs = {}"

lemma live_socks_write:
  assumes "snd (handleWrite (Some p) d w cs) = cs'"
  shows "live_socks cs' = live_socks cs \<union> {next_sock cs..<next_sock cs'} \<and> next_sock cs \<le> next_sock cs' \<and> closed cs' = closed cs"
proof (cases "fmlookup (conns cs) (Src p) \<noteq> None \<or> \<not> d")
  case True
  with handleWrite_old [OF True] assms show ?thesis by auto
next
  case False
  then have none: "fmlookup (conns cs) (Src p) = None" and d by auto
  then have "conns cs' = fmupd (Src p) (next_sock cs) (conns cs)" "next_sock cs' = Suc (next_sock cs)" "closed cs' = closed cs"
    using assms by (auto simp: handleWrite_def udp_dial_def Let_def)
  with none show ?thesis by (auto simp: live_socks_def) (metis option.distinct(1))
qed

lemma live_socks_ends:
  assumes "udp_inv cs"
  shows "live_socks (reader_ends i cs) = live_socks cs - {c. fmlookup (conns cs) i = Some c}"
    "next_sock (reader_ends i cs) = next_sock cs" "closed (reader_ends i cs) = closed cs"
  using assms by (auto simp: live_socks_def reader_ends_def udp_remove_def udp_inv_def split: if_splits)

lemma ended_old_or_new:
  "udp_inv cs \<Longrightarrow> handleUDP_loop es cs = (r, cs') \<Longrightarrow>
   udp_inv cs' \<and> closed cs' = closed cs \<and> next_sock cs \<le> next_sock cs' \<and>
   live_socks cs' \<union> ended_socks es cs = live_socks cs \<union> {next_sock cs..<next_sock cs'} \<and>
   live_socks cs' \<inter> ended_socks es cs = {}"
proof (induction es cs arbitrary: r cs' rule: handleUDP_loop.induct)
  case (2 p d w es cs)
  obtain res cs1 where step: "handleWrite (Some p) d w cs = (res, cs1)" by fastforce
  have inv: "udp_inv cs1" using handleWrite_inv [OF "2.prems"(1), of "Some p" d w] by (simp add: step)
  have live: "live_socks cs1 = live_socks cs \<union> {next_sock cs..<next_sock cs1}" "next_sock cs \<le> next_sock cs1"
    "closed cs1 = closed cs"
    using live_socks_write [of p d w cs cs1] by (simp_all add: step)
  show ?case
  proof (cases "\<exists>k b. res = Written k b")
    case True
    then obtain k b where res: "res = Written k b" by blast
    have rest: "handleUDP_loop es cs1 = (r, cs')" using "2.prems"(2) by (simp add: step res)
    note ih = "2.IH" [OF step [symmetric] res inv rest]
    then have "{next_sock cs..<next_sock cs1} \<union> {next_sock cs1..<next_sock cs'} = {next_sock cs..<next_sock cs'}"
      using live(2) by auto
    with ih live show ?thesis by (auto simp: step res)
  next
    case False
    with "2.prems" live inv show ?thesis by (cases res) (auto simp: step)
  qed
next
  case (3 i es cs)
  show ?case
  proof (cases "i \<in> set (readers cs)")
    case True
    let ?cs1 = "reader_ends i cs"
    have inv: "udp_inv ?cs1" using reader_ends_inv [OF "3.prems"(1) True] .
    have rest: "handleUDP_loop es ?cs1 = (r, cs')" using "3.prems"(2) True by simp
    have ih: "udp_inv cs' \<and> closed cs' = closed ?cs1 \<and> next_sock ?cs1 \<le> next_sock cs' \<and>
        live_socks cs' \<union> ended_socks es ?cs1 = live_socks ?cs1 \<union> {next_sock ?cs1..<next_sock cs'} \<and>
        live_socks cs' \<inter> ended_socks es ?cs1 = {}"
      using "3.IH" [of r cs'] True inv rest by simp
    have sub: "{c. fmlookup (conns cs) i = Some c} \<subseteq> live_socks cs" by (auto simp: live_socks_def)
    have lt: "c < next_sock cs" if "fmlookup (conns cs) i = Some c" for c
      using that "3.prems"(1) by (simp add: udp_inv_def)
    then have "live_socks cs' \<inter> {c. fmlookup (conns cs) i = Some c} = {}"
      using ih live_socks_ends [OF "3.prems"(1), of i] by fastforce
    with ih live_socks_ends [OF "3.prems"(1), of i] sub True show ?thesis by auto
  qed (use 3 in simp)
qed (auto simp: handleWrite_def)

lemma closeAll_closes:
  assumes "distinct order" "set order = {i. fmlookup (conns cs) i \<noteq> None}" "udp_inv cs"
  shows "conns (udp_closeAll order cs) = fmempty" "set (closed (udp_closeAll order cs)) = set (closed cs) \<union> live_socks cs"
    "next_sock (udp_closeAll order cs) = next_sock cs"
proof -
  have all: "conns (udp_closeAll order cs) = fmdrop_set (set order) (conns cs) \<and>
    set (closed (udp_closeAll order cs)) = set (closed cs) \<union> {c. \<exists>i\<in>set order. fmlookup (conns cs) i = Some c} \<and>
    next_sock (udp_closeAll order cs) = next_sock cs" if "distinct order" for order cs
    using that
  proof (induction order arbitrary: cs)
    case (Cons i order)
    show ?case
    proof (cases "fmlookup (conns cs) i")
      case None
      then have "fmdrop_set (insert i (set order)) (conns cs) = fmdrop_set (set order) (conns cs)"
        by (intro fmap_ext) auto
      with Cons None show ?thesis by auto
    next
      case (Some c)
      let ?cs = "cs\<lparr>closed := c # closed cs, conns := fmdrop i (conns cs)\<rparr>"
      have "fmdrop_set (set order) (fmdrop i (conns cs)) = fmdrop_set (insert i (set order)) (conns cs)"
        by (intro fmap_ext) auto
      moreover have "(\<exists>j\<in>set order. fmlookup (fmdrop i (conns cs)) j = Some x) \<longleftrightarrow>
          (\<exists>j\<in>set order. fmlookup (conns cs) j = Some x)" for x
        using Cons.prems by auto
      ultimately show ?thesis using Cons.IH [of ?cs] Cons.prems Some by auto
    qed
  qed simp
  have "fmdrop_set (set order) (conns cs) = fmempty" using assms(2) by (intro fmap_ext) auto
  with all [OF assms(1), of cs] assms(2) show "conns (udp_closeAll order cs) = fmempty"
    "set (closed (udp_closeAll order cs)) = set (closed cs) \<union> live_socks cs"
    "next_sock (udp_closeAll order cs) = next_sock cs"
    by (auto simp: live_socks_def)
qed

text \<open>
  C36: when the handler of a udp channel returns, whatever packets came and whichever
  goroutines ended before: its table is empty, and of all the sockets it opened it has
  closed exactly those that were still in the table. The sockets of sources whose
  goroutine had ended, as it does fifteen seconds after the last reply, it never closes.
\<close>

theorem udp_handler_cleanup:
  assumes "handleUDP_loop es no_conns = (Some err, cs)" "handleUDP order es = (Some err, cs')"
    and "distinct order" "set order = {i. fmlookup (conns cs) i \<noteq> None}"
  shows "conns cs' = fmempty \<and> set (closed cs') \<union> ended_socks es no_conns = {..<next_sock cs'} \<and>
    set (closed cs') \<inter> ended_socks es no_conns = {}"
proof -
  have cs': "cs' = udp_closeAll order cs" using assms(1,2) by (simp add: handleUDP_def)
  note loop = ended_old_or_new [OF no_conns_inv assms(1)]
  note closes = closeAll_closes [OF assms(3,4) loop [THEN conjunct1]]
  have "closed cs = []" "live_socks no_conns = {}" "next_sock no_conns = 0"
    using loop by (simp_all add: no_conns_def live_socks_def)
  with loop closes show ?thesis by (auto simp: cs' lessThan_atLeast0)
qed

theorem udp_handler_cleanup_witness:
  "\<exists>cs'. handleUDP [''b''] [Arrives \<lparr>Src = ''a'', Payload = ''q''\<rparr> True True, ReplyEnds ''a'',
      Arrives \<lparr>Src = ''b'', Payload = ''q''\<rparr> True True, ChannelEnds] = (Some DecodeFailed, cs') \<and>
    conns cs' = fmempty \<and> 0 \<notin> set (closed cs') \<and> 1 \<in> set (closed cs') \<and> next_sock cs' = 2"
proof -
  let ?es = "[Arrives \<lparr>Src = ''a'', Payload = ''q''\<rparr> True True, ReplyEnds ''a'',
      Arrives \<lparr>Src = ''b'', Payload = ''q''\<rparr> True True, ChannelEnds]"
  let ?cs = "\<lparr>conns = fmupd ''b'' 1 (fmdrop ''a'' (fmupd ''a'' 0 fmempty)), next_sock = 2, closed = [], readers = [''b'']\<rparr>"
  have loop: "handleUDP_loop ?es no_conns = (Some DecodeFailed, ?cs)" and ended: "ended_socks ?es no_conns = {0}"
    by (auto simp: no_conns_def handleWrite_def udp_dial_def udp_len_def maxConns_def reader_ends_def udp_remove_def Let_def
        fcard_finsert_if fcard_fempty)
  obtain cs' :: udpConns where run: "handleUDP [''b''] ?es = (Some DecodeFailed, cs')" and two: "next_sock cs' = 2"
    unfolding handleUDP_def loop by simp
  have order: "set [''b''] = {i. fmlookup (conns ?cs) i \<noteq> None}" "distinct [''b'']" by auto
  have ok: "conns cs' = fmempty \<and> set (closed cs') \<union> {0} = {..<next_sock cs'} \<and> set (closed cs') \<inter> {0} = {}"
    using udp_handler_cleanup [OF loop run order(2,1)] unfolding ended .
  then have "1 \<in> set (closed cs') \<union> {0}" unfolding two by simp
  then have "1 \<in> set (closed cs')" by simp
  with ok run two show ?thesis by blast
qed

end
