(* ===== verification/Serving.thy ===== *)
theory Serving
  imports Port_System Client Udp_Tunnel Config_Message
begin

section \<open>A remote from end to end\<close>

text \<open>
  Puts the components together: the client's configuration and its message, the server's
  session, the tunnels of both ends, the proxies that listen and the channels they open.
  Models the second half of \<open>handleWebsocket\<close> in server/server_handler.go, which makes the
  session's tunnel and binds its reversed remotes, and the second goroutine of
  \<open>Client.Start\<close> in client/client.go. The theorems follow one remote from the client's command
  line to the connection that is dialled for it.
\<close>

subsection \<open>The two ends\<close>

definition session_tunnel :: "ServerConfig \<Rightarrow> TunnelConfig" where
  "session_tunnel c = \<lparr>cfg_Inbound = ReverseEnabled c, cfg_Outbound = True, cfg_Socks = Socks5 c,
     cfg_KeepAlive = KeepAlive c\<rparr>"

definition session_inbound ::
  "(string \<Rightarrow> string \<Rightarrow> bool) \<Rightarrow> Remote list \<Rightarrow> 'conn Tunnel \<Rightarrow> bind_error option \<times> Proxy list \<times> 'conn Tunnel" where
  "session_inbound listen remotes t =
     (let serverInbound = Reversed True remotes in
      if length serverInbound = 0 then (None, [], t) else BindRemotes listen serverInbound t)"

definition client_inbound ::
  "(string \<Rightarrow> string \<Rightarrow> bool) \<Rightarrow> Client \<Rightarrow> 'conn Tunnel \<Rightarrow> bind_error option \<times> Proxy list \<times> 'conn Tunnel" where
  "client_inbound listen cl t =
     (let clientInbound = Reversed False (computed_remotes cl) in
      if length clientInbound = 0 then (None, [], t) else BindRemotes listen clientInbound t)"

subsection \<open>What it is to serve a remote\<close>

text \<open>
  At the listening end, for a connection \<open>conn\<close> of the tunnel: the proxy listens at the remote's
  local address, and what it opens for its clients is exactly the remote's channel.
\<close>

definition listens_for :: "'conn \<Rightarrow> Remote \<Rightarrow> Proxy \<Rightarrow> bool" where
  "listens_for conn r p \<longleftrightarrow> proxy_remote p = r \<and>
     (if LocalProto r = ''tcp'' then
        listener p = TcpListener (LocalHost r @ '':'' @ LocalPort r) \<and>
        fst (pipeRemote (Some conn) (\<lambda>c d. c = conn \<and> d = channel_data r) p) = Piped conn (channel_data r)
      else LocalProto r = ''udp'' \<and>
        listener p = UdpListener (LocalHost r @ '':'' @ LocalPort r) \<and>
        (\<forall>u. udp_remote u = r \<and> outbound u = None \<longrightarrow>
          fst (getUDPChan (Some conn) (\<lambda>c d. if c = conn \<and> d = channel_data r then None else Some '''') u) = Inr conn))"

text \<open>At the other end: what the remote's channel is connected to.\<close>

definition remote_service :: "bool \<Rightarrow> Remote \<Rightarrow> channel_service" where
  "remote_service socks r =
     (if Socks r then (if socks then ServeSocks else Rejected ''SOCKS5 is not enabled'')
      else if RemoteProto r = ''udp'' then ServeUDP (ToLower (RemoteHost r @ '':'' @ RemotePort r))
      else ServeTCP (RemoteHost r @ '':'' @ RemotePort r))"

subsection \<open>Proxies and channels of decoded remotes\<close>

lemma make_proxies_listen:
  "make_proxies listen rs k = (e, ps, n) \<Longrightarrow> p \<in> set ps \<Longrightarrow>
     Proxy_listen listen (proxy_remote p) = Inr (listener p)"
proof (induction rs arbitrary: k e ps n)
  case (Cons r rs)
  then show ?case
    by (auto simp: NewProxy_def split: sum.splits prod.splits)
qed simp

lemma BindRemotes_listen:
  "BindRemotes listen rs t = (e, ps, t') \<Longrightarrow> p \<in> set ps \<Longrightarrow>
     Proxy_listen listen (proxy_remote p) = Inr (listener p)"
  by (cases "make_proxies listen rs (proxyCount t)")
    (auto simp: BindRemotes_def Let_def split: if_splits dest: make_proxies_listen)

lemma decoded_listens:
  assumes dec: "DecodeRemote spec = Inr r" and stdio: "\<not> Stdio r"
    and p: "proxy_remote p = r" "Proxy_listen listen r = Inr (listener p)"
  shows "listens_for conn r p"
proof -
  note ok = decoded_remote_facts [OF dec]
  have local: "Remote_Local r = LocalHost r @ '':'' @ LocalPort r"
    using ok stdio by (simp add: Remote_Local_def)
  have proto: "LocalProto r = ''tcp'' \<and> RemoteProto r = ''tcp'' \<or> LocalProto r = ''udp'' \<and> RemoteProto r = ''udp''"
    using p(2) stdio ok by (auto simp: Proxy_listen_def Let_def split: if_splits)
  then show ?thesis
    using p stdio local
    by (auto simp: listens_for_def Proxy_listen_def channel_data_def pipeRemote_def getUDPChan_def
        udp_channel_addr_def Let_def split: if_splits)
qed

lemma decoded_channel:
  assumes dec: "DecodeRemote spec = Inr r" and stdio: "\<not> Stdio r"
    and p: "Proxy_listen listen r = Inr l" and out: "cfg_Outbound (tun_config u)"
  shows "fst (handleSSHChannel True (channel_data r) u) = remote_service (socksServer u) r"
proof -
  note ok = decoded_remote_facts [OF dec]
  have "LocalProto r = ''tcp'' \<and> RemoteProto r = ''tcp'' \<or> LocalProto r = ''udp'' \<and> RemoteProto r = ''udp''"
    using p stdio ok by (auto simp: Proxy_listen_def Let_def split: if_splits)
  then have "if Socks r then RemoteProto r = ''tcp'' else RemoteHost r \<noteq> '''' \<and> isPort (RemotePort r) \<and>
      (RemoteProto r = ''tcp'' \<or> RemoteProto r = ''udp'')"
    using ok stdio by auto
  from channel_serves [OF this out] show ?thesis by (simp add: remote_service_def)
qed

lemma bound_remote_served:
  assumes bound: "BindRemotes listen rs t = (None, ps, t')" "rs \<noteq> []"
    and dec: "DecodeRemote spec = Inr r" and r: "r \<in> set rs" "\<not> Stdio r"
    and out: "cfg_Outbound (tun_config u)"
  shows "(\<exists>p\<in>set ps. listens_for conn r p) \<and>
    fst (handleSSHChannel True (channel_data r) u) = remote_service (socksServer u) r"
proof -
  have "cfg_Inbound (tun_config t)" using bound by (auto simp: BindRemotes_def split: if_splits)
  from BindRemotes_facts [OF bound this] have "map proxy_remote ps = rs" by simp
  then obtain p where p: "p \<in> set ps" "proxy_remote p = r" using r(1) by auto
  have l: "Proxy_listen listen r = Inr (listener p)" using BindRemotes_listen [OF bound(1) p(1)] p(2) by simp
  show ?thesis
    using p(1) decoded_listens [OF dec r(2) p(2) l, of conn] decoded_channel [OF dec r(2) l out]
    by (intro conjI bexI [of _ p])
qed

lemma Reversed_iff: "r \<in> set (Reversed b rs) \<longleftrightarrow> r \<in> set rs \<and> Reverse r = b"
  by (induction rs) auto

lemma computed_decoded:
  assumes "NewClient url_parse read_file certs_ok load_pair bind c = Inr cl" "r \<in> set (computed_remotes cl)"
  shows "\<exists>spec\<in>set (RemoteSpecs c). DecodeRemote spec = Inr r"
proof -
  have "Inr r \<in> set (map DecodeRemote (RemoteSpecs c))"
    using NewClient_facts [OF assms(1)] assms(2) by simp
  then show ?thesis by auto
qed

lemma decoded_reverse_not_stdio: "DecodeRemote spec = Inr r \<Longrightarrow> Reverse r \<Longrightarrow> \<not> Stdio r"
  using decoded_remote_facts [of spec r] by auto

subsection \<open>A reversed remote is served\<close>

lemma accepted_configuration:
  assumes ascii: "ascii version" "list_all ascii_remote rs"
    and ok: "configure_session now matches bind DecodeConfig (Request ''config'' (EncodeConfig (version, rs))) user a s =
      Inr (Inr b, s')"
  shows "config s' = config s \<and>
    validate_remotes now matches bind (ReverseEnabled (config s)) user (map Some rs) a
      (store a ((cells (allocator s) a)\<lparr>ClientVersion := client_version version\<rparr>) (allocator s)) =
    Inr (Inr b, allocator s')"
  using ok by (auto simp: configure_session_def DecodeConfig_EncodeConfig [OF ascii] Let_def set_allocator_def
      split: sum.split_asm)

text \<open>
  C5: a reversed remote works from end to end. If the server accepts the configuration that
  a client made from its command line sends, and binds it, then for each reversed remote of
  the client: the user may reach it and the server allows it; a proxy of the server listens
  at its local address and opens its channel on the session's connection; and the client,
  which serves that channel, dials the remote's own host and port or runs its SOCKS server.
  The port of the first of them is leased to the session, and the lease is connected.
\<close>

theorem reverse_remote_served:
  assumes client: "NewClient url_parse read_file certs_ok load_pair cbind c = Inr cl"
    and ascii: "ascii version" "list_all ascii_remote (computed_remotes cl)"
    and state: "pa_exclusive (allocator s)" "cells (allocator s) a = handleRequestHeader header"
    and accepted: "configure_session now matches bind DecodeConfig
        (Request ''config'' (EncodeConfig (version, computed_remotes cl))) user a s = Inr (Inr b, s')"
    and bound: "session_inbound listen (computed_remotes cl) (New (session_tunnel (config s'))) = (None, ps, t)"
    and r: "r \<in> set (computed_remotes cl)" "Reverse r"
  shows "permitted matches bind (ReverseEnabled (config s)) user r \<and>
    (\<exists>p\<in>set ps. listens_for conn r p) \<and>
    fst (handleSSHChannel True (channel_data r) (New (client_tunnel cl))) = remote_service True r \<and>
    (let port = Atoi_value (LocalPort (hd (Reversed True (computed_remotes cl)))); pa = allocator s' in
     Status (cells pa b) = Connected \<and> MappingPort (cells pa b) = port \<and> ports pa port = Some b \<and>
     names pa (key_of (cells pa b)) = Some b)"
proof -
  let ?rs = "computed_remotes cl"
  let ?pa = "store a ((cells (allocator s) a)\<lparr>ClientVersion := client_version version\<rparr>) (allocator s)"
  note valid = accepted_configuration [OF ascii accepted, THEN conjunct2]
  have "permitted matches bind (ReverseEnabled (config s)) user r"
    using validate_decides [where rs = "map Some ?rs" and a = a and pa = ?pa and now = now and matches = matches and
        bind = bind and reverse = "ReverseEnabled (config s)" and user = user] r(1)
    by (simp add: valid inj_map_eq_map list_all_iff)
  moreover have r': "r \<in> set (Reversed True ?rs)" using r by (simp add: Reversed_iff)
  then have rev: "Reversed True ?rs \<noteq> []" by auto
  obtain spec where dec: "DecodeRemote spec = Inr r" using computed_decoded [OF client r(1)] by blast
  have out: "cfg_Outbound (tun_config (New (client_tunnel cl)))"
    "socksServer (New (client_tunnel cl)) \<longleftrightarrow> (\<exists>r\<in>set ?rs. Socks r)"
    using NewClient_facts [OF client] r by (auto simp: New_def)
  have "BindRemotes listen (Reversed True ?rs) (New (session_tunnel (config s'))) = (None, ps, t)"
    using bound rev by (simp add: session_inbound_def)
  from bound_remote_served [OF this rev dec r' decoded_reverse_not_stdio [OF dec r(2)] out(1), of conn]
  have "\<exists>p\<in>set ps. listens_for conn r p"
    "fst (handleSSHChannel True (channel_data r) (New (client_tunnel cl))) = remote_service True r"
    using out(2) r(1) by (auto simp: remote_service_def)
  moreover have "pa_exclusive ?pa"
    using state(1) by (intro store_exclusive) (simp_all add: keeps_identity_def)
  from session_lease [where header = header and cv = "client_version version", OF this _ valid] rev
  have "let port = Atoi_value (LocalPort (hd (Reversed True ?rs))); pa = allocator s' in
     Status (cells pa b) = Connected \<and> MappingPort (cells pa b) = port \<and> ports pa port = Some b \<and>
     names pa (key_of (cells pa b)) = Some b"
    by (simp add: state(2) Let_def)
  ultimately show ?thesis by blast
qed

subsection \<open>A forward remote is served\<close>

text \<open>
  A stdio remote has no listener: its proxy pipes the standard input and output again and again, through a
  channel for the remote's host and port. The channel never asks for udp, whatever protocol the remote has.
\<close>

definition carries :: "'conn \<Rightarrow> Remote \<Rightarrow> Proxy \<Rightarrow> bool" where
  "carries conn r p \<longleftrightarrow>
     (if Stdio r then proxy_remote p = r \<and> Proxy_Run p = Inr RunStdio \<and>
        fst (pipeRemote (Some conn) (\<lambda>c d. c = conn \<and> d = Remote_Remote r) p) = Piped conn (Remote_Remote r)
      else listens_for conn r p)"

definition forward_channel :: "Remote \<Rightarrow> bytes" where
  "forward_channel r = (if Stdio r then Remote_Remote r else channel_data r)"

definition forward_service :: "bool \<Rightarrow> Remote \<Rightarrow> channel_service" where
  "forward_service socks r = remote_service socks (if Stdio r then r\<lparr>RemoteProto := ''tcp''\<rparr> else r)"

lemma L4Proto_colon: "L4Proto (s @ '':'') = (s @ '':'', '''')"
proof -
  have no_proto: "ToLower (xs @ '':'') \<noteq> ys @ ''p''" for xs ys
  proof
    assume "ToLower (xs @ '':'') = ys @ ''p''"
    then have "last (ToLower (xs @ '':'')) = CHR ''p''" by simp
    then show False by (simp add: ToLower_def lower_char_def)
  qed
  have "drop (length s + 1 - 4) (s @ '':'') = drop (length s + 1 - 4) s @ '':''" if "4 \<le> length s + 1"
    using that by simp
  with no_proto [of _ "''/tc''"] no_proto [of _ "''/ud''"] show ?thesis by (simp add: L4Proto_def Let_def)
qed

lemma stdio_channel:
  assumes dec: "DecodeRemote spec = Inr r" and stdio: "Stdio r" and out: "cfg_Outbound (tun_config u)"
  shows "fst (handleSSHChannel True (Remote_Remote r) u) = remote_service (socksServer u) (r\<lparr>RemoteProto := ''tcp''\<rparr>)"
proof -
  let ?r = "r\<lparr>RemoteProto := ''tcp''\<rparr>"
  note ok = decoded_remote_facts [OF dec]
  have data: "channel_data ?r = Remote_Remote r" by (simp add: channel_data_def Remote_Remote_def)
  show ?thesis
  proof (cases "Socks r \<or> isPort (RemotePort r)")
    case True
    then have "if Socks ?r then RemoteProto ?r = ''tcp'' else RemoteHost ?r \<noteq> '''' \<and> isPort (RemotePort ?r) \<and>
        (RemoteProto ?r = ''tcp'' \<or> RemoteProto ?r = ''udp'')"
      using ok by auto
    from channel_serves [OF this out] show ?thesis by (simp add: data remote_service_def)
  next
    case False
    then have "\<not> Socks r" "RemotePort r = ''''" "RemoteHost r \<noteq> ''''" using ok by auto
    then have remote: "Remote_Remote r = RemoteHost r @ '':''" by (simp add: Remote_Remote_def)
    then have "last (Remote_Remote r) = CHR '':''" by simp
    then have "Remote_Remote r \<noteq> ''socks''" by auto
    with \<open>\<not> Socks r\<close> \<open>RemotePort r = ''''\<close> remote L4Proto_colon [of "RemoteHost r"] out show ?thesis
      by (simp add: handleSSHChannel_def remote_service_def Let_def case_prod_beta)
  qed
qed

lemma bound_remote_carried:
  assumes bound: "BindRemotes listen rs t = (None, ps, t')" "rs \<noteq> []"
    and dec: "DecodeRemote spec = Inr r" and r: "r \<in> set rs" and out: "cfg_Outbound (tun_config u)"
  shows "(\<exists>p\<in>set ps. carries conn r p) \<and>
    fst (handleSSHChannel True (forward_channel r) u) = forward_service (socksServer u) r"
proof (cases "Stdio r")
  case True
  have "cfg_Inbound (tun_config t)" using bound by (auto simp: BindRemotes_def split: if_splits)
  from BindRemotes_facts [OF bound this] have "map proxy_remote ps = rs" by simp
  then obtain p where p: "p \<in> set ps" "proxy_remote p = r" using r by auto
  with True have "carries conn r p" by (simp add: carries_def Proxy_Run_def pipeRemote_def)
  with p stdio_channel [OF dec True out] True show ?thesis by (auto simp: forward_channel_def forward_service_def)
next
  case False
  with bound_remote_served [OF bound dec r _ out, of conn] show ?thesis
    by (simp add: carries_def forward_channel_def forward_service_def)
qed

text \<open>
  C6: a remote that is not reversed works from end to end, for a client whose configuration the
  server accepts. The user, if the session has one, has access to the remote. One of the client's
  proxies listens at the remote's local address and opens its channel on the session's connection
  (for a stdio remote, one pipes the standard input and output through it); and the server, which
  serves that channel, dials the remote's own host and port, or runs its SOCKS server if it has one.
\<close>

theorem forward_remote_served:
  assumes client: "NewClient url_parse read_file certs_ok load_pair cbind c = Inr cl"
    and ascii: "ascii version" "list_all ascii_remote (computed_remotes cl)"
    and accepted: "configure_session now matches bind DecodeConfig
        (Request ''config'' (EncodeConfig (version, computed_remotes cl))) user a s = Inr (Inr b, s')"
    and bound: "client_inbound listen cl (New (client_tunnel cl)) = (None, ps, t)"
    and r: "r \<in> set (computed_remotes cl)" "\<not> Reverse r"
  shows "(\<forall>u. user = Some u \<longrightarrow> HasAccess matches u (UserAddr r)) \<and>
    (\<exists>p\<in>set ps. carries conn r p) \<and>
    fst (handleSSHChannel True (forward_channel r) (New (session_tunnel (config s')))) = forward_service (Socks5 (config s)) r"
proof -
  let ?rs = "computed_remotes cl"
  note valid = accepted_configuration [OF ascii accepted]
  have "permitted matches bind (ReverseEnabled (config s)) user r"
    using validate_decides [where rs = "map Some ?rs" and a = a and now = now and matches = matches and bind = bind and
        reverse = "ReverseEnabled (config s)" and user = user and
        pa = "store a ((cells (allocator s) a)\<lparr>ClientVersion := client_version version\<rparr>) (allocator s)"] r(1) valid
    by (simp add: inj_map_eq_map list_all_iff)
  then have access: "\<forall>u. user = Some u \<longrightarrow> HasAccess matches u (UserAddr r)" by (auto simp: permitted_def)
  have r': "r \<in> set (Reversed False ?rs)" using r by (simp add: Reversed_iff)
  then have rev: "Reversed False ?rs \<noteq> []" by auto
  obtain spec where dec: "DecodeRemote spec = Inr r" using computed_decoded [OF client r(1)] by blast
  have "BindRemotes listen (Reversed False ?rs) (New (client_tunnel cl)) = (None, ps, t)"
    using bound rev by (simp add: client_inbound_def)
  from bound_remote_carried [OF this rev dec r', of "New (session_tunnel (config s'))" conn] access valid
  show ?thesis by (simp add: New_def session_tunnel_def)
qed

subsection \<open>What the access rules cover\<close>

text \<open>A message without remotes asks for nothing, so every user's is accepted.\<close>

lemma empty_configuration_accepted:
  assumes "decode payload = Some (version, [])"
  shows "\<exists>s'. configure_session now matches bind decode (Request ''config'' payload) user a s = Inr (Inr a, s')"
  using assms by (simp add: configure_session_def Let_def)

lemma channel_any_target:
  assumes "CHR ''/'' \<notin> set target" "target \<noteq> ''socks''" "cfg_Outbound (tun_config t)"
  shows "fst (handleSSHChannel True target t) = ServeTCP target"
  using assms L4Proto_no_slash [OF assms(1)] by (simp add: handleSSHChannel_def Let_def case_prod_beta)

text \<open>
  C29: the access rules bind the configuration message and nothing else. If a user's
  configuration is accepted, then the user may reach each of its remotes; but on the
  session's connection the server serves a channel to any target there is, whether the rules
  allow it or not, and whether or not it belongs to a remote of the configuration.
\<close>

theorem channels_unchecked:
  assumes accepted: "configure_session now matches bind decode (Request ''config'' payload) (Some user) a s = Inr (Inr b, s')"
    and decoded: "decode payload = Some (version, rs)"
    and target: "CHR ''/'' \<notin> set target" "target \<noteq> ''socks''"
  shows "list_all (\<lambda>r. \<exists>x. r = Some x \<and> HasAccess matches user (UserAddr x)) rs \<and>
    fst (handleSSHChannel True target (New (session_tunnel (config s')))) = ServeTCP target"
proof -
  obtain pa pa' where "validate_remotes now matches bind (ReverseEnabled (config s)) (Some user) rs a pa = Inr (Inr b, pa')"
    using accepted decoded by (auto simp: configure_session_def Let_def split: sum.split_asm)
  with validate_decides [where now = now and matches = matches and bind = bind and reverse = "ReverseEnabled (config s)" and
      user = "Some user" and rs = rs and a = a and pa = pa]
  obtain xs where "rs = map Some xs" "list_all (permitted matches bind (ReverseEnabled (config s)) (Some user)) xs" by auto
  then have "list_all (\<lambda>r. \<exists>x. r = Some x \<and> HasAccess matches user (UserAddr x)) rs"
    by (auto simp: list_all_iff permitted_def)
  with channel_any_target [OF target, of "New (session_tunnel (config s'))"] show ?thesis
    by (simp add: New_def session_tunnel_def)
qed

subsection \<open>Samples\<close>

definition sample_client_config :: "string list \<Rightarrow> ClientConfig" where
  "sample_client_config specs =
     \<lparr>Fingerprint = '''', ClientAuth = ''bob:pw'', ClientKeepAlive = 25 * second, MaxRetryCount = -1,
      MaxRetryInterval = 0, ServerAddr = ''tunnel.example'', ClientProxy = '''', RemoteSpecs = specs,
      TLS = \<lparr>SkipVerify = False, TLS_CA = '''', TLS_Cert = '''', TLS_Key = '''', ServerName = ''''\<rparr>\<rparr>"

definition sample_new :: "string list \<Rightarrow> client_error + Client" where
  "sample_new specs = NewClient (\<lambda>_. Some \<lparr>Scheme = ''http'', Host = ''tunnel.example''\<rparr>) (\<lambda>_. None) (\<lambda>_. True)
     (\<lambda>_ _. True) (\<lambda>_ _. True) (sample_client_config specs)"

lemma sample_new_remotes:
  assumes "map DecodeRemote specs = map Inr rs" "\<forall>r\<in>set rs. \<not> Stdio r \<and> CanListen (\<lambda>_ _. True) r"
  shows "\<exists>cl. sample_new specs = Inr cl \<and> computed_remotes cl = rs"
proof -
  have remotes: "\<exists>f'. client_remotes (\<lambda>_ _. True) specs f = Inr (rs, f')" if "map DecodeRemote specs = map Inr rs"
    "\<forall>r\<in>set rs. \<not> Stdio r \<and> CanListen (\<lambda>_ _. True) r" for specs rs f
    using that
  proof (induction specs arbitrary: rs f)
    case (Cons s ss)
    then obtain r rs' where r: "rs = r # rs'" "DecodeRemote s = Inr r" "map DecodeRemote ss = map Inr rs'"
      "\<not> Stdio r" "CanListen (\<lambda>_ _. True) r" "\<forall>r\<in>set rs'. \<not> Stdio r \<and> CanListen (\<lambda>_ _. True) r"
      by (cases rs) auto
    from Cons.IH [OF r(3,6)] obtain g where "client_remotes (\<lambda>_ _. True) ss f = Inr (rs', g f)" for f by metis
    with r show ?case by (simp add: Let_def)
  qed simp
  have "Scheme (websocket_url \<lparr>Scheme = ''http'', Host = ''tunnel.example''\<rparr>) = ''ws''"
    by (simp add: websocket_url_def Let_def HasPrefix_def)
  moreover obtain f where "client_remotes (\<lambda>_ _. True) specs \<lparr>hasReverse = False, hasSocks = False, hasStdio = False\<rparr> =
      Inr (rs, f)" using remotes [OF assms] by blast
  ultimately show ?thesis
    by (cases "ParseAuth ''bob:pw''") (simp add: sample_new_def sample_client_config_def NewClient_def Let_def)
qed

lemma decode_web: "DecodeRemote ''R:30000:127.0.0.1:80'' = Inr web_remote"
  by (simp add: decode_eval web_remote_def plain_remote_def)

theorem reverse_remote_served_witness:
  "\<exists>cl s' ps t. sample_new [''R:30000:127.0.0.1:80''] = Inr cl \<and>
    configure_session 5 sample_matches (\<lambda>_ _. True) DecodeConfig
      (Request ''config'' (EncodeConfig (''1.0'', computed_remotes cl))) None 0
      (sample_server\<lparr>allocator := snd (new_object (handleRequestHeader web_header) (NewPortAllocator 30000 30001))\<rparr>) =
      Inr (Inr 1, s') \<and>
    session_inbound (\<lambda>_ _. True) (computed_remotes cl) (New (session_tunnel (config s')) :: string Tunnel) = (None, ps, t) \<and>
    (\<exists>p\<in>set ps. listens_for ''conn'' web_remote p) \<and> ports (allocator s') 30000 = Some 1"
proof -
  let ?s = "sample_server\<lparr>allocator := snd (new_object (handleRequestHeader web_header) (NewPortAllocator 30000 30001))\<rparr>"
  have "map DecodeRemote [''R:30000:127.0.0.1:80''] = map Inr [web_remote]" by (simp add: decode_web)
  then obtain cl where cl: "sample_new [''R:30000:127.0.0.1:80''] = Inr cl" "computed_remotes cl = [web_remote]"
    using sample_new_remotes [of "[''R:30000:127.0.0.1:80'']" "[web_remote]"]
    by (auto simp: web_remote_def plain_remote_def CanListen_def)
  have ascii: "ascii ''1.0''" "list_all ascii_remote (computed_remotes cl)"
    by (simp_all add: cl(2) ascii_def byte_def ascii_remote_def web_remote_def plain_remote_def)
  have dec: "DecodeConfig (EncodeConfig (''1.0'', computed_remotes cl)) = Some (''1.0'', [Some web_remote])"
    using DecodeConfig_EncodeConfig [OF ascii] by (simp add: cl(2))
  have state: "pa_exclusive (allocator ?s)" "cells (allocator ?s) 0 = handleRequestHeader web_header"
    by (simp_all add: new_object_exclusive NewPortAllocator_exclusive) (simp add: NewPortAllocator_def)
  have version: "client_version ''1.0'' = ''1.0''"
    by (simp add: client_version_def TrimPrefix_def HasPrefix_def)
  have "store 0 ((cells (allocator ?s) 0)\<lparr>ClientVersion := ''1.0''\<rparr>) (allocator ?s) = web_state"
    by (simp add: web_state_def new_object_def NewPortAllocator_def store_def)
  then obtain s' where conf: "configure_session 5 sample_matches (\<lambda>_ _. True) DecodeConfig
      (Request ''config'' (EncodeConfig (''1.0'', computed_remotes cl))) None 0 ?s = Inr (Inr 1, s')"
      and conf_config: "config s' = sample_config"
    using web_accepted by (auto simp: configure_session_def dec Let_def version sample_server_def sample_config_def set_allocator_def)
  obtain ps t where bound: "session_inbound (\<lambda>_ _. True) (computed_remotes cl) (New (session_tunnel (config s')) :: string Tunnel) = (None, ps, t)"
    by (simp add: session_inbound_def cl(2) conf_config sample_config_def session_tunnel_def New_def BindRemotes_def
        NewProxy_def Proxy_listen_def web_remote_def plain_remote_def)
  have web: "Reverse web_remote" "Reversed True [web_remote] = [web_remote]" "LocalPort web_remote = ''30000''"
    by (simp_all add: web_remote_def plain_remote_def)
  have "web_remote \<in> set (computed_remotes cl)" by (simp add: cl(2))
  from reverse_remote_served [OF cl(1) [unfolded sample_new_def] ascii state conf bound this web(1), of "''conn''"]
  have "(\<exists>p\<in>set ps. listens_for ''conn'' web_remote p) \<and> ports (allocator s') 30000 = Some 1"
    by (simp add: cl(2) web Let_def Atoi_value_def web_numbers del: Reversed.simps) blast
  with cl(1) conf bound show ?thesis by blast
qed

theorem forward_remote_served_witness:
  "\<exists>cl s' ps t r. sample_new [''5353:dns:53/udp''] = Inr cl \<and> computed_remotes cl = [r] \<and>
    configure_session 5 sample_matches (\<lambda>_ _. True) DecodeConfig (Request ''config'' (EncodeConfig (''1.0'', computed_remotes cl)))
      (Some \<lparr>Name = ''bob'', Pass = ''pw'', Addrs = [''dns:53'']\<rparr>) 0 sample_server = Inr (Inr 0, s') \<and>
    client_inbound (\<lambda>_ _. True) cl (New (client_tunnel cl) :: string Tunnel) = (None, ps, t) \<and>
    (\<exists>p\<in>set ps. carries ''conn'' r p) \<and>
    fst (handleSSHChannel True (forward_channel r) (New (session_tunnel (config s')) :: string Tunnel)) = ServeUDP ''dns:53''"
proof -
  let ?bob = "\<lparr>Name = ''bob'', Pass = ''pw'', Addrs = [''dns:53'']\<rparr>"
  let ?r = "\<lparr>LocalHost = ''0.0.0.0'', LocalPort = ''5353'', LocalProto = ''udp'', RemoteHost = ''dns'',
    RemotePort = ''53'', RemoteProto = ''udp'', Socks = False, Reverse = False, Stdio = False\<rparr>"
  have "DecodeRemote ''5353:dns:53/udp'' = Inr ?r" by (simp add: decode_eval)
  then obtain cl where cl: "sample_new [''5353:dns:53/udp''] = Inr cl" "computed_remotes cl = [?r]"
    using sample_new_remotes [of "[''5353:dns:53/udp'']" "[?r]"] by (auto simp: CanListen_def)
  have ascii: "ascii ''1.0''" "list_all ascii_remote (computed_remotes cl)"
    by (simp_all add: cl(2) ascii_def byte_def ascii_remote_def)
  have dec: "DecodeConfig (EncodeConfig (''1.0'', computed_remotes cl)) = Some (''1.0'', [Some ?r])"
    using DecodeConfig_EncodeConfig [OF ascii] by (simp add: cl(2))
  have "HasAccess sample_matches ?bob (UserAddr ?r)" by (simp add: HasAccess_def sample_matches_def UserAddr_def)
  moreover have same: "handleRemote 5 (Some 0) ?r pa = Inr (Some 0, pa)" for pa by (simp add: handleRemote_def)
  ultimately obtain s' where conf: "configure_session 5 sample_matches (\<lambda>_ _. True) DecodeConfig
      (Request ''config'' (EncodeConfig (''1.0'', computed_remotes cl))) (Some ?bob) 0 sample_server = Inr (Inr 0, s')"
    using same by (simp add: configure_session_def dec Let_def)
  have "cfg_Inbound (client_tunnel cl)"
    using cl(1) unfolding sample_new_def NewClient_def Let_def
    by (auto split: option.split_asm sum.split_asm prod.split_asm)
  then obtain ps t where bound: "client_inbound (\<lambda>_ _. True) cl (New (client_tunnel cl) :: string Tunnel) = (None, ps, t)"
    by (simp add: client_inbound_def cl(2) New_def BindRemotes_def NewProxy_def Proxy_listen_def)
  have "?r \<in> set (computed_remotes cl)" "\<not> Reverse ?r" by (simp_all add: cl(2))
  from forward_remote_served [OF cl(1) [unfolded sample_new_def] ascii conf bound this, of "''conn''"]
  have "\<exists>p\<in>set ps. carries ''conn'' ?r p"
    "fst (handleSSHChannel True (forward_channel ?r) (New (session_tunnel (config s')) :: string Tunnel)) =
      forward_service (Socks5 (config sample_server)) ?r" by blast+
  moreover have "forward_service socks ?r = ServeUDP ''dns:53''" for socks
    by (simp add: forward_service_def remote_service_def ToLower_def lower_char_def)
  ultimately show ?thesis using cl conf bound by metis
qed

theorem channels_unchecked_witness:
  "\<not> HasAccess sample_matches \<lparr>Name = ''bob'', Pass = ''pw'', Addrs = [''R:0.0.0.0:30000'']\<rparr> ''10.0.0.1:22'' \<and>
   (\<exists>s'. configure_session 5 sample_matches (\<lambda>_ _. True) DecodeConfig (Request ''config'' (EncodeConfig (''1.0'', [])))
       (Some \<lparr>Name = ''bob'', Pass = ''pw'', Addrs = [''R:0.0.0.0:30000'']\<rparr>) 0 sample_server = Inr (Inr 0, s') \<and>
     fst (handleSSHChannel True ''10.0.0.1:22'' (New (session_tunnel (config s')) :: string Tunnel)) = ServeTCP ''10.0.0.1:22'')"
proof -
  let ?bob = "\<lparr>Name = ''bob'', Pass = ''pw'', Addrs = [''R:0.0.0.0:30000'']\<rparr>"
  have ascii: "ascii ''1.0''" "list_all ascii_remote []" by (simp_all add: ascii_def byte_def)
  have dec: "DecodeConfig (EncodeConfig (''1.0'', [])) = Some (''1.0'', [])"
    using DecodeConfig_EncodeConfig [OF ascii] by simp
  from empty_configuration_accepted [where decode = DecodeConfig, OF dec]
  obtain s' where conf: "configure_session 5 sample_matches (\<lambda>_ _. True) DecodeConfig
      (Request ''config'' (EncodeConfig (''1.0'', []))) (Some ?bob) 0 sample_server = Inr (Inr 0, s')" by metis
  have target: "CHR ''/'' \<notin> set ''10.0.0.1:22''" "''10.0.0.1:22'' \<noteq> ''socks''" by simp_all
  have "fst (handleSSHChannel True ''10.0.0.1:22'' (New (session_tunnel (config s')) :: string Tunnel)) = ServeTCP ''10.0.0.1:22''"
    using channels_unchecked [OF conf dec target] by simp
  moreover have "\<not> HasAccess sample_matches ?bob ''10.0.0.1:22''" by (simp add: HasAccess_def sample_matches_def)
  ultimately show ?thesis using conf by blast
qed

end
