(* ===== verification/Wait_Group.thy ===== *)
theory Wait_Group
  imports Systems "HOL-Library.Multiset"
begin

section \<open>The tunnel's wait group\<close>

text \<open>
  Models share/tunnel/wg.go: a \<open>sync.WaitGroup\<close> with a visible counter, so that
  \<open>DoneAll\<close> can release every waiter. Its operations are not atomic: \<open>Add\<close> changes the
  visible counter before the inner one, \<open>Done\<close> loads, compares and swaps the visible counter
  and then decrements the inner one. The steps of any number of threads interleave; the
  operations under way form a multiset. The inner counter panics below zero. The visible
  counter is an int32 that would need 2\<up>31 additions to wrap, so it is an integer.
\<close>

subsection \<open>States and steps\<close>

record waitGroup =
  wg_n :: int
  wg_inner :: int

text \<open>
  What is left to do of an operation under way: the inner addition, the swap after the load,
  the inner decrement.
\<close>

datatype pending = InnerAdd int | Swap int | InnerDone

type_synonym wg_config = "waitGroup \<times> pending multiset"

definition new_waitGroup :: waitGroup where
  "new_waitGroup = \<lparr>wg_n = 0, wg_inner = 0\<rparr>"

text \<open>\<open>WaitGroup.Add\<close> of the library: none is its panic.\<close>

definition inner_add :: "int \<Rightarrow> waitGroup \<Rightarrow> waitGroup option" where
  "inner_add k w = (if wg_inner w + k < 0 then None else Some (w\<lparr>wg_inner := wg_inner w + k\<rparr>))"

inductive wg_step :: "wg_config \<Rightarrow> wg_config option \<Rightarrow> bool" where
  Add: "wg_step (w, P) (Some (w\<lparr>wg_n := wg_n w + k\<rparr>, add_mset (InnerAdd k) P))"
| Add_inner: "wg_step (w, add_mset (InnerAdd k) P) (map_option (\<lambda>w'. (w', P)) (inner_add k w))"
| Done_load: "wg_n w > 0 \<Longrightarrow> wg_step (w, P) (Some (w, add_mset (Swap (wg_n w)) P))"
| Done_swap: "wg_n w = v \<Longrightarrow>
    wg_step (w, add_mset (Swap v) P) (Some (w\<lparr>wg_n := v - 1\<rparr>, add_mset InnerDone P))"
| Done_lost: "wg_n w \<noteq> v \<Longrightarrow> wg_step (w, add_mset (Swap v) P) (Some (w, P))"
| Done_inner: "wg_step (w, add_mset InnerDone P) (map_option (\<lambda>w'. (w', P)) (inner_add (-1) w))"

inductive wg_run :: "wg_config \<Rightarrow> wg_config option \<Rightarrow> bool" where
  here: "wg_run c (Some c)"
| more: "wg_run c (Some c') \<Longrightarrow> wg_step c' r \<Longrightarrow> wg_run c r"

text \<open>\<open>Wait\<close> returns when the inner counter is zero; \<open>DoneAll\<close>'s loop ends when the visible one is.\<close>

definition Wait_returns :: "waitGroup \<Rightarrow> bool" where
  "Wait_returns w \<longleftrightarrow> wg_inner w = 0"

definition DoneAll_finished :: "waitGroup \<Rightarrow> bool" where
  "DoneAll_finished w \<longleftrightarrow> \<not> wg_n w > 0"

subsection \<open>The counters\<close>

definition adds_under_way :: "pending multiset \<Rightarrow> int" where
  "adds_under_way P = (\<Sum>p\<in>#P. case p of InnerAdd k \<Rightarrow> k | _ \<Rightarrow> 0)"

definition dones_under_way :: "pending multiset \<Rightarrow> int" where
  "dones_under_way P = int (count P InnerDone)"

lemma under_way_simps [simp]:
  "adds_under_way {#} = 0" "dones_under_way {#} = 0"
  "adds_under_way (add_mset (InnerAdd k) P) = k + adds_under_way P"
  "adds_under_way (add_mset (Swap v) P) = adds_under_way P"
  "adds_under_way (add_mset InnerDone P) = adds_under_way P"
  "dones_under_way (add_mset (InnerAdd k) P) = dones_under_way P"
  "dones_under_way (add_mset (Swap v) P) = dones_under_way P"
  "dones_under_way (add_mset InnerDone P) = 1 + dones_under_way P"
  by (simp_all add: adds_under_way_def dones_under_way_def)

definition wg_balanced :: "wg_config \<Rightarrow> bool" where
  "wg_balanced c \<longleftrightarrow>
     wg_inner (fst c) = wg_n (fst c) + dones_under_way (snd c) - adds_under_way (snd c) \<and> wg_inner (fst c) \<ge> 0"

lemma wg_step_balanced: "wg_step c (Some c') \<Longrightarrow> wg_balanced c \<Longrightarrow> wg_balanced c'"
  by (erule wg_step.cases) (auto simp: wg_balanced_def inner_add_def split: if_splits)

interpretation group_steps: invariant_stepping "\<lambda>c::wg_config. c = (new_waitGroup, {#})" "\<lambda>c (_::unit) c'. wg_step c (Some c')"
    "\<lambda>c. wg_run (new_waitGroup, {#}) (Some c)" wg_balanced
proof unfold_locales
  show "P c" if "wg_run (new_waitGroup, {#}) (Some c)" "\<And>c. c = (new_waitGroup, {#}) \<Longrightarrow> P c"
    "\<And>c e c'. wg_run (new_waitGroup, {#}) (Some c) \<Longrightarrow> P c \<Longrightarrow> wg_step c (Some c') \<Longrightarrow> P c'" for c P
    using that by (induction "(new_waitGroup, {#}) :: wg_config" "Some c" arbitrary: c rule: wg_run.induct) blast+
next
  show "wg_balanced c" if "c = (new_waitGroup, {#})" for c
    using that by (simp add: wg_balanced_def new_waitGroup_def)
qed (rule wg_run.more wg_step_balanced, assumption+)+

text \<open>
  In every interleaving from a fresh wait group, as long as nothing has panicked, the
  inner counter is the visible one plus the decrements under way minus the additions under
  way; so with none under way \<open>Wait\<close> returns exactly when the visible counter is zero, and
  in particular \<open>DoneAll\<close> has then released every waiter.
\<close>

lemma wait_group_counters:
  assumes "wg_run (new_waitGroup, {#}) (Some (w, P))"
  shows "wg_inner w = wg_n w + dones_under_way P - adds_under_way P \<and>
    (P = {#} \<longrightarrow> (Wait_returns w \<longleftrightarrow> wg_n w = 0) \<and> (Wait_returns w \<longleftrightarrow> DoneAll_finished w))"
proof -
  have "wg_balanced (w, P)"
    by (rule group_steps.reach_inv [OF assms])
  then show ?thesis by (auto simp: wg_balanced_def Wait_returns_def DoneAll_finished_def)
qed

subsection \<open>The operations run alone\<close>

text \<open>
  What \<open>Add\<close>, \<open>Done\<close> and \<open>DoneAll\<close> do when no other operation comes between their steps;
  none is the panic of the inner counter. Each is a run of the steps above.
\<close>

definition wg_Add :: "int \<Rightarrow> waitGroup \<Rightarrow> waitGroup option" where
  "wg_Add k w = inner_add k (w\<lparr>wg_n := wg_n w + k\<rparr>)"

definition wg_Done :: "waitGroup \<Rightarrow> waitGroup option" where
  "wg_Done w = (if wg_n w > 0 then inner_add (-1) (w\<lparr>wg_n := wg_n w - 1\<rparr>) else Some w)"

function wg_DoneAll :: "waitGroup \<Rightarrow> waitGroup option" where
  "wg_DoneAll w = (if wg_n w > 0 then Option.bind (wg_Done w) wg_DoneAll else Some w)"
  by pat_completeness auto
termination
  by (relation "measure (\<lambda>w. nat (wg_n w))") (auto simp: wg_Done_def inner_add_def split: if_splits)

declare wg_DoneAll.simps [simp del]

lemma wg_Add_run:
  assumes "wg_run c (Some (w, P))"
  shows "wg_run c (map_option (\<lambda>w'. (w', P)) (wg_Add k w))"
  using wg_run.more [OF wg_run.more [OF assms wg_step.Add] wg_step.Add_inner] by (simp add: wg_Add_def)

lemma wg_Done_run:
  assumes "wg_run c (Some (w, P))"
  shows "wg_run c (map_option (\<lambda>w'. (w', P)) (wg_Done w))"
proof (cases "wg_n w > 0")
  case True
  from wg_run.more [OF wg_run.more [OF wg_run.more [OF assms wg_step.Done_load [OF True]]
        wg_step.Done_swap [OF refl]] wg_step.Done_inner] True
  show ?thesis by (simp add: wg_Done_def)
qed (use assms in \<open>simp add: wg_Done_def\<close>)

lemma wg_DoneAll_run:
  "wg_run c (Some (w, P)) \<Longrightarrow> wg_run c (map_option (\<lambda>w'. (w', P)) (wg_DoneAll w))"
proof (induction w rule: wg_DoneAll.induct)
  case (1 w)
  from wg_Done_run [OF "1.prems"] "1.IH" "1.prems" show ?case
    by (cases "wg_Done w"; simp add: wg_DoneAll.simps [of w])
qed

text \<open>On counters that agree, nothing panics and \<open>DoneAll\<close> opens the group.\<close>

lemma wg_atomic:
  assumes "wg_inner w = wg_n w" "wg_n w \<ge> 0"
  shows "wg_Add 1 w = Some \<lparr>wg_n = wg_n w + 1, wg_inner = wg_n w + 1\<rparr>"
    "wg_Done w = Some \<lparr>wg_n = max 0 (wg_n w - 1), wg_inner = max 0 (wg_n w - 1)\<rparr>"
    "wg_DoneAll w = Some \<lparr>wg_n = 0, wg_inner = 0\<rparr>"
proof -
  have done1: "wg_Done w = Some \<lparr>wg_n = max 0 (wg_n w - 1), wg_inner = max 0 (wg_n w - 1)\<rparr>"
    if "wg_inner w = wg_n w" "wg_n w \<ge> 0" for w
    using that by (cases w) (auto simp: wg_Done_def inner_add_def max_def)
  have "wg_DoneAll w = Some \<lparr>wg_n = 0, wg_inner = 0\<rparr>"
    using assms
  proof (induction w rule: wg_DoneAll.induct)
    case (1 w)
    then show ?case using done1 [OF "1.prems"] by (cases w) (auto simp: wg_DoneAll.simps)
  qed
  with assms done1 show "wg_Add 1 w = Some \<lparr>wg_n = wg_n w + 1, wg_inner = wg_n w + 1\<rparr>"
    "wg_Done w = Some \<lparr>wg_n = max 0 (wg_n w - 1), wg_inner = max 0 (wg_n w - 1)\<rparr>"
    "wg_DoneAll w = Some \<lparr>wg_n = 0, wg_inner = 0\<rparr>"
    by (simp_all add: wg_Add_def inner_add_def)
qed

subsection \<open>When the wait group panics\<close>

text \<open>
  A step panics only while an addition is under way, unless it is itself the addition of
  a negative number: if no addition is under way, every decrement finds the inner counter
  positive.
\<close>

lemma wait_group_panic_needs_add:
  assumes run: "wg_run (new_waitGroup, {#}) (Some (w, P))" and panic: "wg_step (w, P) None"
    and adds: "\<And>k. InnerAdd k \<in># P \<Longrightarrow> k \<ge> 0" and n: "wg_n w \<ge> 0"
  shows "\<exists>k. InnerAdd k \<in># P"
proof (rule ccontr)
  assume none: "\<nexists>k. InnerAdd k \<in># P"
  then have "(\<Sum>p\<in>#P. case p of InnerAdd k \<Rightarrow> k | _ \<Rightarrow> 0) = (\<Sum>p\<in>#P. 0)"
    by (intro arg_cong [where f = sum_mset] image_mset_cong) (auto split: pending.split)
  then have zero: "adds_under_way P = 0" by (simp add: adds_under_way_def)
  have "wg_balanced (w, P)"
    by (rule group_steps.reach_inv [OF run])
  then have inner: "wg_inner w = wg_n w + dones_under_way P" by (simp add: wg_balanced_def zero)
  from panic show False
  proof (cases rule: wg_step.cases)
    case (Add_inner k Q)
    with none show ?thesis by auto
  next
    case (Done_inner Q)
    then have "dones_under_way P \<ge> 1" by (auto simp: dones_under_way_def)
    with Done_inner inner n show ?thesis by (simp add: inner_add_def split: if_splits)
  qed
qed

text \<open>
  The race: one thread is in the middle of \<open>Add(1)\<close>, between the two counters, when another
  runs \<open>DoneAll\<close>: the inner counter drops below zero and the process panics. \<open>BindSSH\<close>
  adds after its connection is closed while the goroutine that closed it calls \<open>DoneAll\<close>.
\<close>

lemma done_during_add_panics: "wg_run (new_waitGroup, {#}) None"
proof -
  let ?w1 = "\<lparr>wg_n = 1, wg_inner = 0\<rparr>"
  have "wg_run (new_waitGroup, {#}) (Some (?w1, {#InnerAdd 1#}))"
    using wg_run.more [OF wg_run.here wg_step.Add [of new_waitGroup "{#}" 1]] by (simp add: new_waitGroup_def)
  from wg_run.more [OF this wg_step.Done_load]
  have "wg_run (new_waitGroup, {#}) (Some (?w1, {#Swap 1, InnerAdd 1#}))" by simp
  from wg_run.more [OF this wg_step.Done_swap]
  have "wg_run (new_waitGroup, {#}) (Some (\<lparr>wg_n = 0, wg_inner = 0\<rparr>, {#InnerDone, InnerAdd 1#}))" by simp
  from wg_run.more [OF this wg_step.Done_inner] show ?thesis by (simp add: inner_add_def)
qed

text \<open>A run with one addition and one decrement: the wait group of a tunnel that connects.\<close>

lemma connect_run:
  "wg_run (new_waitGroup, {#}) (Some (\<lparr>wg_n = 0, wg_inner = 1\<rparr>, {#InnerDone#}))"
proof -
  have "wg_run (new_waitGroup, {#}) (Some (\<lparr>wg_n = 1, wg_inner = 0\<rparr>, {#InnerAdd 1#}))"
    using wg_run.more [OF wg_run.here wg_step.Add [of new_waitGroup "{#}" 1]] by (simp add: new_waitGroup_def)
  from wg_run.more [OF this wg_step.Add_inner]
  have "wg_run (new_waitGroup, {#}) (Some (\<lparr>wg_n = 1, wg_inner = 1\<rparr>, {#}))" by (simp add: inner_add_def)
  from wg_run.more [OF this wg_step.Done_load]
  have "wg_run (new_waitGroup, {#}) (Some (\<lparr>wg_n = 1, wg_inner = 1\<rparr>, {#Swap 1#}))" by simp
  from wg_run.more [OF this wg_step.Done_swap] show ?thesis by simp
qed

theorem wait_group_counters_witness:
  "wg_inner \<lparr>wg_n = 0, wg_inner = 1\<rparr> = wg_n \<lparr>wg_n = 0, wg_inner = 1\<rparr> + dones_under_way {#InnerDone#} - adds_under_way {#InnerDone#}"
  using wait_group_counters [OF connect_run] by blast

theorem wait_group_panic_needs_add_witness:
  "\<exists>k. InnerAdd k \<in># {#InnerDone, InnerAdd 1#}"
proof (rule wait_group_panic_needs_add)
  let ?w1 = "\<lparr>wg_n = 1, wg_inner = 0\<rparr>"
  have "wg_run (new_waitGroup, {#}) (Some (?w1, {#InnerAdd 1#}))"
    using wg_run.more [OF wg_run.here wg_step.Add [of new_waitGroup "{#}" 1]] by (simp add: new_waitGroup_def)
  from wg_run.more [OF this wg_step.Done_load]
  have "wg_run (new_waitGroup, {#}) (Some (?w1, {#Swap 1, InnerAdd 1#}))" by simp
  from wg_run.more [OF this wg_step.Done_swap]
  show "wg_run (new_waitGroup, {#}) (Some (\<lparr>wg_n = 0, wg_inner = 0\<rparr>, {#InnerDone, InnerAdd 1#}))" by simp
  show "wg_step (\<lparr>wg_n = 0, wg_inner = 0\<rparr>, {#InnerDone, InnerAdd 1#}) None"
    using wg_step.Done_inner [of "\<lparr>wg_n = 0, wg_inner = 0\<rparr>" "{#InnerAdd 1#}"] by (simp add: inner_add_def)
qed auto

end
