(* ===== verification/Tunnel_System.thy ===== *)
theory Tunnel_System
  imports Tunnel Wait_Group
begin

section \<open>A tunnel over its connections\<close>

text \<open>
  The life of a client's tunnel (share/tunnel/tunnel.go): its connections come and go one
  after the other, each linked to a context by a goroutine, while proxies wait in
  \<open>getSSH\<close> for a connection. A step relation interleaves binding, losing, unlinking and
  waiting. Each use of the wait group is one step here, and in these steps nothing panics;
  Tunnel_Race takes the uses of the group apart into their atomic accesses and has their panics.
\<close>

subsection \<open>State and operations\<close>

text \<open>
  \<open>bound\<close> is the connection of the call of \<open>BindSSH\<close> under way, \<open>linked\<close> the connections whose
  goroutine waits for the end of their context, \<open>waiting\<close> and \<open>woken\<close> the number of calls of
  \<open>getSSH\<close> before and after the wait group has let them go, \<open>stopped\<close> whether the client's
  context is done, and \<open>connections\<close> how many were bound so far.
\<close>

record 'conn live_tunnel =
  tun :: "'conn Tunnel"
  activatingConn :: waitGroup
  bound :: "'conn option"
  linked :: "'conn list"
  waiting :: nat
  woken :: nat
  stopped :: bool
  connections :: nat

definition live_New :: "TunnelConfig \<Rightarrow> 'conn live_tunnel" where
  "live_New c = \<lparr>tun = New c, activatingConn = \<lparr>wg_n = 1, wg_inner = 1\<rparr>, bound = None, linked = [],
     waiting = 0, woken = 0, stopped = False, connections = 0\<rparr>"

definition negative_counter :: go_panic where
  "negative_counter = PanicCall ''sync: negative WaitGroup counter''"

text \<open>\<open>BindSSH\<close> up to where it blocks, from there to its end, and its goroutine.\<close>

definition live_bind :: "'conn \<Rightarrow> 'conn live_tunnel \<Rightarrow> go_panic + 'conn live_tunnel" where
  "live_bind c s =
     (case BindSSH_begin c (tun s) of
        Inl p \<Rightarrow> Inl p
      | Inr t \<Rightarrow>
          (case wg_Done (activatingConn s) of
             None \<Rightarrow> Inl negative_counter
           | Some w \<Rightarrow> Inr (s\<lparr>tun := t, activatingConn := w, bound := Some c, linked := c # linked s,
               connections := Suc (connections s)\<rparr>)))"

definition live_lost :: "'conn live_tunnel \<Rightarrow> go_panic + 'conn live_tunnel" where
  "live_lost s =
     (case wg_Add 1 (activatingConn s) of
        None \<Rightarrow> Inl negative_counter
      | Some w \<Rightarrow> Inr (s\<lparr>activatingConn := w, tun := BindSSH_end (tun s), bound := None\<rparr>))"

definition live_unlink :: "'conn \<Rightarrow> 'conn live_tunnel \<Rightarrow> go_panic + 'conn live_tunnel" where
  "live_unlink c s =
     (case wg_DoneAll (activatingConn s) of
        None \<Rightarrow> Inl negative_counter
      | Some w \<Rightarrow> Inr (s\<lparr>activatingConn := w, linked := remove1 c (linked s)\<rparr>))"

subsection \<open>Steps\<close>

text \<open>
  The events; \<open>Got\<close> is a call of \<open>getSSH\<close> that returns. The connection loop calls \<open>BindSSH\<close>
  with a new connection each time, and the context of a connection is done when the client is
  stopped or the call for it has returned.
\<close>

datatype 'conn tunnel_event =
    Bind 'conn
  | Lost 'conn
  | Unlink 'conn
  | Stop
  | Waits
  | Wakes
  | Got "'conn option"

inductive tunnel_step :: "'conn live_tunnel \<Rightarrow> 'conn tunnel_event \<Rightarrow> go_panic + 'conn live_tunnel \<Rightarrow> bool" where
  bind: "bound s = None \<Longrightarrow> c \<notin> set (linked s) \<Longrightarrow> tunnel_step s (Bind c) (live_bind c s)"
| lost: "bound s = Some c \<Longrightarrow> tunnel_step s (Lost c) (live_lost s)"
| unlink: "c \<in> set (linked s) \<Longrightarrow> stopped s \<or> bound s \<noteq> Some c \<Longrightarrow> tunnel_step s (Unlink c) (live_unlink c s)"
| stop: "tunnel_step s Stop (Inr (s\<lparr>stopped := True\<rparr>))"
| got: "activeConn (tun s) = Some c \<Longrightarrow> tunnel_step s (Got (Some c)) (Inr s)"
| waits: "activeConn (tun s) = None \<Longrightarrow> tunnel_step s Waits (Inr (s\<lparr>waiting := Suc (waiting s)\<rparr>))"
| gave_up: "waiting s > 0 \<Longrightarrow> tunnel_step s (Got None) (Inr (s\<lparr>waiting := waiting s - 1\<rparr>))"
| wakes: "waiting s > 0 \<Longrightarrow> Wait_returns (activatingConn s) \<Longrightarrow>
    tunnel_step s Wakes (Inr (s\<lparr>waiting := waiting s - 1, woken := Suc (woken s)\<rparr>))"
| reads: "woken s > 0 \<Longrightarrow> tunnel_step s (Got (activeConn (tun s))) (Inr (s\<lparr>woken := woken s - 1\<rparr>))"

inductive_cases tunnel_stepE: "tunnel_step s e r"

inductive tunnel_reachable :: "TunnelConfig \<Rightarrow> 'conn live_tunnel \<Rightarrow> bool" for c where
  start: "tunnel_reachable c (live_New c)"
| step: "tunnel_reachable c s \<Longrightarrow> tunnel_step s e (Inr s') \<Longrightarrow> tunnel_reachable c s'"

subsection \<open>The invariant\<close>

definition live_inv :: "'conn live_tunnel \<Rightarrow> bool" where
  "live_inv s \<longleftrightarrow>
     activeConn (tun s) = bound s \<and>
     wg_inner (activatingConn s) = wg_n (activatingConn s) \<and>
     wg_n (activatingConn s) \<in> {0, 1} \<and>
     (bound s \<noteq> None \<longrightarrow> wg_n (activatingConn s) = 0) \<and>
     (connections s = 0 \<longrightarrow> bound s = None \<and> linked s = [] \<and> wg_n (activatingConn s) = 1 \<and> woken s = 0) \<and>
     (\<not> stopped s \<longrightarrow> (\<forall>c. bound s = Some c \<longrightarrow> c \<in> set (linked s))) \<and>
     (\<not> stopped s \<and> bound s = None \<and> linked s = [] \<and> connections s > 0 \<longrightarrow> wg_n (activatingConn s) = 0)"

lemma live_inv_New: "live_inv (live_New c)"
  by (simp add: live_inv_def live_New_def New_def)

lemma live_ops:
  assumes "live_inv s"
  shows "bound s = None \<Longrightarrow> live_bind c s = Inr (s\<lparr>tun := (tun s)\<lparr>activeConn := Some c\<rparr>,
      activatingConn := \<lparr>wg_n = 0, wg_inner = 0\<rparr>, bound := Some c, linked := c # linked s, connections := Suc (connections s)\<rparr>)"
    and "bound s \<noteq> None \<Longrightarrow> live_lost s = Inr (s\<lparr>activatingConn := \<lparr>wg_n = 1, wg_inner = 1\<rparr>,
      tun := BindSSH_end (tun s), bound := None\<rparr>)"
    and "live_unlink c s = Inr (s\<lparr>activatingConn := \<lparr>wg_n = 0, wg_inner = 0\<rparr>, linked := remove1 c (linked s)\<rparr>)"
  using assms wg_atomic [of "activatingConn s"]
  by (auto simp: live_inv_def live_bind_def live_lost_def live_unlink_def BindSSH_begin_def)

lemma tunnel_step_total:
  assumes "tunnel_step s e r" "live_inv s"
  shows "\<exists>s'. r = Inr s' \<and> live_inv s'"
  using assms(1)
proof (cases rule: tunnel_step.cases)
  case (bind c)
  with live_ops(1) [OF assms(2)] assms(2) show ?thesis by (simp add: live_inv_def)
next
  case (lost c)
  with live_ops(2) [OF assms(2)] assms(2) show ?thesis by (auto simp: live_inv_def BindSSH_end_def)
next
  case (unlink c)
  with live_ops(3) [OF assms(2)] assms(2) show ?thesis
    by (cases "bound s") (auto simp: live_inv_def in_set_remove1)
qed (use assms(2) in \<open>auto simp: live_inv_def Wait_returns_def\<close>)

interpretation tunnel_steps: invariant_stepping "\<lambda>s. s = live_New c" "\<lambda>s e s'. tunnel_step s e (Inr s')"
    "tunnel_reachable c" live_inv for c
proof unfold_locales
  show "P s" if "tunnel_reachable c s" "\<And>s. s = live_New c \<Longrightarrow> P s"
    "\<And>s e s'. tunnel_reachable c s \<Longrightarrow> P s \<Longrightarrow> tunnel_step s e (Inr s') \<Longrightarrow> P s'" for s P
    using that by (induction rule: tunnel_reachable.induct) blast+
next
  show "live_inv s'" if "live_inv s" "tunnel_step s e (Inr s')" for s e s'
    using tunnel_step_total [OF that(2,1)] by blast
qed (auto intro: tunnel_reachable.step live_inv_New)

lemmas live_reachable_inv = tunnel_steps.reach_inv

subsection \<open>What holds of every tunnel\<close>

lemma getSSH_waiting:
  assumes reach: "tunnel_reachable c s" and none: "activeConn (tun s) = None"
  shows "(connections s = 0 \<longrightarrow> \<not> Wait_returns (activatingConn s) \<and> woken s = 0) \<and>
    (connections s > 0 \<and> linked s = [] \<and> \<not> stopped s \<longrightarrow> Wait_returns (activatingConn s))"
  using live_reachable_inv [OF reach] none by (auto simp: live_inv_def Wait_returns_def)

text \<open>
  C33: when \<open>getSSH\<close> waits. Before the first connection is bound, the wait group holds every
  caller back, and none has been let go, so no call returns before a connection or its own
  time limit. But once a connection was bound and lost and its goroutine has run, the group
  is open for all the time until the next one is bound: a call then returns at once, with no
  connection, instead of waiting for the client to connect again.
\<close>

theorem getSSH_waits_only_once:
  assumes reach: "tunnel_reachable c s" and none: "activeConn (tun s) = None"
  shows "(connections s = 0 \<longrightarrow> (\<forall>r. \<not> tunnel_step s Wakes r) \<and> woken s = 0) \<and>
    (connections s > 0 \<and> linked s = [] \<and> \<not> stopped s \<longrightarrow>
      (\<exists>s1 s2 s3. tunnel_step s Waits (Inr s1) \<and> tunnel_step s1 Wakes (Inr s2) \<and> tunnel_step s2 (Got None) (Inr s3)))"
proof (intro conjI impI)
  assume first: "connections s = 0"
  then show "woken s = 0" using getSSH_waiting [OF assms] by simp
  show "\<forall>r. \<not> tunnel_step s Wakes r"
    using getSSH_waiting [OF assms] first by (auto elim: tunnel_stepE)
next
  assume again: "connections s > 0 \<and> linked s = [] \<and> \<not> stopped s"
  let ?s1 = "s\<lparr>waiting := Suc (waiting s)\<rparr>"
  let ?s2 = "?s1\<lparr>waiting := waiting ?s1 - 1, woken := Suc (woken ?s1)\<rparr>"
  have "tunnel_step s Waits (Inr ?s1)" using none by (rule tunnel_step.waits)
  moreover have "tunnel_step ?s1 Wakes (Inr ?s2)"
    by (rule tunnel_step.wakes) (use again getSSH_waiting [OF assms] in simp_all)
  moreover have "tunnel_step ?s2 (Got None) (Inr (?s2\<lparr>woken := woken ?s2 - 1\<rparr>))"
    using tunnel_step.reads [of ?s2] none by simp
  ultimately show "\<exists>s1 s2 s3. tunnel_step s Waits (Inr s1) \<and> tunnel_step s1 Wakes (Inr s2) \<and>
      tunnel_step s2 (Got None) (Inr s3)" by blast
qed

subsection \<open>A sample run\<close>

definition sample_tunnel_config :: TunnelConfig where
  "sample_tunnel_config = \<lparr>cfg_Inbound = True, cfg_Outbound = False, cfg_Socks = False, cfg_KeepAlive = 25 * second\<rparr>"

text \<open>The tunnel after its first connection has come and gone.\<close>

definition after_first :: "nat live_tunnel" where
  "after_first = (live_New sample_tunnel_config)\<lparr>activatingConn := \<lparr>wg_n = 0, wg_inner = 0\<rparr>, connections := 1\<rparr>"

lemma after_first_reachable: "tunnel_reachable sample_tunnel_config after_first"
proof -
  let ?s0 = "live_New sample_tunnel_config :: nat live_tunnel"
  let ?s1 = "?s0\<lparr>tun := (tun ?s0)\<lparr>activeConn := Some 7\<rparr>, activatingConn := \<lparr>wg_n = 0, wg_inner = 0\<rparr>,
    bound := Some 7, linked := [7], connections := 1\<rparr>"
  let ?s2 = "?s1\<lparr>activatingConn := \<lparr>wg_n = 1, wg_inner = 1\<rparr>, tun := BindSSH_end (tun ?s1), bound := None\<rparr>"
  let ?s3 = "?s2\<lparr>activatingConn := \<lparr>wg_n = 0, wg_inner = 0\<rparr>, linked := []\<rparr>"
  have r0: "tunnel_reachable sample_tunnel_config ?s0" by (rule tunnel_reachable.start)
  have "tunnel_step ?s0 (Bind 7) (Inr ?s1)"
    using tunnel_step.bind [of ?s0 7] live_ops(1) [OF live_inv_New, of sample_tunnel_config "7::nat"]
    by (simp add: live_New_def)
  with r0 have r1: "tunnel_reachable sample_tunnel_config ?s1" by (rule tunnel_reachable.step)
  have "tunnel_step ?s1 (Lost 7) (Inr ?s2)"
    using tunnel_step.lost [of ?s1 7] live_ops(2) [OF live_reachable_inv [OF r1]] by simp
  with r1 have r2: "tunnel_reachable sample_tunnel_config ?s2" by (rule tunnel_reachable.step)
  have "tunnel_step ?s2 (Unlink 7) (Inr ?s3)"
    using tunnel_step.unlink [of 7 ?s2] live_ops(3) [OF live_reachable_inv [OF r2], of 7] by simp
  with r2 have "tunnel_reachable sample_tunnel_config ?s3" by (rule tunnel_reachable.step)
  moreover have "?s3 = after_first"
    by (simp add: after_first_def live_New_def BindSSH_end_def New_def)
  ultimately show ?thesis by simp
qed

theorem getSSH_waits_only_once_witness:
  "connections after_first = 1 \<and>
   (\<exists>s1 s2 s3. tunnel_step after_first Waits (Inr s1) \<and> tunnel_step s1 Wakes (Inr s2) \<and> tunnel_step s2 (Got None) (Inr s3))"
proof -
  have "activeConn (tun after_first) = None" "linked after_first = []" "connections after_first = 1" "\<not> stopped after_first"
    by (simp_all add: after_first_def live_New_def New_def)
  with getSSH_waits_only_once [OF after_first_reachable] show ?thesis by simp
qed

end
