(* ===== verification/Conn.thy ===== *)
theory Conn
  imports Go_Strings
begin

section \<open>Connections\<close>

text \<open>
  Models share/cnet (the WebSocket as a byte stream, the HTTP server's life, streams as
  connections) and share/cio/pipe.go. The WebSocket's messages, the servers' own results and
  the data on the pipes are inputs. Pipe_System has the steps of a pipe's goroutines.
\<close>

subsection \<open>A WebSocket as a stream\<close>

text \<open>\<open>msgs\<close> are the messages still to come; with none left, reading one fails.\<close>

record wsConn =
  buff :: bytes
  msgs :: "bytes list"

definition NewWebSocketConn :: "bytes list \<Rightarrow> wsConn" where
  "NewWebSocketConn ms = \<lparr>buff = [], msgs = ms\<rparr>"

text \<open>\<open>Read\<close> into a buffer of \<open>ldst\<close> bytes: the bytes copied, or none for the error.\<close>

definition ws_Read :: "nat \<Rightarrow> wsConn \<Rightarrow> bytes option \<times> wsConn" where
  "ws_Read ldst c =
     (let got = (if length (buff c) > 0 then Some (buff c, c\<lparr>buff := []\<rparr>)
                 else (case msgs c of [] \<Rightarrow> None | m # ms \<Rightarrow> Some (m, c\<lparr>msgs := ms\<rparr>)))
      in case got of
           None \<Rightarrow> (None, c)
         | Some (src, c) \<Rightarrow>
             (if length src > ldst then (Some (take ldst src), c\<lparr>buff := drop ldst src\<rparr>)
              else (Some src, c)))"

text \<open>\<open>Write\<close> sends its bytes as one message, if that succeeds; the result is the number written.\<close>

definition ws_Write :: "bool \<Rightarrow> bytes \<Rightarrow> bytes list \<Rightarrow> nat option \<times> bytes list" where
  "ws_Write sends b sent = (if sends then (Some (length b), sent @ [b]) else (None, sent))"

text \<open>\<open>SetDeadline\<close> sets that for writing if that for reading could be set; none is success.\<close>

definition ws_SetDeadline :: "(time \<Rightarrow> 'e option) \<Rightarrow> (time \<Rightarrow> 'e option) \<Rightarrow> time \<Rightarrow> 'e option" where
  "ws_SetDeadline set_read set_write t = (case set_read t of Some e \<Rightarrow> Some e | None \<Rightarrow> set_write t)"

fun ws_reads :: "nat list \<Rightarrow> wsConn \<Rightarrow> bytes \<times> wsConn" where
  "ws_reads [] c = ([], c)"
| "ws_reads (n # ns) c =
     (case ws_Read n c of
        (None, c) \<Rightarrow> ([], c)
      | (Some b, c) \<Rightarrow> (let (bs, c) = ws_reads ns c in (b @ bs, c)))"

fun ws_writes :: "(bool \<times> bytes) list \<Rightarrow> bytes list \<Rightarrow> bytes list" where
  "ws_writes [] sent = sent"
| "ws_writes ((sends, b) # bs) sent = ws_writes bs (snd (ws_Write sends b sent))"

lemma ws_Read_stream:
  "ws_Read n c = (Some b, c') \<Longrightarrow>
   b @ buff c' @ concat (msgs c') = buff c @ concat (msgs c) \<and> length b \<le> n"
  by (cases c rule: wsConn.cases) (auto simp: ws_Read_def split: if_splits list.splits)

lemma ws_reads_stream:
  "ws_reads ns c = (bs, c') \<Longrightarrow> bs @ buff c' @ concat (msgs c') = buff c @ concat (msgs c)"
proof (induction ns arbitrary: c bs c')
  case (Cons n ns)
  obtain r c1 where r: "ws_Read n c = (r, c1)" by fastforce
  show ?case
  proof (cases r)
    case None
    with r Cons.prems show ?thesis by (auto simp: ws_Read_def Let_def split: if_splits list.splits)
  next
    case (Some b)
    obtain bs1 c2 where rest: "ws_reads ns c1 = (bs1, c2)" by fastforce
    with Cons.prems r Some have "bs = b @ bs1" "c' = c2" by auto
    with Cons.IH [OF rest] ws_Read_stream [of n c b c1] r Some show ?thesis by (simp add: append_assoc)
  qed
qed simp

lemma ws_writes_eq: "ws_writes bs sent = sent @ map snd (filter fst bs)"
  by (induction bs sent rule: ws_writes.induct) (simp_all add: ws_Write_def)

text \<open>
  C38: the WebSocket carries a byte stream: whatever pieces are written, and whatever sizes
  are read, the bytes read so far, the bytes kept back and the messages still to come are
  together exactly the bytes of the writes that succeeded, in order.
\<close>

theorem ws_stream:
  "case ws_reads ns (NewWebSocketConn (ws_writes bs [])) of
     (out, c) \<Rightarrow> out @ buff c @ concat (msgs c) = concat (map snd (filter fst bs))"
  using ws_reads_stream [of ns "NewWebSocketConn (ws_writes bs [])"]
  by (auto simp: NewWebSocketConn_def ws_writes_eq split: prod.split)

text \<open>
  What one read gives: as many bytes as asked for and there are, of those kept back if
  any are and else of the next message, keeping the rest; it fails only when nothing is kept
  back and no message is left, and then changes nothing.
\<close>

lemma ws_Read_spec:
  "case ws_Read n c of
      (None, c') \<Rightarrow> buff c = [] \<and> msgs c = [] \<and> c' = c
    | (Some b, c') \<Rightarrow>
        (let src = (if buff c = [] then hd (msgs c) else buff c)
         in b = take n src \<and> buff c' = drop n src \<and>
            msgs c' = (if buff c = [] then tl (msgs c) else msgs c))"
  by (cases "buff c"; cases "msgs c") (auto simp: ws_Read_def)

subsection \<open>The HTTP server\<close>

datatype http_error = CtxNotSet | NotStarted | ListenError | ErrServerClosed | ServeError

record HTTPServer =
  waiter :: bool
  http_closed :: bool

definition NewHTTPServer :: HTTPServer where
  "NewHTTPServer = \<lparr>waiter = False, http_closed = False\<rparr>"

definition GoServe :: "bool \<Rightarrow> HTTPServer \<Rightarrow> http_error option \<times> HTTPServer" where
  "GoServe ctx_set h = (if \<not> ctx_set then (Some CtxNotSet, h) else (None, h\<lparr>waiter := True\<rparr>))"

definition GoListenAndServeContext :: "bool \<Rightarrow> bool \<Rightarrow> HTTPServer \<Rightarrow> http_error option \<times> HTTPServer" where
  "GoListenAndServeContext ctx_set listens h =
     (if \<not> ctx_set then (Some CtxNotSet, h)
      else if \<not> listens then (Some ListenError, h)
      else GoServe ctx_set h)"

text \<open>\<open>GoListenAndServe\<close> does so with the background context, which is set.\<close>

definition GoListenAndServe :: "bool \<Rightarrow> HTTPServer \<Rightarrow> http_error option \<times> HTTPServer" where
  "GoListenAndServe listens h = GoListenAndServeContext True listens h"

definition HTTPServer_Close :: "HTTPServer \<Rightarrow> http_error option \<times> HTTPServer" where
  "HTTPServer_Close h =
     (if \<not> waiter h then (Some NotStarted, h) else (None, h\<lparr>http_closed := True\<rparr>))"

text \<open>\<open>err\<close> is what the serving goroutine ends with.\<close>

definition HTTPServer_Wait :: "http_error option \<Rightarrow> HTTPServer \<Rightarrow> http_error option" where
  "HTTPServer_Wait err h =
     (if \<not> waiter h then Some NotStarted
      else if err = Some ErrServerClosed then None else err)"

subsection \<open>Pipes\<close>

text \<open>
  What happens on the two sides of a pipe, in order: bytes arriving from either side, or a
  side ending. The first end closes both, so nothing is copied afterwards.
\<close>

datatype pipe_event = FromSrc bytes | FromDst bytes | SrcEnds | DstEnds

fun Pipe :: "pipe_event list \<Rightarrow> bytes \<times> bytes \<Rightarrow> bool \<times> bytes \<times> bytes" where
  "Pipe [] (to_dst, to_src) = (False, to_dst, to_src)"
| "Pipe (FromSrc b # es) (to_dst, to_src) = Pipe es (to_dst @ b, to_src)"
| "Pipe (FromDst b # es) (to_dst, to_src) = Pipe es (to_dst, to_src @ b)"
| "Pipe (SrcEnds # es) (to_dst, to_src) = (True, to_dst, to_src)"
| "Pipe (DstEnds # es) (to_dst, to_src) = (True, to_dst, to_src)"

definition Pipe_counts :: "pipe_event list \<Rightarrow> nat \<times> nat" where
  "Pipe_counts es = (let (_, to_dst, to_src) = Pipe es ([], []) in (length to_dst, length to_src))"

text \<open>
  A side that ends, if only for sending, ends both directions: what the other side has not
  sent by then is never copied, whatever it goes on to send.
\<close>

lemma Pipe_append_end:
  "fst (Pipe es bufs) \<Longrightarrow> Pipe (es @ es') bufs = Pipe es bufs"
  by (induction es bufs rule: Pipe.induct) simp_all

lemma Pipe_half_close: "Pipe (es @ SrcEnds # es') bufs = Pipe (es @ [SrcEnds]) bufs"
  by (induction es bufs rule: Pipe.induct) simp_all

text \<open>
  A reader to look at what passes: \<open>vis\<close> is a constant that is false, so the reader is given
  back as it is; the printer's \<open>Write\<close> logs the bytes in hexadecimal.
\<close>

datatype 'r vis_reader = SameReader 'r | Teed string 'r

definition vis :: bool where
  "vis = False"

definition pipeVis :: "string \<Rightarrow> 'r \<Rightarrow> 'r vis_reader" where
  "pipeVis name r = (if vis then Teed name r else SameReader r)"

definition hex_figure :: "nat \<Rightarrow> char" where
  "hex_figure d = ''0123456789abcdef'' ! d"

definition hex_text :: "bytes \<Rightarrow> string" where
  "hex_text b = concat (map (\<lambda>c. let n = of_char c :: nat in [hex_figure (n div 16), hex_figure (n mod 16)]) b)"

definition pipeVisPrinter_Write :: "string \<Rightarrow> bytes \<Rightarrow> nat \<times> string" where
  "pipeVisPrinter_Write name b = (length b, ''>>> '' @ name @ '': '' @ hex_text b)"

text \<open>\<open>handleTCP\<close> of tunnel_out_ssh.go: dial, then pipe; none is the error of the dial.\<close>

definition handleTCP :: "(string \<Rightarrow> bool) \<Rightarrow> string \<Rightarrow> pipe_event list \<Rightarrow> (nat \<times> nat) option" where
  "handleTCP dials hostPort es = (if \<not> dials hostPort then None else Some (Pipe_counts es))"

text \<open>
  \<open>Stdio\<close> as a stream: it reads the standard input and writes the standard output, and its
  \<open>Close\<close> does nothing, so a read of the standard input that is under way goes on.
\<close>

record stdio =
  stdin :: bytes
  stdout :: bytes

definition Stdio_Close :: "stdio \<Rightarrow> stdio" where
  "Stdio_Close s = s"

definition Stdio_Read :: "nat \<Rightarrow> stdio \<Rightarrow> bytes \<times> stdio" where
  "Stdio_Read n s = (take n (stdin s), s\<lparr>stdin := drop n (stdin s)\<rparr>)"

definition Stdio_Write :: "bytes \<Rightarrow> stdio \<Rightarrow> stdio" where
  "Stdio_Write b s = s\<lparr>stdout := stdout s @ b\<rparr>"

subsection \<open>A stream as a connection\<close>

text \<open>
  conn_rwc.go gives a channel's stream the methods of a connection, for the SOCKS server: it
  is its own address on both sides, and deadlines have no effect.
\<close>

record 'stream rwcConn =
  rwc :: 'stream

definition NewRWCConn :: "'stream \<Rightarrow> 'stream rwcConn" where
  "NewRWCConn s = \<lparr>rwc = s\<rparr>"

definition rwc_LocalAddr :: "'stream rwcConn \<Rightarrow> 'stream rwcConn" where
  "rwc_LocalAddr c = c"

definition rwc_RemoteAddr :: "'stream rwcConn \<Rightarrow> 'stream rwcConn" where
  "rwc_RemoteAddr c = c"

definition rwc_Network :: "'stream rwcConn \<Rightarrow> string" where
  "rwc_Network c = ''tcp''"

definition rwc_String :: "'stream rwcConn \<Rightarrow> string" where
  "rwc_String c = ''''"

definition rwc_SetDeadline :: "time \<Rightarrow> 'stream rwcConn \<Rightarrow> 'e option \<times> 'stream rwcConn" where
  "rwc_SetDeadline t c = (None, c)"

definition rwc_SetReadDeadline :: "time \<Rightarrow> 'stream rwcConn \<Rightarrow> 'e option \<times> 'stream rwcConn" where
  "rwc_SetReadDeadline t c = (None, c)"

definition rwc_SetWriteDeadline :: "time \<Rightarrow> 'stream rwcConn \<Rightarrow> 'e option \<times> 'stream rwcConn" where
  "rwc_SetWriteDeadline t c = (None, c)"

text \<open>\<open>handleSocks\<close> of tunnel_out_ssh.go: the SOCKS server, a parameter, serves the channel as a connection.\<close>

definition handleSocks :: "('stream rwcConn \<Rightarrow> string option) \<Rightarrow> 'stream \<Rightarrow> string option" where
  "handleSocks serve_conn stream = serve_conn (NewRWCConn stream)"

end
