(* ===== verification/Pipe_System.thy ===== *)
theory Pipe_System
  imports Conn Systems "HOL-Library.Sublist"
begin

section \<open>Pipes step by step\<close>

text \<open>
  \<open>Pipe\<close> of share/cio/pipe.go with its two copying goroutines, the \<open>sync.Once\<close> that closes
  both sides and the wait group, in steps that interleave in any order; and two such pipes in
  a row, as a forwarded connection has them: one between the accepted connection and the SSH
  channel (share/tunnel/tunnel_in_proxy.go), one between the channel and the dialled target
  (tunnel_out_ssh.go). The function \<open>Pipe\<close> of Conn is what a run of one pipe computes.
\<close>

subsection \<open>One direction\<close>

text \<open>
  \<open>io.Copy\<close> in a goroutine: the bytes read from its side so far, the chunk read and not yet
  written, the bytes written, and where the goroutine stands.
\<close>

datatype copy_stage = Copying | Closing | Returned

record copier =
  taken :: bytes
  chunk :: "bytes option"
  written :: bytes
  stage :: copy_stage

definition new_copier :: copier where
  "new_copier = \<lparr>taken = [], chunk = None, written = [], stage = Copying\<rparr>"

text \<open>
  A read gives at most \<open>n\<close> of the bytes that have come and are not read yet, some at least; a
  write of less than the chunk, like a read that fails or finds the end, ends the copying.
\<close>

definition copy_read :: "nat \<Rightarrow> bytes \<Rightarrow> copier \<Rightarrow> copier option" where
  "copy_read n stream c =
     (let x = take n (drop (length (taken c)) stream) in
      if stage c = Copying \<and> chunk c = None \<and> x \<noteq> [] then Some (c\<lparr>taken := taken c @ x, chunk := Some x\<rparr>) else None)"

definition copy_write :: "nat \<Rightarrow> copier \<Rightarrow> (bytes \<times> copier) option" where
  "copy_write n c =
     (case chunk c of
        None \<Rightarrow> None
      | Some x \<Rightarrow> Some (take n x, c\<lparr>chunk := None, written := written c @ take n x,
          stage := (if n < length x then Closing else Copying)\<rparr>))"

definition copy_end :: "copier \<Rightarrow> copier option" where
  "copy_end c = (if stage c = Copying \<and> chunk c = None then Some (c\<lparr>stage := Closing\<rparr>) else None)"

subsection \<open>The pipe\<close>

text \<open>\<open>up\<close> copies from \<open>src\<close> to \<open>dst\<close>, \<open>down\<close> back; \<open>once\<close> is set when the sides were closed.\<close>

record pipe =
  up :: copier
  down :: copier
  once :: bool
  waits :: nat

definition new_pipe :: pipe where
  "new_pipe = \<lparr>up = new_copier, down = new_copier, once = False, waits = 2\<rparr>"

datatype direction = Up | Down

fun side :: "direction \<Rightarrow> pipe \<Rightarrow> copier" where
  "side Up p = up p"
| "side Down p = down p"

fun set_side :: "direction \<Rightarrow> copier \<Rightarrow> pipe \<Rightarrow> pipe" where
  "set_side Up c p = p\<lparr>up := c\<rparr>"
| "set_side Down c p = p\<lparr>down := c\<rparr>"

fun copied :: "direction \<Rightarrow> bytes \<Rightarrow> pipe_event" where
  "copied Up b = FromSrc b"
| "copied Down b = FromDst b"

fun closing :: "direction \<Rightarrow> pipe_event" where
  "closing Up = SrcEnds"
| "closing Down = DstEnds"

text \<open>
  The steps of the goroutines, each with the event it is in the terms of \<open>Pipe\<close>, if any. The
  bytes that have come in on the two sides are arguments. Once the sides are closed nothing
  can be written. The last step of a goroutine closes the sides if the other has not.
\<close>

datatype pipe_op = Reads direction nat | Writes direction nat | Ends direction | Closes direction

fun pipe_step :: "pipe_op \<Rightarrow> bytes \<Rightarrow> bytes \<Rightarrow> pipe \<Rightarrow> (pipe \<times> pipe_event list) option" where
  "pipe_step (Reads d n) from_src from_dst p =
     map_option (\<lambda>c. (set_side d c p, [])) (copy_read n (case d of Up \<Rightarrow> from_src | Down \<Rightarrow> from_dst) (side d p))"
| "pipe_step (Writes d n) from_src from_dst p =
     map_option (\<lambda>(b, c). (set_side d c p, if once p then [] else [copied d b]))
       (copy_write (if once p then 0 else n) (side d p))"
| "pipe_step (Ends d) from_src from_dst p = map_option (\<lambda>c. (set_side d c p, [])) (copy_end (side d p))"
| "pipe_step (Closes d) from_src from_dst p =
     (if stage (side d p) = Closing
      then Some ((set_side d ((side d p)\<lparr>stage := Returned\<rparr>) p)\<lparr>once := True, waits := waits p - 1\<rparr>,
             if once p then [] else [closing d])
      else None)"

text \<open>What \<open>Pipe\<close> returns when the wait group lets it go.\<close>

definition pipe_result :: "pipe \<Rightarrow> (nat \<times> nat) option" where
  "pipe_result p = (if waits p = 0 then Some (length (written (up p)), length (written (down p))) else None)"

text \<open>Any number of steps, with what has come in on the two sides at each.\<close>

fun pipe_run :: "(pipe_op \<times> bytes \<times> bytes) list \<Rightarrow> pipe \<Rightarrow> (pipe \<times> pipe_event list) option" where
  "pipe_run [] p = Some (p, [])"
| "pipe_run ((a, from_src, from_dst) # as) p =
     (case pipe_step a from_src from_dst p of
        None \<Rightarrow> None
      | Some (p, es) \<Rightarrow> map_option (\<lambda>(p, es'). (p, es @ es')) (pipe_run as p))"

subsection \<open>Runs compute the function\<close>

lemma Pipe_append:
  "Pipe (es @ es') bufs = (case Pipe es bufs of (c, bufs) \<Rightarrow> if c then (c, bufs) else Pipe es' bufs)"
  by (induction es bufs rule: Pipe.induct) simp_all

text \<open>The wait group counts the goroutines at work; one that has closed has set \<open>once\<close>.\<close>

definition pipe_inv :: "pipe \<Rightarrow> bool" where
  "pipe_inv p \<longleftrightarrow>
     waits p = (if stage (up p) = Returned then 0 else 1) + (if stage (down p) = Returned then 0 else 1) \<and>
     once p = (stage (up p) = Returned \<or> stage (down p) = Returned) \<and>
     (chunk (up p) \<noteq> None \<longrightarrow> stage (up p) = Copying) \<and> (chunk (down p) \<noteq> None \<longrightarrow> stage (down p) = Copying) \<and>
     chunk (up p) \<noteq> Some [] \<and> chunk (down p) \<noteq> Some []"

definition pipe_view :: "pipe \<Rightarrow> bool \<times> bytes \<times> bytes" where
  "pipe_view p = (once p, written (up p), written (down p))"

lemma copy_readD:
  assumes "copy_read n stream c = Some c'"
  obtains x where "stage c = Copying" "chunk c = None" "x = take n (drop (length (taken c)) stream)" "x \<noteq> []"
    "c' = c\<lparr>taken := taken c @ x, chunk := Some x\<rparr>"
  using assms by (auto simp: copy_read_def Let_def split: if_splits)

lemma copy_writeD:
  assumes "copy_write n c = Some (b, c')"
  obtains x where "chunk c = Some x" "b = take n x"
    "c' = c\<lparr>chunk := None, written := written c @ b, stage := if n < length x then Closing else Copying\<rparr>"
  using assms by (auto simp: copy_write_def split: option.splits)

lemma copy_endD:
  "copy_end c = Some c' \<Longrightarrow> stage c = Copying \<and> chunk c = None \<and> c' = c\<lparr>stage := Closing\<rparr>"
  by (simp add: copy_end_def split: if_splits)

lemma pipe_stepE:
  assumes "pipe_step a from_src from_dst p = Some (p', es)"
  obtains (reads) d n x where "a = Reads d n" "stage (side d p) = Copying" "chunk (side d p) = None" "x \<noteq> []"
      "x = take n (drop (length (taken (side d p))) (case d of Up \<Rightarrow> from_src | Down \<Rightarrow> from_dst))"
      "p' = set_side d ((side d p)\<lparr>taken := taken (side d p) @ x, chunk := Some x\<rparr>) p" "es = []"
  | (writes) d n x b where "a = Writes d n" "chunk (side d p) = Some x"
      "b = take (if once p then 0 else n) x" "es = (if once p then [] else [copied d b])"
      "p' = set_side d ((side d p)\<lparr>chunk := None, written := written (side d p) @ b,
          stage := if (if once p then 0 else n) < length x then Closing else Copying\<rparr>) p"
  | (ends) d where "a = Ends d" "stage (side d p) = Copying" "chunk (side d p) = None"
      "p' = set_side d ((side d p)\<lparr>stage := Closing\<rparr>) p" "es = []"
  | (closes) d where "a = Closes d" "stage (side d p) = Closing" "es = (if once p then [] else [closing d])"
      "p' = (set_side d ((side d p)\<lparr>stage := Returned\<rparr>) p)\<lparr>once := True, waits := waits p - 1\<rparr>"
proof (cases a)
  case (Reads d n)
  with assms show thesis by (auto elim!: copy_readD intro: reads)
next
  case (Writes d n)
  with assms show thesis by (auto elim!: copy_writeD intro: writes)
next
  case (Ends d)
  with assms show thesis by (auto dest!: copy_endD intro: ends)
next
  case (Closes d)
  with assms show thesis by (auto intro: closes split: if_splits)
qed

lemma pipe_step_inv:
  assumes "pipe_step a from_src from_dst p = Some (p', es)" "pipe_inv p"
  shows "pipe_inv p'"
  using assms(1)
proof (cases rule: pipe_stepE)
  case (reads d n x)
  with assms(2) show ?thesis by (cases d) (simp_all add: pipe_inv_def)
next
  case (writes d n x b)
  with assms(2) show ?thesis by (cases d) (simp_all add: pipe_inv_def)
next
  case (ends d)
  with assms(2) show ?thesis by (cases d) (simp_all add: pipe_inv_def)
next
  case (closes d)
  with assms(2) show ?thesis by (cases d) (auto simp: pipe_inv_def)
qed

lemma pipe_step_view:
  assumes "pipe_step a from_src from_dst p = Some (p', es)"
  shows "pipe_view p' = (if once p then pipe_view p else Pipe es (written (up p), written (down p)))"
  using assms
proof (cases rule: pipe_stepE)
  case (reads d n x)
  then show ?thesis by (cases d) (simp_all add: pipe_view_def)
next
  case (writes d n x b)
  then show ?thesis by (cases d) (simp_all add: pipe_view_def)
next
  case (ends d)
  then show ?thesis by (cases d) (simp_all add: pipe_view_def)
next
  case (closes d)
  then show ?thesis by (cases d) (simp_all add: pipe_view_def)
qed

lemma pipe_run_view:
  assumes "pipe_run as p = Some (p', es)" "pipe_inv p"
  shows "pipe_inv p' \<and> pipe_view p' = (if once p then pipe_view p else Pipe es (written (up p), written (down p)))"
  using assms
proof (induction as p arbitrary: es rule: pipe_run.induct)
  case (2 a from_src from_dst as p)
  then obtain p1 es1 es2 where step: "pipe_step a from_src from_dst p = Some (p1, es1)"
    and run: "pipe_run as p1 = Some (p', es2)" "es = es1 @ es2"
    by (auto split: option.splits)
  have "pipe_inv p1" using pipe_step_inv [OF step] 2(3) .
  from 2(1) [OF step refl run(1) this] pipe_step_view [OF step]
  show ?case
    unfolding run(2) Pipe_append by (auto simp: pipe_view_def split: if_splits prod.splits)
qed (auto simp: pipe_view_def)

lemma pipe_step_ends:
  assumes "pipe_step a from_src from_dst p = Some (p', es)"
  shows "length (filter (\<lambda>e. e \<in> {SrcEnds, DstEnds}) es) = (if once p' then 1 else 0) - (if once p then 1 else 0) \<and>
    (once p \<longrightarrow> once p')"
  using assms
proof (cases rule: pipe_stepE)
  case (reads d n x)
  then show ?thesis by (cases d) simp_all
next
  case (writes d n x b)
  then show ?thesis by (cases d) simp_all
next
  case (ends d)
  then show ?thesis by (cases d) simp_all
next
  case (closes d)
  then show ?thesis by (cases d) simp_all
qed

lemma pipe_run_ends:
  "pipe_run as p = Some (p', es) \<Longrightarrow>
   length (filter (\<lambda>e. e \<in> {SrcEnds, DstEnds}) es) = (if once p' then 1 else 0) - (if once p then 1 else 0) \<and>
   (once p \<longrightarrow> once p')"
proof (induction as p arbitrary: es rule: pipe_run.induct)
  case (2 a from_src from_dst as p)
  then obtain p1 es1 es2 where step: "pipe_step a from_src from_dst p = Some (p1, es1)"
    and run: "pipe_run as p1 = Some (p', es2)" "es = es1 @ es2"
    by (auto split: option.splits)
  from 2(1) [OF step refl run(1)] pipe_step_ends [OF step] show ?case
    unfolding run(2) filter_append length_append by (simp split: if_splits)
qed simp

text \<open>The steps a goroutine still has once the sides are closed.\<close>

definition steps_left :: "copier \<Rightarrow> nat" where
  "steps_left c = (case stage c of Copying \<Rightarrow> if chunk c = None then 3 else 2 | Closing \<Rightarrow> 1 | Returned \<Rightarrow> 0)"

lemma pipe_step_left:
  assumes "pipe_step a from_src from_dst p = Some (p', es)" "pipe_inv p" "once p"
  shows "steps_left (up p') + steps_left (down p') < steps_left (up p) + steps_left (down p)"
  using assms(1)
proof (cases rule: pipe_stepE)
  case (reads d n x)
  then show ?thesis by (cases d) (simp_all add: steps_left_def)
next
  case (writes d n x b)
  with assms(2,3) show ?thesis by (cases d) (auto simp: steps_left_def pipe_inv_def)
next
  case (ends d)
  then show ?thesis by (cases d) (simp_all add: steps_left_def)
next
  case (closes d)
  then show ?thesis by (cases d) (simp_all add: steps_left_def)
qed

lemma pipe_run_left:
  "pipe_run as p = Some (p', es) \<Longrightarrow> pipe_inv p \<Longrightarrow> once p \<Longrightarrow> length as \<le> steps_left (up p) + steps_left (down p)"
proof (induction as p arbitrary: es rule: pipe_run.induct)
  case (2 a from_src from_dst as p)
  then obtain p1 es1 es2 where step: "pipe_step a from_src from_dst p = Some (p1, es1)"
    and run: "pipe_run as p1 = Some (p', es2)" by (auto split: option.splits)
  have "pipe_inv p1" "once p1" using pipe_step_inv [OF step 2(3)] pipe_step_ends [OF step] 2(4) by auto
  from 2(1) [OF step refl run this] pipe_step_left [OF step 2(3,4)] show ?case by simp
qed simp

text \<open>A goroutine that has not returned can go on: it writes what it holds, ends or closes.\<close>

lemma pipe_step_enabled:
  assumes "stage (side d p) \<noteq> Returned"
  shows "\<exists>a. pipe_step a from_src from_dst p \<noteq> None"
proof (cases "stage (side d p)")
  case Copying
  show ?thesis
  proof (cases "chunk (side d p)")
    case None
    with Copying show ?thesis by (intro exI [of _ "Ends d"]) (simp add: copy_end_def)
  next
    case (Some x)
    then show ?thesis by (intro exI [of _ "Writes d 0"]) (simp add: copy_write_def)
  qed
next
  case Closing
  then show ?thesis by (intro exI [of _ "Closes d"]) simp
qed (use assms in simp)

text \<open>
  C18: the goroutines of a pipe, however they interleave, compute \<open>Pipe\<close> on what they did:
  the writes in their order up to the first side to end. Both sides are closed exactly once,
  by the first goroutine to end, nothing is written afterwards, and the pipe returns when
  both have ended, with the numbers of bytes written to each side. It does return: from the
  moment the sides are closed no run has more than three further steps, and until it has returned
  some step is possible (it may be the end of a read, which is for the source to give: one of the standard input waits
  for more input).
\<close>

theorem pipe_runs_compute:
  assumes "pipe_run as new_pipe = Some (p, es)"
  shows "Pipe es ([], []) = (once p, written (up p), written (down p)) \<and>
    pipe_result p = (if stage (up p) = Returned \<and> stage (down p) = Returned then Some (Pipe_counts es) else None) \<and>
    length (filter (\<lambda>e. e \<in> {SrcEnds, DstEnds}) es) = (if once p then 1 else 0) \<and>
    (once p \<longrightarrow> (\<forall>as' p' es'. pipe_run as' p = Some (p', es') \<longrightarrow> length as' \<le> 3)) \<and>
    (pipe_result p = None \<longrightarrow> (\<forall>from_src from_dst. \<exists>a. pipe_step a from_src from_dst p \<noteq> None))"
proof -
  have inv: "pipe_inv new_pipe" by (simp add: pipe_inv_def new_pipe_def new_copier_def)
  from pipe_run_view [OF assms inv]
  have p: "pipe_inv p" "Pipe es ([], []) = (once p, written (up p), written (down p))"
    by (simp_all add: pipe_view_def new_pipe_def new_copier_def)
  moreover have "pipe_result p = (if stage (up p) = Returned \<and> stage (down p) = Returned then Some (Pipe_counts es) else None)"
    using p by (simp add: pipe_result_def pipe_inv_def Pipe_counts_def)
  moreover have "length (filter (\<lambda>e. e \<in> {SrcEnds, DstEnds}) es) = (if once p then 1 else 0)"
    using pipe_run_ends [OF assms] by (simp add: new_pipe_def)
  moreover have "length as' \<le> 3" if "once p" "pipe_run as' p = Some (p', es')" for as' p' es'
    using pipe_run_left [OF that(2) p(1) that(1)] p(1) that(1)
    by (auto simp: pipe_inv_def steps_left_def split: copy_stage.splits if_splits)
  moreover have "\<exists>a. pipe_step a from_src from_dst p \<noteq> None" if "pipe_result p = None" for from_src from_dst
  proof -
    have "stage (side Up p) \<noteq> Returned \<or> stage (side Down p) \<noteq> Returned"
      using that p(1) by (auto simp: pipe_result_def pipe_inv_def)
    with pipe_step_enabled show ?thesis by blast
  qed
  ultimately show ?thesis by blast
qed

subsection \<open>A forwarded connection\<close>

text \<open>
  The client's connection and the channel are the sides of the \<open>entry\<close> pipe, the channel and
  the connection to the target those of the \<open>exit\<close> pipe. The channel carries what one pipe
  has written on it to the other; the client and the target send at any time.
\<close>

record path =
  client_sent :: bytes
  target_sent :: bytes
  entry :: pipe
  exit :: pipe

definition new_path :: path where
  "new_path = \<lparr>client_sent = [], target_sent = [], entry = new_pipe, exit = new_pipe\<rparr>"

abbreviation target_got :: "path \<Rightarrow> bytes" where
  "target_got s \<equiv> written (up (exit s))"

abbreviation client_got :: "path \<Rightarrow> bytes" where
  "client_got s \<equiv> written (down (entry s))"

datatype path_op = ClientSends bytes | TargetSends bytes | Entry pipe_op | Exit pipe_op

fun path_step :: "path_op \<Rightarrow> path \<Rightarrow> path option" where
  "path_step (ClientSends b) s = Some (s\<lparr>client_sent := client_sent s @ b\<rparr>)"
| "path_step (TargetSends b) s = Some (s\<lparr>target_sent := target_sent s @ b\<rparr>)"
| "path_step (Entry a) s =
     map_option (\<lambda>(p, _). s\<lparr>entry := p\<rparr>) (pipe_step a (client_sent s) (written (down (exit s))) (entry s))"
| "path_step (Exit a) s =
     map_option (\<lambda>(p, _). s\<lparr>exit := p\<rparr>) (pipe_step a (written (up (entry s))) (target_sent s) (exit s))"

inductive path_reachable :: "path \<Rightarrow> bool" where
  start: "path_reachable new_path"
| step: "path_reachable s \<Longrightarrow> path_step a s = Some s' \<Longrightarrow> path_reachable s'"

subsection \<open>What a direction holds\<close>

definition held :: "copier \<Rightarrow> bytes" where
  "held c = (case chunk c of None \<Rightarrow> [] | Some x \<Rightarrow> x)"

text \<open>
  What was read is the beginning of what has come in, and what was written the beginning of
  what was read, all of it but the chunk held as long as the goroutine is copying.
\<close>

definition copier_ok :: "bytes \<Rightarrow> copier \<Rightarrow> bool" where
  "copier_ok stream c \<longleftrightarrow> prefix (taken c) stream \<and> prefix (written c) (taken c) \<and>
     (stage c = Copying \<longrightarrow> written c @ held c = taken c) \<and> (stage c \<noteq> Copying \<longrightarrow> chunk c = None)"

lemma copier_ok_more: "copier_ok stream c \<Longrightarrow> prefix stream stream' \<Longrightarrow> copier_ok stream' c"
  by (auto simp: copier_ok_def intro: prefix_order.trans)

definition pipe_ok :: "bytes \<Rightarrow> bytes \<Rightarrow> pipe \<Rightarrow> bool" where
  "pipe_ok from_src from_dst p \<longleftrightarrow> copier_ok from_src (up p) \<and> copier_ok from_dst (down p)"

lemma pipe_ok_more:
  "pipe_ok s d p \<Longrightarrow> prefix s s' \<Longrightarrow> prefix d d' \<Longrightarrow> pipe_ok s' d' p"
  by (auto simp: pipe_ok_def intro: copier_ok_more)

lemma take_drop_prefix: "prefix xs ys \<Longrightarrow> prefix (xs @ take n (drop (length xs) ys)) ys"
  by (auto simp: prefix_def) (metis append_take_drop_id)

lemma copier_ok_read:
  "copier_ok stream c \<Longrightarrow> stage c = Copying \<Longrightarrow> chunk c = None \<Longrightarrow>
   x = take n (drop (length (taken c)) stream) \<Longrightarrow> copier_ok stream (c\<lparr>taken := taken c @ x, chunk := Some x\<rparr>)"
  by (auto simp: copier_ok_def held_def take_drop_prefix)

lemma copier_ok_write:
  assumes ok: "copier_ok stream c" and x: "chunk c = Some x"
  shows "copier_ok stream (c\<lparr>chunk := None, written := written c @ take m x,
    stage := if m < length x then Closing else Copying\<rparr>)"
proof -
  have "stage c = Copying" using ok x by (auto simp: copier_ok_def)
  then have t: "taken c = (written c @ take m x) @ drop m x" using ok x by (auto simp: copier_ok_def held_def)
  with ok show ?thesis by (auto simp: copier_ok_def held_def take_is_prefix)
qed

lemma copier_ok_stage:
  "copier_ok stream c \<Longrightarrow> chunk c = None \<Longrightarrow> st \<noteq> Copying \<Longrightarrow> copier_ok stream (c\<lparr>stage := st\<rparr>)"
  by (auto simp: copier_ok_def)

text \<open>A step of a pipe keeps both directions so, and only adds to what was written.\<close>

lemma pipe_step_ok:
  assumes "pipe_step a from_src from_dst p = Some (p', es)" "pipe_ok from_src from_dst p"
  shows "pipe_ok from_src from_dst p' \<and> prefix (written (up p)) (written (up p')) \<and>
    prefix (written (down p)) (written (down p'))"
  using assms(1)
proof (cases rule: pipe_stepE)
  case (reads d n x)
  with assms(2) show ?thesis by (cases d) (auto simp: pipe_ok_def intro: copier_ok_read)
next
  case (writes d n x b)
  with assms(2) copier_ok_write show ?thesis by (cases d) (auto simp: pipe_ok_def)
next
  case (ends d)
  with assms(2) show ?thesis by (cases d) (auto simp: pipe_ok_def intro: copier_ok_stage)
next
  case (closes d)
  with assms(2) show ?thesis by (cases d) (auto simp: pipe_ok_def copier_ok_def)
qed

definition path_ok :: "path \<Rightarrow> bool" where
  "path_ok s \<longleftrightarrow> pipe_ok (client_sent s) (written (down (exit s))) (entry s) \<and>
     pipe_ok (written (up (entry s))) (target_sent s) (exit s)"

lemma path_step_ok:
  assumes "path_step a s = Some s'" "path_ok s"
  shows "path_ok s'"
proof (cases a)
  case (Entry b)
  with assms(1) obtain p es where
    p: "pipe_step b (client_sent s) (written (down (exit s))) (entry s) = Some (p, es)" "s' = s\<lparr>entry := p\<rparr>"
    by auto
  from pipe_step_ok [OF p(1)] assms(2) show ?thesis
    by (auto simp: p(2) path_ok_def intro: pipe_ok_more)
next
  case (Exit b)
  with assms(1) obtain p es where
    p: "pipe_step b (written (up (entry s))) (target_sent s) (exit s) = Some (p, es)" "s' = s\<lparr>exit := p\<rparr>"
    by auto
  from pipe_step_ok [OF p(1)] assms(2) show ?thesis
    by (auto simp: p(2) path_ok_def intro: pipe_ok_more)
qed (use assms in \<open>auto simp: path_ok_def intro: pipe_ok_more\<close>)

interpretation path: invariant_stepping "\<lambda>s. s = new_path" "\<lambda>s a s'. path_step a s = Some s'" path_reachable path_ok
proof unfold_locales
  show "P s" if "path_reachable s" "\<And>s. s = new_path \<Longrightarrow> P s"
    "\<And>s e s'. path_reachable s \<Longrightarrow> P s \<Longrightarrow> path_step e s = Some s' \<Longrightarrow> P s'" for s P
    using that by (induction rule: path_reachable.induct) blast+
  show "path_ok s" if "s = new_path" for s
    using that by (simp add: new_path_def path_ok_def pipe_ok_def copier_ok_def new_pipe_def new_copier_def held_def)
qed (rule path_reachable.step path_step_ok; assumption)+

lemma copier_all:
  "copier_ok stream c \<Longrightarrow> stage c = Copying \<Longrightarrow> written c @ held c @ drop (length (taken c)) stream = stream"
  by (auto simp: copier_ok_def prefix_def)

text \<open>
  C17: a forwarded connection neither alters, reorders nor invents bytes: at every moment of
  every interleaving, what the target has got is the beginning of what the client sent, and
  what the client has got the beginning of what the target sent. Nothing is dropped while the
  goroutines of a direction are copying: what was sent is what was got, followed by what the
  exit holds, what is on the channel, what the entry holds and what it has not read.
\<close>

theorem forwarded_bytes:
  assumes "path_reachable s"
  shows "prefix (target_got s) (client_sent s) \<and> prefix (client_got s) (target_sent s) \<and>
    (stage (up (entry s)) = Copying \<and> stage (up (exit s)) = Copying \<longrightarrow>
      client_sent s = target_got s @ held (up (exit s)) @
        drop (length (taken (up (exit s)))) (written (up (entry s))) @
        held (up (entry s)) @ drop (length (taken (up (entry s)))) (client_sent s)) \<and>
    (stage (down (entry s)) = Copying \<and> stage (down (exit s)) = Copying \<longrightarrow>
      target_sent s = client_got s @ held (down (entry s)) @
        drop (length (taken (down (entry s)))) (written (down (exit s))) @
        held (down (exit s)) @ drop (length (taken (down (exit s)))) (target_sent s))"
proof -
  have ok: "copier_ok (client_sent s) (up (entry s))" "copier_ok (written (up (entry s))) (up (exit s))"
    "copier_ok (target_sent s) (down (exit s))" "copier_ok (written (down (exit s))) (down (entry s))"
    using path.reach_inv [OF assms] by (simp_all add: path_ok_def pipe_ok_def)
  have through: "prefix (written c') stream \<and> (stage c = Copying \<and> stage c' = Copying \<longrightarrow>
      stream = written c' @ held c' @ drop (length (taken c')) (written c) @ held c @ drop (length (taken c)) stream)"
    if c: "copier_ok stream c" "copier_ok (written c) c'" for stream c c'
  proof -
    have "prefix (written c') stream"
      using c unfolding copier_ok_def by (meson prefix_order.trans)
    moreover have "stream = written c' @ held c' @ drop (length (taken c')) (written c) @ held c @ drop (length (taken c)) stream"
      if "stage c = Copying \<and> stage c' = Copying"
      using copier_all [OF c(1)] copier_all [OF c(2)] that by (metis append.assoc)
    ultimately show ?thesis by blast
  qed
  from through [OF ok(1,2)] through [OF ok(3,4)] show ?thesis by blast
qed

text \<open>
  Once the sides of the entry pipe are closed the client gets nothing more: a client that
  ends its sending side, which ends the copying up, loses every reply still to come.
\<close>

lemma closed_entry_silent:
  assumes "path_step a s = Some s'" "once (entry s)"
  shows "client_got s' = client_got s \<and> once (entry s')"
proof (cases a)
  case (Entry b)
  with assms(1) obtain p es where
    p: "pipe_step b (client_sent s) (written (down (exit s))) (entry s) = Some (p, es)" "s' = s\<lparr>entry := p\<rparr>"
    by auto
  from pipe_step_view [OF p(1)] p(2) assms(2) show ?thesis by (simp add: pipe_view_def)
qed (use assms in auto)

subsection \<open>A sample connection\<close>

fun path_run :: "path_op list \<Rightarrow> path \<Rightarrow> path option" where
  "path_run [] s = Some s"
| "path_run (a # as) s = (case path_step a s of None \<Rightarrow> None | Some s \<Rightarrow> path_run as s)"

lemma path_run_reachable: "path_reachable s \<Longrightarrow> path_run as s = Some s' \<Longrightarrow> path_reachable s'"
  by (induction as arbitrary: s) (auto intro: path_reachable.step split: option.splits)

definition request_run :: "path_op list" where
  "request_run = [ClientSends ''abc'', Entry (Reads Up 2), Entry (Writes Up 2), Exit (Reads Up 8),
     Exit (Writes Up 8), Entry (Reads Up 8), TargetSends ''z'']"

lemmas path_eval = new_path_def new_pipe_def new_copier_def copy_read_def copy_write_def copy_end_def Let_def

theorem forwarded_bytes_witness:
  "\<exists>s. path_run request_run new_path = Some s \<and> client_sent s = ''abc'' \<and> target_got s = ''ab'' \<and>
    prefix (target_got s) (client_sent s) \<and> prefix (client_got s) (target_sent s) \<and>
    client_sent s = target_got s @ held (up (exit s)) @
        drop (length (taken (up (exit s)))) (written (up (entry s))) @
        held (up (entry s)) @ drop (length (taken (up (entry s)))) (client_sent s)"
proof -
  obtain s where s: "path_run request_run new_path = Some s" "client_sent s = ''abc''" "target_got s = ''ab''"
    "stage (up (entry s)) = Copying" "stage (up (exit s)) = Copying"
    by (simp add: request_run_def path_eval)
  from forwarded_bytes [OF path_run_reachable [OF path_reachable.start s(1)]] s show ?thesis by blast
qed

text \<open>The client ends its sending side after its request; the target's reply is never given to it.\<close>

lemma half_close_loses_reply:
  "\<exists>s. path_run [ClientSends ''a'', Entry (Reads Up 1), Entry (Writes Up 1), Exit (Reads Up 1), Exit (Writes Up 1),
        Entry (Ends Up), Entry (Closes Up), TargetSends ''z'', Exit (Reads Down 1), Exit (Writes Down 1)] new_path = Some s \<and>
    target_got s = ''a'' \<and> target_sent s = ''z'' \<and> written (down (exit s)) = ''z'' \<and>
    (\<forall>as s'. path_run as s = Some s' \<longrightarrow> client_got s' = [])"
proof -
  obtain s where s: "path_run [ClientSends ''a'', Entry (Reads Up 1), Entry (Writes Up 1), Exit (Reads Up 1), Exit (Writes Up 1),
        Entry (Ends Up), Entry (Closes Up), TargetSends ''z'', Exit (Reads Down 1), Exit (Writes Down 1)] new_path = Some s"
    "target_got s = ''a''" "target_sent s = ''z''" "written (down (exit s)) = ''z''" "once (entry s)" "client_got s = []"
    by (simp add: path_eval)
  have "client_got s' = []" if "path_run as s = Some s'" "once (entry s)" "client_got s = []" for as s s'
    using that
  proof (induction as arbitrary: s)
    case (Cons a as)
    then show ?case using closed_entry_silent [of a s] by (auto split: option.splits)
  qed simp
  with s show ?thesis by blast
qed

theorem pipe_runs_compute_witness:
  "\<exists>p es. pipe_run [(Reads Up 2, ''abc'', []), (Writes Up 2, ''abc'', []), (Ends Up, ''abc'', []),
        (Closes Up, ''abc'', []), (Ends Down, ''abc'', []), (Closes Down, ''abc'', [])] new_pipe = Some (p, es) \<and>
    Pipe es ([], []) = (once p, written (up p), written (down p)) \<and> pipe_result p = Some (2, 0) \<and>
    pipe_result p = Some (Pipe_counts es)"
proof -
  let ?as = "[(Reads Up 2, ''abc'', []), (Writes Up 2, ''abc'', []), (Ends Up, ''abc'', []),
        (Closes Up, ''abc'', []), (Ends Down, ''abc'', []), (Closes Down, ''abc'', [])]"
  obtain p es where p: "pipe_run ?as new_pipe = Some (p, es)" "pipe_result p = Some (2, 0)"
    "stage (up p) = Returned" "stage (down p) = Returned"
    by (simp add: path_eval pipe_result_def)
  from pipe_runs_compute [OF p(1)] p show ?thesis by auto
qed

end
