(* ===== verification/Udp_Channel.thy ===== *)
theory Udp_Channel
  imports Udp_Listener Json
begin

section \<open>Packets on the stream of a channel\<close>

text \<open>
  Models share/tunnel/udp.go to the byte: a packet is written to the channel's stream and
  read from it by Go's encoding/gob, of which the wire format of this one type is spelled
  out: lengths, the message that describes the type before its first value, and values whose
  empty fields are left out. A stream with another description of the type is not modelled.
\<close>

subsection \<open>Numbers\<close>

fun be_bytes :: "nat \<Rightarrow> bytes" where
  "be_bytes n = (if n < 256 then [char_of n] else be_bytes (n div 256) @ [char_of (n mod 256)])"

declare be_bytes.simps [simp del]

definition be_value :: "bytes \<Rightarrow> nat" where
  "be_value bs = foldl (\<lambda>a c. 256 * a + byte c) 0 bs"

text \<open>A number below 128 is one byte; another is the negated count of its bytes and the bytes.\<close>

definition gob_uint :: "nat \<Rightarrow> bytes" where
  "gob_uint n = (if n < 128 then [char_of n] else (let bs = be_bytes n in char_of (256 - length bs) # bs))"

fun read_uint :: "bytes \<Rightarrow> (nat \<times> bytes) option" where
  "read_uint [] = None"
| "read_uint (c # cs) =
     (if byte c < 128 then Some (byte c, cs)
      else (let k = 256 - byte c in
            if k > 8 \<or> length cs < k then None else Some (be_value (take k cs), drop k cs)))"

definition gob_int :: "int \<Rightarrow> bytes" where
  "gob_int i = gob_uint (if i < 0 then 2 * nat (- i - 1) + 1 else 2 * nat i)"

definition read_int :: "bytes \<Rightarrow> (int \<times> bytes) option" where
  "read_int bs = map_option (apfst (\<lambda>u. if odd u then - int (u div 2) - 1 else int (u div 2))) (read_uint bs)"

text \<open>A text or a list of bytes is its length and its bytes.\<close>

definition gob_bytes :: "bytes \<Rightarrow> bytes" where
  "gob_bytes b = gob_uint (length b) @ b"

definition read_bytes :: "bytes \<Rightarrow> (bytes \<times> bytes) option" where
  "read_bytes bs =
     (case read_uint bs of
        None \<Rightarrow> None
      | Some (n, r) \<Rightarrow> if length r < n then None else Some (take n r, drop n r))"

subsection \<open>Messages\<close>

definition gob_message :: "bytes \<Rightarrow> bytes" where
  "gob_message body = gob_bytes body"

text \<open>The description of the type \<open>udpPacket\<close> under the number \<open>tid\<close>.\<close>

definition gob_field :: "string \<Rightarrow> int \<Rightarrow> bytes" where
  "gob_field name ty = [CHR 0x01] @ gob_bytes name @ [CHR 0x01] @ gob_int ty @ [CHR 0x00]"

definition packet_type :: "nat \<Rightarrow> bytes" where
  "packet_type tid =
     [CHR 0x03, CHR 0x01, CHR 0x01] @ gob_bytes ''udpPacket'' @ [CHR 0x01] @ gob_int (int tid) @ [CHR 0x00] @
     [CHR 0x01] @ gob_uint 2 @ gob_field ''Src'' 6 @ gob_field ''Payload'' 5 @ [CHR 0x00, CHR 0x00]"

definition type_message :: "nat \<Rightarrow> bytes" where
  "type_message tid = gob_message (gob_int (- int tid) @ packet_type tid)"

text \<open>A value: the fields that are not empty, each with its distance from the one before.\<close>

definition packet_fields :: "udpPacket \<Rightarrow> bytes" where
  "packet_fields p =
     (if Src p = [] then [] else gob_uint 1 @ gob_bytes (Src p)) @
     (if Payload p = [] then [] else gob_uint (if Src p = [] then 2 else 1) @ gob_bytes (Payload p)) @
     gob_uint 0"

definition value_message :: "nat \<Rightarrow> udpPacket \<Rightarrow> bytes" where
  "value_message tid p = gob_message (gob_int (int tid) @ packet_fields p)"

subsection \<open>The channel\<close>

text \<open>
  The encoder remembers whether it has sent the type, the decoder whether it has received it;
  \<open>type_id\<close> is the number the library gives the type in this process.
\<close>

record udpChannel =
  type_id :: nat
  type_sent :: bool
  type_known :: bool

definition new_udpChannel :: "nat \<Rightarrow> udpChannel" where
  "new_udpChannel tid = \<lparr>type_id = tid, type_sent = False, type_known = False\<rparr>"

text \<open>\<open>encode\<close>: the bytes written to the stream.\<close>

definition udpChannel_encode :: "string \<Rightarrow> bytes \<Rightarrow> udpChannel \<Rightarrow> bytes \<times> udpChannel" where
  "udpChannel_encode src b o' =
     ((if type_sent o' then [] else type_message (type_id o')) @ value_message (type_id o') \<lparr>Src = src, Payload = b\<rparr>,
      o'\<lparr>type_sent := True\<rparr>)"

text \<open>The fields of a value, from the field after number \<open>fnum\<close> on, filled into \<open>p\<close>.\<close>

fun read_fields :: "nat \<Rightarrow> nat \<Rightarrow> bytes \<Rightarrow> udpPacket \<Rightarrow> udpPacket option" where
  "read_fields 0 fnum bs p = None"
| "read_fields (Suc n) fnum bs p =
     (case read_uint bs of
        None \<Rightarrow> None
      | Some (d, r) \<Rightarrow>
          (if d = 0 then (if r = [] then Some p else None)
           else
             (case read_bytes r of
                None \<Rightarrow> None
              | Some (b, r) \<Rightarrow>
                  (if fnum + d = 1 then read_fields n (fnum + d) r (p\<lparr>Src := b\<rparr>)
                   else if fnum + d = 2 then read_fields n (fnum + d) r (p\<lparr>Payload := b\<rparr>)
                   else None))))"

text \<open>
  \<open>decode\<close> of the next packet: messages are read until one is a value. \<open>StreamEnd\<close> is the
  end of the stream between messages, \<open>Broken\<close> every error; \<open>n\<close> bounds the messages read.
\<close>

datatype udp_read_result = StreamEnd | Broken | ReadOne udpPacket bytes udpChannel

fun decode_from :: "nat \<Rightarrow> bytes \<Rightarrow> udpChannel \<Rightarrow> udp_read_result" where
  "decode_from 0 bs o' = Broken"
| "decode_from (Suc n) bs o' =
     (if bs = [] then StreamEnd
      else
        (case read_bytes bs of
           None \<Rightarrow> Broken
         | Some (body, rest) \<Rightarrow>
             (case read_int body of
                None \<Rightarrow> Broken
              | Some (t, value) \<Rightarrow>
                  (if t < 0 then
                     (if type_known o' \<or> t \<noteq> - int (type_id o') \<or> value \<noteq> packet_type (type_id o') then Broken
                      else decode_from n rest (o'\<lparr>type_known := True\<rparr>))
                   else if \<not> type_known o' \<or> t \<noteq> int (type_id o') then Broken
                   else
                     (case read_fields (Suc (length value)) 0 value \<lparr>Src = [], Payload = []\<rparr> of
                        None \<Rightarrow> Broken
                      | Some p \<Rightarrow> ReadOne p rest o')))))"

definition udpChannel_decode :: "bytes \<Rightarrow> udpChannel \<Rightarrow> udp_read_result" where
  "udpChannel_decode bs o' = decode_from (Suc (length bs)) bs o'"

text \<open>\<open>isDone\<close>: whether the context's channel is closed.\<close>

definition isDone :: "bool \<Rightarrow> bool" where
  "isDone done \<longleftrightarrow> done"

subsection \<open>Reading what was written\<close>

lemma byte_char_mod: "byte (char_of n) = n mod 256"
  by (simp add: byte_def)

lemma byte_char_of: "n < 256 \<Longrightarrow> byte (char_of n) = n"
  by (simp add: byte_char_mod)

lemma be_value_bytes: "be_value (be_bytes n) = n"
proof (induction n rule: be_bytes.induct)
  case (1 n)
  then show ?case by (subst be_bytes.simps) (auto simp: be_value_def byte_char_mod)
qed

lemma be_bytes_length: "n < 256 ^ k \<Longrightarrow> k > 0 \<Longrightarrow> length (be_bytes n) \<le> k \<and> length (be_bytes n) > 0"
proof (induction n arbitrary: k rule: be_bytes.induct)
  case (1 n)
  show ?case
  proof (cases "n < 256")
    case True
    then show ?thesis using 1 by (subst (1 2) be_bytes.simps) simp
  next
    case False
    then have "k \<noteq> 1" using 1(2) by auto
    with 1(3) obtain j where k: "k = Suc j" "j > 0" by (cases k) auto
    have "n div 256 < 256 ^ j" using 1(2) by (simp add: k less_mult_imp_div_less mult.commute)
    from 1(1) [OF False this k(2)] show ?thesis using False k by (subst (1 2) be_bytes.simps) simp
  qed
qed

lemma read_uint_gob: "n < 2 ^ 64 \<Longrightarrow> read_uint (gob_uint n @ r) = Some (n, r)"
proof (cases "n < 128")
  case True
  then show ?thesis by (simp add: gob_uint_def byte_char_of)
next
  case False
  assume "n < 2 ^ 64"
  then have l: "length (be_bytes n) \<le> 8" "length (be_bytes n) > 0" using be_bytes_length [of n 8] by simp_all
  then have b: "byte (char_of (256 - length (be_bytes n))) = 256 - length (be_bytes n)" by (intro byte_char_of) simp
  show ?thesis using l by (simp add: gob_uint_def False Let_def b be_value_bytes)
qed

lemma read_int_gob:
  assumes "\<bar>i\<bar> < 2 ^ 62"
  shows "read_int (gob_int i @ r) = Some (i, r)"
proof (cases "i < 0")
  case True
  then have "2 * nat (- i - 1) + 1 < 2 ^ 64" using assms by simp
  from read_uint_gob [OF this, of r] True show ?thesis by (simp add: read_int_def gob_int_def)
next
  case False
  then have "2 * nat i < 2 ^ 64" using assms by simp
  from read_uint_gob [OF this, of r] False show ?thesis by (simp add: read_int_def gob_int_def)
qed

lemma read_bytes_gob: "length b < 2 ^ 64 \<Longrightarrow> read_bytes (gob_bytes b @ r) = Some (b, r)"
  by (simp add: read_bytes_def gob_bytes_def read_uint_gob)

lemma gob_uint_not_Nil: "gob_uint n \<noteq> []"
  by (simp add: gob_uint_def Let_def)

lemma read_fields_packet:
  assumes "length (Src p) < 2 ^ 64" "length (Payload p) < 2 ^ 64"
  shows "read_fields (Suc (Suc (Suc n))) 0 (packet_fields p) \<lparr>Src = [], Payload = []\<rparr> = Some p"
proof -
  have zero: "read_uint (gob_uint 0) = Some (0, [])" using read_uint_gob [of 0 "[]"] by simp
  have small: "read_uint (gob_uint 1 @ r) = Some (1, r)" "read_uint (gob_uint (Suc 0) @ r) = Some (Suc 0, r)"
    "read_uint (gob_uint 2 @ r) = Some (2, r)" for r
    using read_uint_gob [of 1 r] read_uint_gob [of 2 r] by simp_all
  show ?thesis
    using assms by (cases p) (simp add: packet_fields_def zero small read_bytes_gob)
qed

lemma message_not_Nil [simp]: "value_message tid p \<noteq> []" "type_message tid \<noteq> []"
  by (simp_all add: value_message_def type_message_def gob_message_def gob_bytes_def gob_uint_not_Nil)

text \<open>A packet the format can hold.\<close>

definition packet_ok :: "udpPacket \<Rightarrow> bool" where
  "packet_ok p \<longleftrightarrow> length (Src p) + length (Payload p) < 2 ^ 62"

lemma gob_uint_length: "n < 2 ^ 64 \<Longrightarrow> length (gob_uint n) \<le> 9"
  using be_bytes_length [of n 8] by (simp add: gob_uint_def Let_def)

lemma packet_fields_length:
  assumes "packet_ok p"
  shows "length (packet_fields p) < 2 ^ 63" "length (packet_fields p) \<ge> 1"
    "Src p \<noteq> [] \<or> Payload p \<noteq> [] \<Longrightarrow> length (packet_fields p) \<ge> 2"
proof -
  have small: "length (gob_uint d) = 1" if "d < 128" for d using that by (simp add: gob_uint_def)
  have "length (gob_uint (length (Src p))) \<le> 9" "length (gob_uint (length (Payload p))) \<le> 9"
    using assms by (simp_all add: packet_ok_def gob_uint_length)
  then show "length (packet_fields p) < 2 ^ 63"
    using assms by (simp add: packet_fields_def gob_bytes_def small packet_ok_def)
  show "length (packet_fields p) \<ge> 1" "Src p \<noteq> [] \<or> Payload p \<noteq> [] \<Longrightarrow> length (packet_fields p) \<ge> 2"
    by (auto simp: packet_fields_def small)
qed

lemma read_fields_enough:
  assumes "packet_ok p"
  shows "read_fields (Suc (length (packet_fields p))) 0 (packet_fields p) \<lparr>Src = [], Payload = []\<rparr> = Some p"
proof (cases "Src p = [] \<and> Payload p = []")
  case True
  then have "packet_fields p = gob_uint 0" "p = \<lparr>Src = [], Payload = []\<rparr>" by (cases p; simp add: packet_fields_def)+
  then show ?thesis using read_uint_gob [of 0 "[]"] by simp
next
  case False
  then obtain n where "length (packet_fields p) = Suc (Suc n)"
    using packet_fields_length(3) [OF assms] by (metis add_2_eq_Suc le_Suc_ex)
  then show ?thesis using read_fields_packet [of p n] assms by (simp add: packet_ok_def)
qed

lemma decode_value:
  assumes ok: "packet_ok p" and tid: "type_id o' < 2 ^ 61" "type_known o'"
  shows "decode_from (Suc n) (value_message (type_id o') p @ r) o' = ReadOne p r o'"
proof -
  let ?t = "type_id o'"
  have id: "\<bar>int ?t\<bar> < 2 ^ 62" using tid by simp
  have "length (gob_int (int ?t)) \<le> 9" using tid by (simp add: gob_int_def gob_uint_length)
  then have "length (gob_int (int ?t) @ packet_fields p) < 2 ^ 64" using packet_fields_length(1) [OF ok] by simp
  then have body: "read_bytes (value_message ?t p @ r) = Some (gob_int (int ?t) @ packet_fields p, r)"
    by (simp add: value_message_def gob_message_def read_bytes_gob)
  with read_int_gob [OF id, of "packet_fields p"] read_fields_enough [OF ok] tid(2) show ?thesis
    by (simp del: read_fields.simps)
qed

lemma packet_type_length: "tid < 2 ^ 61 \<Longrightarrow> length (packet_type tid) < 2 ^ 62"
proof -
  assume "tid < 2 ^ 61"
  then have "length (gob_int (int tid)) \<le> 9" by (simp add: gob_int_def gob_uint_length)
  moreover have "length (gob_uint d) = 1" if "d < 128" for d using that by (simp add: gob_uint_def)
  ultimately show ?thesis by (simp add: packet_type_def gob_field_def gob_bytes_def gob_int_def)
qed

lemma decode_type:
  assumes tid: "0 < type_id o'" "type_id o' < 2 ^ 61" "\<not> type_known o'"
  shows "decode_from (Suc n) (type_message (type_id o') @ r) o' = decode_from n r (o'\<lparr>type_known := True\<rparr>)"
proof -
  let ?t = "type_id o'"
  have id: "\<bar>- int ?t\<bar> < 2 ^ 62" using tid by simp
  have "2 * nat (int ?t - 1) + 1 < 2 ^ 64" using tid by simp
  then have "length (gob_int (- int ?t)) \<le> 9" using tid(1) by (simp add: gob_int_def gob_uint_length)
  then have "length (gob_int (- int ?t) @ packet_type ?t) < 2 ^ 64" using packet_type_length [OF tid(2)] by simp
  then have body: "read_bytes (type_message ?t @ r) = Some (gob_int (- int ?t) @ packet_type ?t, r)"
    by (simp add: type_message_def gob_message_def read_bytes_gob)
  with read_int_gob [OF id, of "packet_type ?t"] tid show ?thesis by simp
qed

text \<open>The two ends of a channel in step: the one has sent the type if the other knows it.\<close>

lemma channel_decode_encode:
  assumes ok: "packet_ok \<lparr>Src = src, Payload = b\<rparr>" and tid: "0 < type_id w" "type_id w < 2 ^ 61"
    and step: "type_id r = type_id w" "type_known r = type_sent w"
    and enc: "udpChannel_encode src b w = (bs, w')"
  shows "\<exists>r'. udpChannel_decode (bs @ rest) r = ReadOne \<lparr>Src = src, Payload = b\<rparr> rest r' \<and>
    type_id r' = type_id w' \<and> type_known r' = type_sent w' \<and> type_id w' = type_id w"
proof (cases "type_sent w")
  case True
  then have "bs = value_message (type_id r) \<lparr>Src = src, Payload = b\<rparr>" "w' = w\<lparr>type_sent := True\<rparr>"
    using enc step by (simp_all add: udpChannel_encode_def)
  with decode_value [OF ok, of r "length (bs @ rest)" rest] step tid True show ?thesis
    by (simp add: udpChannel_decode_def)
next
  case False
  then have bs: "bs = type_message (type_id r) @ value_message (type_id r) \<lparr>Src = src, Payload = b\<rparr>"
      "w' = w\<lparr>type_sent := True\<rparr>"
    using enc step by (simp_all add: udpChannel_encode_def)
  then obtain n where n: "length (bs @ rest) = Suc n"
    by (metis append_is_Nil_conv length_0_conv message_not_Nil(2) not0_implies_Suc)
  have "\<not> type_known r" using False step by simp
  with decode_type [of r "Suc n" "value_message (type_id r) \<lparr>Src = src, Payload = b\<rparr> @ rest"]
    decode_value [OF ok, of "r\<lparr>type_known := True\<rparr>" n rest] step tid
  have "udpChannel_decode (bs @ rest) r = ReadOne \<lparr>Src = src, Payload = b\<rparr> rest (r\<lparr>type_known := True\<rparr>)"
    unfolding udpChannel_decode_def n by (simp add: bs(1) del: decode_from.simps)
  with step bs(2) show ?thesis by simp
qed

text \<open>A whole stream.\<close>

fun encode_all :: "udpPacket list \<Rightarrow> udpChannel \<Rightarrow> bytes" where
  "encode_all [] w = []"
| "encode_all (p # ps) w = (let (bs, w) = udpChannel_encode (Src p) (Payload p) w in bs @ encode_all ps w)"

fun decode_all :: "nat \<Rightarrow> bytes \<Rightarrow> udpChannel \<Rightarrow> udpPacket list \<times> udp_read_result" where
  "decode_all 0 bs r = ([], Broken)"
| "decode_all (Suc n) bs r =
     (case udpChannel_decode bs r of
        ReadOne p rest r \<Rightarrow> apfst (Cons p) (decode_all n rest r)
      | e \<Rightarrow> ([], e))"

lemma decode_all_encode:
  assumes "list_all packet_ok ps" "0 < type_id w" "type_id w < 2 ^ 61" "type_id r = type_id w" "type_known r = type_sent w"
  shows "decode_all (Suc (length ps)) (encode_all ps w) r = (ps, StreamEnd)"
  using assms
proof (induction ps arbitrary: w r)
  case Nil
  then show ?case by (simp add: udpChannel_decode_def)
next
  case (Cons p ps)
  obtain bs w' where enc: "udpChannel_encode (Src p) (Payload p) w = (bs, w')" by fastforce
  have p: "\<lparr>Src = Src p, Payload = Payload p\<rparr> = p" by (cases p) simp
  from channel_decode_encode [OF _ Cons.prems(2-5) enc, of "encode_all ps w'", unfolded p] Cons.prems(1)
  obtain r' where r': "udpChannel_decode (bs @ encode_all ps w') r = ReadOne p (encode_all ps w') r'"
    "type_id r' = type_id w'" "type_known r' = type_sent w'" "type_id w' = type_id w" by auto
  from Cons.IH [of w' r'] Cons.prems r' have "decode_all (Suc (length ps)) (encode_all ps w') r' = (ps, StreamEnd)" by simp
  with r'(1) enc show ?case by (simp del: decode_all.simps add: decode_all.simps(2))
qed

text \<open>
  Udp packets survive the stream of their channel: whatever packets are encoded on it, with
  empty sources and payloads among them, the decoder at the other end reads exactly these
  packets in this order, each by itself whatever follows it on the stream, and then the end.
\<close>

lemma udp_channel_roundtrip:
  assumes "list_all packet_ok ps" "0 < tid" "tid < 2 ^ 61"
  shows "decode_all (Suc (length ps)) (encode_all ps (new_udpChannel tid)) (new_udpChannel tid) = (ps, StreamEnd)"
  by (rule decode_all_encode) (use assms in \<open>simp_all add: new_udpChannel_def\<close>)

lemma udp_channel_roundtrip_witness:
  "decode_all 3 (encode_all [\<lparr>Src = ''1.2.3.4:53'', Payload = ''query''\<rparr>, \<lparr>Src = ''1.2.3.4:53'', Payload = []\<rparr>]
      (new_udpChannel 65)) (new_udpChannel 65) =
    ([\<lparr>Src = ''1.2.3.4:53'', Payload = ''query''\<rparr>, \<lparr>Src = ''1.2.3.4:53'', Payload = []\<rparr>], StreamEnd)"
proof -
  let ?ps = "[\<lparr>Src = ''1.2.3.4:53'', Payload = ''query''\<rparr>, \<lparr>Src = ''1.2.3.4:53'', Payload = []\<rparr>]"
  have ok: "list_all packet_ok ?ps" by (simp add: packet_ok_def)
  have tid: "(0 :: nat) < 65" "(65 :: nat) < 2 ^ 61" by simp_all
  have "(3 :: nat) = Suc (length ?ps)" by simp
  then show ?thesis using udp_channel_roundtrip [OF ok tid] by metis
qed

end
