(* ===== verification/Udp_System.thy ===== *)
theory Udp_System
  imports Udp_Channel Udp_Tunnel Systems
begin

section \<open>A udp remote from end to end\<close>

text \<open>
  One channel of a udp remote with both its ends: the listener's two loops
  (share/tunnel/tunnel_in_proxy_udp.go), the bytes of the channel in both directions (udp.go), and the
  handler with its table and its reading goroutines (tunnel_out_ssh_udp.go), in steps that
  interleave in any order.
\<close>

subsection \<open>A direction of the channel\<close>

text \<open>The encoder at one end, the decoder at the other, and the bytes that are on their way.\<close>

record gob_stream =
  writer :: udpChannel
  reader :: udpChannel
  flying :: bytes

definition new_stream :: "nat \<Rightarrow> gob_stream" where
  "new_stream tid = \<lparr>writer = new_udpChannel tid, reader = new_udpChannel tid, flying = []\<rparr>"

definition stream_put :: "udpPacket \<Rightarrow> gob_stream \<Rightarrow> gob_stream" where
  "stream_put p s =
     (let (bs, w) = udpChannel_encode (Src p) (Payload p) (writer s) in s\<lparr>writer := w, flying := flying s @ bs\<rparr>)"

definition stream_get :: "gob_stream \<Rightarrow> (udpPacket \<times> gob_stream) option" where
  "stream_get s =
     (case udpChannel_decode (flying s) (reader s) of
        ReadOne p rest r \<Rightarrow> Some (p, s\<lparr>reader := r, flying := rest\<rparr>)
      | _ \<Rightarrow> None)"

text \<open>What a queue of packets promises, whatever carries it.\<close>

locale fifo =
  fixes put :: "'p \<Rightarrow> 's \<Rightarrow> 's"
    and get :: "'s \<Rightarrow> ('p \<times> 's) option"
    and ok :: "'p \<Rightarrow> bool"
    and carries :: "'s \<Rightarrow> 'p list \<Rightarrow> bool"
  assumes put_last: "carries s ps \<Longrightarrow> ok p \<Longrightarrow> carries (put p s) (ps @ [p])"
    and get_first: "carries s (p # ps) \<Longrightarrow> \<exists>s'. get s = Some (p, s') \<and> carries s' ps"
    and get_none: "carries s [] \<Longrightarrow> get s = None"
begin

lemma get_head: "carries s ps \<Longrightarrow> get s = Some (p, s') \<Longrightarrow> \<exists>ps'. ps = p # ps' \<and> carries s' ps'"
  using get_first get_none by (cases ps) fastforce+

text \<open>What has been taken out so far is the beginning of what was put in.\<close>

lemma get_next:
  assumes "carries s ps" "out @ ps = ins" "get s = Some (p, s')"
  shows "\<exists>ps'. carries s' ps' \<and> (out @ [p]) @ ps' = ins" "p \<in> set ins" "prefix out ins"
  using get_head [OF assms(1,3)] assms(2) by auto

end

text \<open>The encoder has reached the end of the packets on their way, the decoder stands before them.\<close>

definition carries :: "gob_stream \<Rightarrow> udpPacket list \<Rightarrow> bool" where
  "carries s ps \<longleftrightarrow> list_all packet_ok ps \<and>
     (\<exists>w. 0 < type_id w \<and> type_id w < 2 ^ 61 \<and> type_id (reader s) = type_id w \<and>
        type_known (reader s) = type_sent w \<and> flying s = encode_all ps w \<and>
        writer s = (if ps = [] then w else w\<lparr>type_sent := True\<rparr>))"

lemma encode_all_Cons:
  "encode_all (p # ps) w = fst (udpChannel_encode (Src p) (Payload p) w) @ encode_all ps (w\<lparr>type_sent := True\<rparr>)"
  by (simp add: udpChannel_encode_def)

lemma encode_all_append:
  "encode_all (ps @ qs) w = encode_all ps w @ encode_all qs (if ps = [] then w else w\<lparr>type_sent := True\<rparr>)"
proof (induction ps arbitrary: w)
  case (Cons p ps)
  then show ?case by (simp add: encode_all_Cons del: encode_all.simps(2))
qed simp

interpretation gob: fifo stream_put stream_get packet_ok carries
proof unfold_locales
  show "carries (stream_put p s) (ps @ [p])" if "carries s ps" "packet_ok p" for s ps p
  proof -
    from that(1) obtain w where ok: "list_all packet_ok ps" and w: "0 < type_id w" "type_id w < 2 ^ 61"
        "type_id (reader s) = type_id w" "type_known (reader s) = type_sent w"
        "flying s = encode_all ps w" "writer s = (if ps = [] then w else w\<lparr>type_sent := True\<rparr>)"
      by (auto simp: carries_def)
    have "snd (udpChannel_encode src b w) = w\<lparr>type_sent := True\<rparr>" for src b w by (simp add: udpChannel_encode_def)
    then have "stream_put p s = s\<lparr>writer := w\<lparr>type_sent := True\<rparr>, flying := encode_all (ps @ [p]) w\<rparr>"
      by (simp add: stream_put_def case_prod_beta w(5,6) encode_all_append encode_all_Cons del: encode_all.simps(2))
    then show ?thesis
      unfolding carries_def using ok that(2) w by (intro conjI exI [of _ w]) simp_all
  qed
next
  fix s p ps
  assume "carries s (p # ps)"
  then obtain w where ok: "packet_ok p" "list_all packet_ok ps" and w: "0 < type_id w" "type_id w < 2 ^ 61"
      "type_id (reader s) = type_id w" "type_known (reader s) = type_sent w"
      "flying s = encode_all (p # ps) w" "writer s = w\<lparr>type_sent := True\<rparr>"
    by (auto simp: carries_def)
  obtain bs w' where enc: "udpChannel_encode (Src p) (Payload p) w = (bs, w')" by fastforce
  then have w': "w' = w\<lparr>type_sent := True\<rparr>" by (simp add: udpChannel_encode_def)
  have "\<lparr>Src = Src p, Payload = Payload p\<rparr> = p" by (cases p) simp
  with channel_decode_encode [OF _ w(1-4) enc, of "encode_all ps w'"] ok(1)
  obtain r where "udpChannel_decode (bs @ encode_all ps w') (reader s) = ReadOne p (encode_all ps w') r"
    "type_id r = type_id w'" "type_known r = type_sent w'" by auto
  with w ok(2) w' enc show "\<exists>s'. stream_get s = Some (p, s') \<and> carries s' ps"
    by (auto simp: stream_get_def carries_def intro!: exI [of _ w'])
next
  show "stream_get s = None" if "carries s []" for s
    using that by (simp add: carries_def stream_get_def udpChannel_decode_def)
qed

lemma new_stream_carries: "0 < tid \<Longrightarrow> tid < 2 ^ 61 \<Longrightarrow> carries (new_stream tid) []"
  by (simp add: carries_def new_stream_def new_udpChannel_def)

subsection \<open>The system\<close>

text \<open>
  \<open>waiting\<close> are the reading goroutines, each with its source and the socket it reads. The
  rest is what has happened: the datagrams read at the entry, the sockets dialled and the
  source each was dialled for, the payloads written to them, the replies read from them, and the
  packets written back at the entry.
\<close>

record udp_path =
  listener :: "nat udpListener"
  to_exit :: gob_stream
  to_entry :: gob_stream
  table :: udpConns
  exit_mtu :: nat
  waiting :: "(string \<times> nat) list"
  exit_open :: bool
  entry_open :: bool
  received :: "(string \<times> bytes) list"
  dialled :: "(nat \<times> string) list"
  delivered :: "(nat \<times> udpPacket) list"
  replies :: "(nat \<times> bytes) list"
  given_back :: "udpPacket list"

text \<open>A path begins with the channel just opened and cached by the listener.\<close>

definition fresh_path :: "udp_path \<Rightarrow> bool" where
  "fresh_path s \<longleftrightarrow> outbound (listener s) \<noteq> None \<and> udp_sent (listener s) = 0 \<and> udp_recv (listener s) = 0 \<and>
     (\<exists>tid. 0 < tid \<and> tid < 2 ^ 61 \<and> to_exit s = new_stream tid) \<and>
     (\<exists>tid. 0 < tid \<and> tid < 2 ^ 61 \<and> to_entry s = new_stream tid) \<and>
     table s = no_conns \<and> waiting s = [] \<and> exit_open s \<and> entry_open s \<and>
     received s = [] \<and> dialled s = [] \<and> delivered s = [] \<and> replies s = [] \<and> given_back s = []"

text \<open>The goroutine a packet starts, if it does, and the socket it is dialled, if it is.\<close>

definition starts_reader :: "string \<Rightarrow> udpConns \<Rightarrow> udpConns \<Rightarrow> (string \<times> nat) list" where
  "starts_reader a t t' =
     (if readers t' = readers t then [] else (case fmlookup (conns t') a of None \<Rightarrow> [] | Some k \<Rightarrow> [(a, k)]))"

definition dials :: "string \<Rightarrow> udpConns \<Rightarrow> udpConns \<Rightarrow> (nat \<times> string) list" where
  "dials a t t' = (if next_sock t' = next_sock t then [] else [(next_sock t, a)])"

datatype udp_path_event =
    ClientSends string bytes
  | ExitHandles bool bool
  | ExitFails bool bool "string list"
  | TargetReplies string nat bytes
  | ReaderStops string nat
  | EntryHandles "string \<Rightarrow> bool" bool

inductive udp_path_step :: "udp_path \<Rightarrow> udp_path_event \<Rightarrow> udp_path \<Rightarrow> bool" where
  client_sends: "runInbound_round (ReadPacket a b) None (\<lambda>_ _. None) None (listener s) = (Sent c p, u) \<Longrightarrow> packet_ok p \<Longrightarrow>
    udp_path_step s (ClientSends a b)
      (s\<lparr>listener := u, to_exit := stream_put p (to_exit s), received := received s @ [(a, b)]\<rparr>)"
| exit_handles: "exit_open s \<Longrightarrow> stream_get (to_exit s) = Some (p, st) \<Longrightarrow>
    handleWrite (Some p) d w (table s) = (Written k b, t) \<Longrightarrow>
    udp_path_step s (ExitHandles d w)
      (s\<lparr>to_exit := st, table := t, waiting := starts_reader (Src p) (table s) t @ waiting s,
         dialled := dials (Src p) (table s) t @ dialled s, delivered := delivered s @ [(k, \<lparr>Src = Src p, Payload = b\<rparr>)]\<rparr>)"
| exit_fails: "exit_open s \<Longrightarrow> stream_get (to_exit s) = Some (p, st) \<Longrightarrow>
    handleWrite (Some p) d w (table s) = (res, t) \<Longrightarrow> (\<And>k b. res \<noteq> Written k b) \<Longrightarrow>
    udp_path_step s (ExitFails d w order)
      (s\<lparr>to_exit := st, table := udp_closeAll order t, waiting := starts_reader (Src p) (table s) t @ waiting s,
         dialled := dials (Src p) (table s) t @ dialled s, exit_open := False\<rparr>)"
| target_replies: "(a, k) \<in> set (waiting s) \<Longrightarrow> handleRead (exit_mtu s) a [(Some b, True)] = [p] \<Longrightarrow> packet_ok p \<Longrightarrow>
    udp_path_step s (TargetReplies a k b)
      (s\<lparr>to_entry := stream_put p (to_entry s), replies := replies s @ [(k, b)]\<rparr>)"
| reader_stops: "(a, k) \<in> set (waiting s) \<Longrightarrow>
    udp_path_step s (ReaderStops a k)
      (s\<lparr>table := reader_ends a (table s), waiting := remove1 (a, k) (waiting s)\<rparr>)"
| entry_handles: "entry_open s \<Longrightarrow> stream_get (to_entry s) = Some (p, st) \<Longrightarrow>
    runOutbound_round None (\<lambda>_ _. None) (Decoded p) resolves write_ok (listener s) = (Delivered q, u) \<Longrightarrow>
    udp_path_step s (EntryHandles resolves write_ok)
      (s\<lparr>listener := u, to_entry := st, given_back := given_back s @ [q]\<rparr>)"
| entry_fails: "entry_open s \<Longrightarrow> stream_get (to_entry s) = Some (p, st) \<Longrightarrow>
    runOutbound_round None (\<lambda>_ _. None) (Decoded p) resolves write_ok (listener s) = (LoopError e, u) \<Longrightarrow>
    udp_path_step s (EntryHandles resolves write_ok) (s\<lparr>listener := u, to_entry := st, entry_open := False\<rparr>)"

inductive udp_path_reachable :: "udp_path \<Rightarrow> bool" where
  start: "fresh_path s \<Longrightarrow> udp_path_reachable s"
| step: "udp_path_reachable s \<Longrightarrow> udp_path_step s e s' \<Longrightarrow> udp_path_reachable s'"

subsection \<open>What holds in every state\<close>

definition cut :: "nat \<Rightarrow> string \<Rightarrow> bytes \<Rightarrow> udpPacket" where
  "cut mtu a b = \<lparr>Src = a, Payload = take mtu b\<rparr>"

definition requests :: "udp_path \<Rightarrow> udpPacket list" where
  "requests s = map (\<lambda>(a, b). cut (nat (maxMTU (listener s))) a b) (received s)"

definition answers :: "udp_path \<Rightarrow> udpPacket list" where
  "answers s = map (\<lambda>(k, b). cut (exit_mtu s) (the (map_of (dialled s) k)) b) (replies s)"

definition payload_bytes :: "udpPacket list \<Rightarrow> int" where
  "payload_bytes ps = (\<Sum>p\<leftarrow>ps. int (length (Payload p)))"

definition requests_ok :: "udp_path \<Rightarrow> bool" where
  "requests_ok s \<longleftrightarrow> prefix (map snd (delivered s)) (requests s) \<and>
     (\<exists>ps. carries (to_exit s) ps \<and> (exit_open s \<longrightarrow> map snd (delivered s) @ ps = requests s))"

definition answers_ok :: "udp_path \<Rightarrow> bool" where
  "answers_ok s \<longleftrightarrow> prefix (given_back s) (answers s) \<and>
     (\<exists>ps. carries (to_entry s) ps \<and> (entry_open s \<longrightarrow> given_back s @ ps = answers s))"

definition sockets_ok :: "udp_path \<Rightarrow> bool" where
  "sockets_ok s \<longleftrightarrow> distinct (map fst (dialled s)) \<and>
     (\<forall>(k, a) \<in> set (dialled s). k < next_sock (table s) \<and> a \<in> fst ` set (received s)) \<and>
     (\<forall>a k. fmlookup (conns (table s)) a = Some k \<longrightarrow> (k, a) \<in> set (dialled s)) \<and>
     (\<forall>(a, k) \<in> set (waiting s). (k, a) \<in> set (dialled s)) \<and>
     (\<forall>(k, p) \<in> set (delivered s). (k, Src p) \<in> set (dialled s)) \<and>
     (\<forall>(k, b) \<in> set (replies s). k \<in> fst ` set (dialled s))"

definition counters_ok :: "udp_path \<Rightarrow> bool" where
  "counters_ok s \<longleftrightarrow> udp_sent (listener s) = payload_bytes (requests s) \<and>
     udp_recv (listener s) = payload_bytes (given_back s)"

definition udp_path_ok :: "udp_path \<Rightarrow> bool" where
  "udp_path_ok s \<longleftrightarrow> requests_ok s \<and> answers_ok s \<and> sockets_ok s \<and> counters_ok s"

subsection \<open>The operations on the way\<close>

lemma inbound_sent:
  assumes "runInbound_round (ReadPacket a b) None opens None u = (Sent c p, u')"
  shows "p = cut (nat (maxMTU u)) a b" "maxMTU u' = maxMTU u" "udp_recv u' = udp_recv u"
    "udp_sent u' = udp_sent u + int (length (Payload p))"
  using assms
  by (auto simp: runInbound_round_def runInbound_once_def getUDPChan_def cut_def split: option.splits if_splits)

lemma outbound_round:
  assumes "runOutbound_round None opens (Decoded p) resolves ok u = (res, u')"
  shows "maxMTU u' = maxMTU u" "udp_sent u' = udp_sent u"
    "res = Delivered q \<Longrightarrow> q = p \<and> udp_recv u' = udp_recv u + int (length (Payload p))"
    "res = LoopError e \<Longrightarrow> udp_recv u' = udp_recv u"
  using assms
  by (auto simp: runOutbound_round_def runOutbound_once_def getUDPChan_def split: option.splits if_splits)

lemma handleWrite_table:
  assumes "handleWrite (Some p) d w t = (res, t')"
  obtains (same) "conns t' = conns t" "next_sock t' = next_sock t" "readers t' = readers t"
  | (new) "fmlookup (conns t) (Src p) = None" "conns t' = fmupd (Src p) (next_sock t) (conns t)"
      "next_sock t' = Suc (next_sock t)"
proof (cases "fmlookup (conns t) (Src p) = None \<and> d")
  case True
  then have "conns t' = fmupd (Src p) (next_sock t) (conns t) \<and> next_sock t' = Suc (next_sock t)"
    using assms by (simp add: handleWrite_def udp_dial_def Let_def split: if_splits) auto
  with True new show ?thesis by blast
next
  case False
  then have "t' = t"
    using assms by (cases "fmlookup (conns t) (Src p)") (simp_all add: handleWrite_def udp_dial_def Let_def split: if_splits)
  with same show ?thesis by blast
qed

lemma handleWrite_written:
  "handleWrite (Some p) d w t = (Written k b, t') \<Longrightarrow> b = Payload p \<and> fmlookup (conns t') (Src p) = Some k"
  by (auto simp: handleWrite_def udp_dial_def Let_def split: option.splits if_splits)

lemma closeAll_table:
  "next_sock (udp_closeAll order t) = next_sock t"
  "fmlookup (conns (udp_closeAll order t)) a = Some k \<Longrightarrow> fmlookup (conns t) a = Some k"
  by (induction order t rule: udp_closeAll.induct) (auto split: option.splits if_splits)

lemma reader_ends_table:
  "next_sock (reader_ends i t) = next_sock t"
  "fmlookup (conns (reader_ends i t)) a = Some k \<Longrightarrow> fmlookup (conns t) a = Some k"
  by (auto simp: reader_ends_def udp_remove_def split: if_splits)

subsection \<open>Every step keeps it\<close>

lemma sockets_write:
  assumes ok: "sockets_ok s" and w: "handleWrite (Some p) d w (table s) = (res, t)"
    and src: "Src p \<in> fst ` set (received s)"
  defines "s' \<equiv> s\<lparr>table := t, waiting := starts_reader (Src p) (table s) t @ waiting s,
    dialled := dials (Src p) (table s) t @ dialled s\<rparr>"
  shows "sockets_ok s'" "answers s' = answers s"
    "fmlookup (conns t) a = Some k \<Longrightarrow> (k, a) \<in> set (dialled s')"
proof -
  have "sockets_ok s' \<and> answers s' = answers s \<and> (\<forall>a k. fmlookup (conns t) a = Some k \<longrightarrow> (k, a) \<in> set (dialled s'))"
    using w
  proof (cases rule: handleWrite_table)
    case same
    then have "dials (Src p) (table s) t = []" "starts_reader (Src p) (table s) t = []"
      by (simp_all add: dials_def starts_reader_def)
    with ok same show ?thesis by (simp add: s'_def sockets_ok_def answers_def)
  next
    case new
    let ?k = "next_sock (table s)"
    have dials: "dialled s' = (?k, Src p) # dialled s" using new by (simp add: s'_def dials_def)
    have old: "k < ?k" if "(k, a) \<in> set (dialled s)" for k a using ok that by (auto simp: sockets_ok_def)
    have tables: "(k, a) \<in> set (dialled s')" if "fmlookup (conns t) a = Some k" for a k
      using that ok new dials by (auto simp: sockets_ok_def split: if_splits)
    have waits: "(k, a) \<in> set (dialled s')" if "(a, k) \<in> set (waiting s')" for a k
      using that ok tables [of a k] dials
      by (auto simp: s'_def sockets_ok_def starts_reader_def split: if_splits option.splits)
    have "?k \<notin> fst ` set (dialled s)" using old by fastforce
    then have "map_of (dialled s') k = map_of (dialled s) k" if "(k, b) \<in> set (replies s)" for k b
      using ok that dials by (auto simp: sockets_ok_def)
    then have "answers s' = answers s" by (auto simp: answers_def s'_def)
    moreover have "sockets_ok s'"
      using ok tables waits old src new dials \<open>?k \<notin> fst ` set (dialled s)\<close>
      unfolding sockets_ok_def by (auto simp: s'_def less_Suc_eq)
    ultimately show ?thesis using tables by blast
  qed
  then show "sockets_ok s'" "answers s' = answers s"
    "fmlookup (conns t) a = Some k \<Longrightarrow> (k, a) \<in> set (dialled s')" by blast+
qed

lemma sockets_table:
  assumes "sockets_ok s" "next_sock t = next_sock (table s)"
    and "\<And>a k. fmlookup (conns t) a = Some k \<Longrightarrow> fmlookup (conns (table s)) a = Some k"
    and "set ws \<subseteq> set (waiting s)"
  shows "sockets_ok (s\<lparr>table := t, waiting := ws\<rparr>)"
  using assms unfolding sockets_ok_def by simp blast

lemma next_request:
  assumes "udp_path_ok s" "exit_open s" "stream_get (to_exit s) = Some (p, st)"
  shows "\<exists>ps. carries st ps \<and> (map snd (delivered s) @ [p]) @ ps = requests s" "Src p \<in> fst ` set (received s)"
proof -
  from assms obtain ps where "carries (to_exit s) ps" "map snd (delivered s) @ ps = requests s"
    by (auto simp: udp_path_ok_def requests_ok_def)
  note next_packet = gob.get_next [OF this assms(3)]
  then show "\<exists>ps. carries st ps \<and> (map snd (delivered s) @ [p]) @ ps = requests s" by blast
  from next_packet(2) show "Src p \<in> fst ` set (received s)" by (force simp: requests_def cut_def)
qed

lemma next_answer:
  assumes "udp_path_ok s" "entry_open s" "stream_get (to_entry s) = Some (p, st)"
  shows "\<exists>ps. carries st ps \<and> (given_back s @ [p]) @ ps = answers s"
proof -
  from assms obtain ps where "carries (to_entry s) ps" "given_back s @ ps = answers s"
    by (auto simp: udp_path_ok_def answers_ok_def)
  from gob.get_next [OF this assms(3)] show ?thesis by blast
qed

lemmas path_parts = udp_path_ok_def requests_ok_def answers_ok_def counters_ok_def

lemma client_sends_ok:
  assumes ok: "udp_path_ok s" and read: "runInbound_round (ReadPacket a b) None opens None (listener s) = (Sent c p, u)"
    and p: "packet_ok p"
  shows "udp_path_ok (s\<lparr>listener := u, to_exit := stream_put p (to_exit s), received := received s @ [(a, b)]\<rparr>)"
    (is "udp_path_ok ?s")
proof -
  note read = inbound_sent [OF read]
  from ok obtain ps where ps: "carries (to_exit s) ps" "exit_open s \<longrightarrow> map snd (delivered s) @ ps = requests s"
    by (auto simp: path_parts)
  have req: "requests ?s = requests s @ [p]" "answers ?s = answers s" by (simp_all add: requests_def answers_def read)
  have "requests_ok ?s"
    using ok ps gob.put_last [OF ps(1) p] unfolding requests_ok_def req
    by (auto simp: path_parts intro!: exI [of _ "ps @ [p]"])
  moreover have "counters_ok ?s" using ok req read by (simp add: path_parts payload_bytes_def)
  moreover have "answers_ok ?s" using ok req(2) by (simp add: path_parts)
  moreover have "sockets_ok ?s" using ok by (auto simp: udp_path_ok_def sockets_ok_def)
  ultimately show ?thesis by (simp add: udp_path_ok_def)
qed

lemma exit_handles_ok:
  assumes ok: "udp_path_ok s" and opened: "exit_open s" "stream_get (to_exit s) = Some (p, st)"
    and w: "handleWrite (Some p) d w (table s) = (Written k b, t)"
  shows "udp_path_ok (s\<lparr>to_exit := st, table := t, waiting := starts_reader (Src p) (table s) t @ waiting s,
      dialled := dials (Src p) (table s) t @ dialled s, delivered := delivered s @ [(k, \<lparr>Src = Src p, Payload = b\<rparr>)]\<rparr>)"
    (is "udp_path_ok ?s")
proof -
  note req = next_request [OF ok opened] and written = handleWrite_written [OF w]
  have p: "\<lparr>Src = Src p, Payload = b\<rparr> = p" using written by (cases p) simp
  have "sockets_ok s" using ok by (simp add: udp_path_ok_def)
  note sockets = sockets_write [OF this w req(2)]
  have same: "requests ?s = requests s" "answers ?s = answers s"
    using sockets(2) by (simp_all add: requests_def answers_def)
  obtain ps where ps: "carries st ps" "(map snd (delivered s) @ [p]) @ ps = requests s" using req(1) by blast
  have "requests_ok ?s" unfolding requests_ok_def same using opened(1) by (simp add: p ps(1) ps(2) [symmetric])
  moreover have "sockets_ok ?s" using sockets(1,3) written by (simp add: sockets_ok_def)
  ultimately show ?thesis using ok same by (simp add: path_parts)
qed

lemma exit_fails_ok:
  assumes ok: "udp_path_ok s" and opened: "exit_open s" "stream_get (to_exit s) = Some (p, st)"
    and w: "handleWrite (Some p) d w (table s) = (res, t)"
  shows "udp_path_ok (s\<lparr>to_exit := st, table := udp_closeAll order t,
      waiting := starts_reader (Src p) (table s) t @ waiting s,
      dialled := dials (Src p) (table s) t @ dialled s, exit_open := False\<rparr>)" (is "udp_path_ok ?s")
proof -
  note req = next_request [OF ok opened]
  have "sockets_ok s" using ok by (simp add: udp_path_ok_def)
  note sockets = sockets_write [OF this w req(2)]
  have same: "requests ?s = requests s" "answers ?s = answers s"
    using sockets(2) by (simp_all add: requests_def answers_def)
  have "requests_ok ?s" using req(1) ok unfolding requests_ok_def same by (auto simp: path_parts)
  moreover have "sockets_ok (s\<lparr>table := t, waiting := starts_reader (Src p) (table s) t @ waiting s,
      dialled := dials (Src p) (table s) t @ dialled s,
      table := udp_closeAll order t, waiting := starts_reader (Src p) (table s) t @ waiting s\<rparr>)"
    by (rule sockets_table [OF sockets(1)]) (auto simp: closeAll_table(1) dest: closeAll_table(2))
  then have "sockets_ok ?s" by (simp add: sockets_ok_def)
  ultimately show ?thesis using ok same by (simp add: path_parts)
qed

lemma target_replies_ok:
  assumes ok: "udp_path_ok s" and waits: "(a, k) \<in> set (waiting s)"
    and read: "handleRead (exit_mtu s) a [(Some b, True)] = [p]" "packet_ok p"
  shows "udp_path_ok (s\<lparr>to_entry := stream_put p (to_entry s), replies := replies s @ [(k, b)]\<rparr>)" (is "udp_path_ok ?s")
proof -
  from ok obtain ps where ps: "carries (to_entry s) ps" "entry_open s \<longrightarrow> given_back s @ ps = answers s"
    by (auto simp: path_parts)
  have k: "(k, a) \<in> set (dialled s)" "distinct (map fst (dialled s))"
    using ok waits by (auto simp: udp_path_ok_def sockets_ok_def)
  then have "map_of (dialled s) k = Some a" by simp
  then have ans: "answers ?s = answers s @ [p]" using read(1) by (simp add: answers_def cut_def)
  have req: "requests ?s = requests s" by (simp add: requests_def)
  have "answers_ok ?s"
    using ok ps gob.put_last [OF ps(1) read(2)] unfolding answers_ok_def ans
    by (auto simp: path_parts intro!: exI [of _ "ps @ [p]"])
  moreover have "k \<in> fst ` set (dialled s)" using k(1) by force
  then have "sockets_ok ?s" using ok by (simp add: udp_path_ok_def sockets_ok_def)
  ultimately show ?thesis using ok req by (simp add: path_parts)
qed

lemma reader_stops_ok:
  assumes ok: "udp_path_ok s"
  shows "udp_path_ok (s\<lparr>table := reader_ends a (table s), waiting := remove1 (a, k) (waiting s)\<rparr>)" (is "udp_path_ok ?s")
proof -
  have "requests ?s = requests s" "answers ?s = answers s" by (simp_all add: requests_def answers_def)
  moreover have "sockets_ok s" using ok by (simp add: udp_path_ok_def)
  then have "sockets_ok ?s"
    by (rule sockets_table) (auto simp: reader_ends_table(1) dest: reader_ends_table(2) set_mp [OF set_remove1_subset])
  ultimately show ?thesis using ok by (simp add: path_parts)
qed

lemma entry_handles_ok:
  assumes ok: "udp_path_ok s" and opened: "entry_open s" "stream_get (to_entry s) = Some (p, st)"
    and round: "runOutbound_round None opens (Decoded p) resolves write_ok (listener s) = (res, u)"
  shows "res = Delivered q \<Longrightarrow> udp_path_ok (s\<lparr>listener := u, to_entry := st, given_back := given_back s @ [q]\<rparr>)"
    "res = LoopError e \<Longrightarrow> udp_path_ok (s\<lparr>listener := u, to_entry := st, entry_open := False\<rparr>)"
proof -
  note ans = next_answer [OF ok opened] and round = outbound_round [OF round]
  obtain ps where ps: "carries st ps" "(given_back s @ [p]) @ ps = answers s" using ans by blast
  have same: "requests (s\<lparr>listener := u\<rparr>) = requests s" by (simp add: requests_def round)
  show "udp_path_ok (s\<lparr>listener := u, to_entry := st, given_back := given_back s @ [q]\<rparr>)" (is "udp_path_ok ?s")
    if "res = Delivered q"
  proof -
    have ans: "answers ?s = answers s" "requests ?s = requests s" using same by (simp_all add: answers_def requests_def)
    have "answers_ok ?s" unfolding answers_ok_def ans using round(3) [OF that] opened(1) by (simp add: ps(1) ps(2) [symmetric])
    then show ?thesis
      using ok ans(2) round(2) round(3) [OF that] by (simp add: path_parts sockets_ok_def payload_bytes_def)
  qed
  show "udp_path_ok (s\<lparr>listener := u, to_entry := st, entry_open := False\<rparr>)" (is "udp_path_ok ?s") if "res = LoopError e"
  proof -
    have ans: "answers ?s = answers s" "requests ?s = requests s" using same by (simp_all add: answers_def requests_def)
    have "answers_ok ?s" unfolding answers_ok_def ans using ps(1) ok by (auto simp: path_parts)
    then show ?thesis
      using ok ans(2) round(2) round(4) [OF that] by (simp add: path_parts sockets_ok_def)
  qed
qed

lemma fresh_path_ok: "fresh_path s \<Longrightarrow> udp_path_ok s"
  using new_stream_carries
  by (fastforce simp: fresh_path_def udp_path_ok_def requests_ok_def answers_ok_def sockets_ok_def counters_ok_def
      requests_def answers_def payload_bytes_def no_conns_def)

lemma udp_path_step_ok:
  assumes "udp_path_ok s" "udp_path_step s e s'"
  shows "udp_path_ok s'"
  using assms(2,1)
proof (induction rule: udp_path_step.induct)
  case client_sends
  then show ?case by (intro client_sends_ok)
next
  case exit_handles
  then show ?case by (intro exit_handles_ok)
next
  case exit_fails
  then show ?case by (intro exit_fails_ok)
next
  case target_replies
  then show ?case by (intro target_replies_ok)
next
  case reader_stops
  then show ?case by (intro reader_stops_ok)
next
  case (entry_handles s p st resolves write_ok q u)
  from entry_handles_ok(1) [OF entry_handles(4,1,2,3) refl] show ?case .
next
  case (entry_fails s p st resolves write_ok e u)
  from entry_handles_ok(2) [OF entry_fails(4,1,2,3) refl] show ?case .
qed

interpretation udp: invariant_stepping fresh_path udp_path_step udp_path_reachable udp_path_ok
proof unfold_locales
  show "P s" if "udp_path_reachable s" "\<And>s. fresh_path s \<Longrightarrow> P s"
    "\<And>s e s'. udp_path_reachable s \<Longrightarrow> P s \<Longrightarrow> udp_path_step s e s' \<Longrightarrow> P s'" for s P
    using that by (induction rule: udp_path_reachable.induct) blast+
qed (auto intro: udp_path_reachable.step fresh_path_ok udp_path_step_ok)

text \<open>
  C35: a udp remote neither alters, reorders nor invents datagrams, and mixes up no two sources, during
  the life of one channel on which the entry's encoder does not fail.
  At every moment of every interleaving, what was written to the target is the beginning of what
  was read at the entry, each datagram cut to the largest size and written to a socket dialled
  for its own source alone, which had sent something before. What was given back at
  the entry is the beginning of what was read from those sockets, cut to the exit's largest size and
  given to the source of its socket. The listener's counters are the bytes taken in and given back.
\<close>

theorem udp_datagrams:
  assumes "udp_path_reachable s"
  shows "prefix (map snd (delivered s)) (map (\<lambda>(a, b). \<lparr>Src = a, Payload = take (nat (maxMTU (listener s))) b\<rparr>) (received s)) \<and>
    prefix (given_back s)
      (map (\<lambda>(k, b). \<lparr>Src = the (map_of (dialled s) k), Payload = take (exit_mtu s) b\<rparr>) (replies s)) \<and>
    (\<forall>(k, p) \<in> set (delivered s). map_of (dialled s) k = Some (Src p)) \<and>
    (\<forall>(k, b) \<in> set (replies s). \<exists>a. map_of (dialled s) k = Some a \<and> a \<in> fst ` set (received s)) \<and>
    udp_sent (listener s) = (\<Sum>d\<leftarrow>received s. int (min (length (snd d)) (nat (maxMTU (listener s))))) \<and>
    udp_recv (listener s) = (\<Sum>p\<leftarrow>given_back s. int (length (Payload p)))"
proof -
  have ok: "requests_ok s" "answers_ok s" "sockets_ok s" "counters_ok s"
    using udp.reach_inv [OF assms] by (simp_all add: udp_path_ok_def)
  have distinct: "distinct (map fst (dialled s))" using ok(3) by (simp add: sockets_ok_def)
  have "\<exists>a. map_of (dialled s) k = Some a \<and> a \<in> fst ` set (received s)" if "(k, b) \<in> set (replies s)" for k b
  proof -
    from ok(3) that obtain a where "(k, a) \<in> set (dialled s)" by (auto simp: sockets_ok_def)
    moreover from this ok(3) have "a \<in> fst ` set (received s)" by (auto simp: sockets_ok_def)
    ultimately show ?thesis using distinct by auto
  qed
  moreover have "map_of (dialled s) k = Some (Src p)" if "(k, p) \<in> set (delivered s)" for k p
    using ok(3) that distinct by (auto simp: sockets_ok_def)
  moreover have "payload_bytes (requests s) = (\<Sum>d\<leftarrow>received s. int (min (length (snd d)) (nat (maxMTU (listener s)))))"
    by (simp add: payload_bytes_def requests_def cut_def comp_def case_prod_beta)
  ultimately show ?thesis
    using ok by (auto simp: requests_ok_def answers_ok_def counters_ok_def requests_def answers_def cut_def payload_bytes_def)
qed

text \<open>A query and its reply.\<close>

definition first_path :: udp_path where
  "first_path = \<lparr>listener = \<lparr>udp_remote = empty_remote False, udp_inbound = '':53'', maxMTU = 9012, outbound = Some 0,
       udp_sent = 0, udp_recv = 0\<rparr>,
     to_exit = new_stream 65, to_entry = new_stream 65, table = no_conns, exit_mtu = 9012, waiting = [], exit_open = True,
     entry_open = True, received = [], dialled = [], delivered = [], replies = [], given_back = []\<rparr>"

lemma stream_one:
  assumes "packet_ok p"
  obtains st where "stream_get (stream_put p (new_stream 65)) = Some (p, st)"
proof -
  have "carries (new_stream 65) []" by (rule new_stream_carries) simp_all
  from gob.put_last [OF this assms] gob.get_first that show ?thesis by fastforce
qed

lemma query_run:
  obtains s where "udp_path_reachable s" "received s = [(''10.0.0.1:53'', ''query'')]"
    "given_back s = [\<lparr>Src = ''10.0.0.1:53'', Payload = ''reply''\<rparr>]" "dialled s = [(0, ''10.0.0.1:53'')]"
    "maxMTU (listener s) = 9012"
proof -
  let ?a = "''10.0.0.1:53''" and ?p = "\<lparr>Src = ''10.0.0.1:53'', Payload = ''query''\<rparr>"
    and ?q = "\<lparr>Src = ''10.0.0.1:53'', Payload = ''reply''\<rparr>"
  have packets: "packet_ok ?p" "packet_ok ?q" by (simp_all add: packet_ok_def)
  obtain st1 where st1: "stream_get (stream_put ?p (new_stream 65)) = Some (?p, st1)" by (rule stream_one [OF packets(1)])
  obtain st2 where st2: "stream_get (stream_put ?q (new_stream 65)) = Some (?q, st2)" by (rule stream_one [OF packets(2)])
  have "fresh_path first_path"
    unfolding fresh_path_def first_path_def by (intro conjI exI [of _ 65]) simp_all
  note reach0 = udp_path_reachable.start [OF this]
  obtain u1 where u1: "runInbound_round (ReadPacket ?a ''query'') None (\<lambda>_ _. None) None (listener first_path) = (Sent 0 ?p, u1)"
      "maxMTU u1 = 9012" "outbound u1 = Some 0"
    by (simp add: runInbound_round_def runInbound_once_def getUDPChan_def first_path_def)
  note reach1 = udp_path_reachable.step [OF reach0 udp_path_step.client_sends [OF u1(1) packets(1)]]
  define s1 where "s1 = first_path\<lparr>listener := u1, to_exit := stream_put ?p (to_exit first_path), received := received first_path @ [(?a, ''query'')]\<rparr>"
  have one: "fcard {|?a|} = 1" by (simp add: fcard.rep_eq)
  obtain t where t: "handleWrite (Some ?p) True True (table s1) = (Written 0 ''query'', t)"
      "starts_reader ?a (table s1) t = [(?a, 0)]" "dials ?a (table s1) t = [(0, ?a)]"
    by (simp add: handleWrite_def udp_dial_def no_conns_def first_path_def s1_def udp_len_def maxConns_def
        starts_reader_def dials_def one)
  have get1: "exit_open s1" "stream_get (to_exit s1) = Some (?p, st1)" using st1 by (simp_all add: s1_def first_path_def)
  note reach2 = udp_path_reachable.step [OF reach1 [folded s1_def] udp_path_step.exit_handles [OF get1 t(1)]]
  define s2 where "s2 = s1\<lparr>to_exit := st1, table := t, waiting := starts_reader (Src ?p) (table s1) t @ waiting s1,
    dialled := dials (Src ?p) (table s1) t @ dialled s1, delivered := delivered s1 @ [(0, \<lparr>Src = Src ?p, Payload = ''query''\<rparr>)]\<rparr>"
  have "waiting s2 = [(?a, 0)]" "dialled s2 = [(0, ?a)]" unfolding s2_def using t(2,3) by (simp_all add: s1_def first_path_def)
  then have s2: "udp_path_reachable s2" "waiting s2 = [(?a, 0)]" "dialled s2 = [(0, ?a)]"
      "to_entry s2 = new_stream 65" "entry_open s2" "listener s2 = u1" "exit_mtu s2 = 9012" "received s2 = [(?a, ''query'')]"
      "replies s2 = []" "given_back s2 = []"
    using reach2 by (simp_all only: s2_def [symmetric]) (simp_all add: s2_def s1_def first_path_def)
  have "(?a, 0) \<in> set (waiting s2)" "handleRead (exit_mtu s2) ?a [(Some ''reply'', True)] = [?q]" using s2 by simp_all
  note reach3 = udp_path_reachable.step [OF s2(1) udp_path_step.target_replies [OF this packets(2)]]
  define s3 where "s3 = s2\<lparr>to_entry := stream_put ?q (to_entry s2), replies := replies s2 @ [(0, ''reply'')]\<rparr>"
  obtain u3 where u3: "runOutbound_round None (\<lambda>_ _. None) (Decoded ?q) (\<lambda>_. True) True (listener s3) = (Delivered ?q, u3)"
      "maxMTU u3 = 9012"
    using u1 by (simp add: runOutbound_round_def runOutbound_once_def getUDPChan_def s3_def s2)
  have get3: "entry_open s3" "stream_get (to_entry s3) = Some (?q, st2)" using st2 by (simp_all add: s3_def s2)
  note reach4 = udp_path_reachable.step [OF reach3 [folded s3_def] udp_path_step.entry_handles [OF get3 u3(1)]]
  define s4 where "s4 = s3\<lparr>listener := u3, to_entry := st2, given_back := given_back s3 @ [?q]\<rparr>"
  have s4: "udp_path_reachable s4" "received s4 = [(?a, ''query'')]" "given_back s4 = [?q]" "listener s4 = u3"
      "dialled s4 = [(0, ?a)]"
    using reach4 by (simp_all only: s4_def [symmetric]) (simp_all add: s4_def s3_def s2)
  then show ?thesis using u3(2) by (intro that [of s4]) simp_all
qed

theorem udp_datagrams_witness:
  "\<exists>s. udp_path_reachable s \<and> received s = [(''10.0.0.1:53'', ''query'')] \<and> given_back s = [\<lparr>Src = ''10.0.0.1:53'', Payload = ''reply''\<rparr>] \<and>
    map_of (dialled s) 0 = Some ''10.0.0.1:53'' \<and> udp_sent (listener s) = 5 \<and> udp_recv (listener s) = 5"
proof -
  obtain s where s: "udp_path_reachable s" "received s = [(''10.0.0.1:53'', ''query'')]"
    "given_back s = [\<lparr>Src = ''10.0.0.1:53'', Payload = ''reply''\<rparr>]" "dialled s = [(0, ''10.0.0.1:53'')]"
    "maxMTU (listener s) = 9012"
    by (rule query_run)
  with udp_datagrams [OF s(1)] show ?thesis by (intro exI [of _ s]) simp
qed

end
