(* ===== verification/Client_Run.thy ===== *)
theory Client_Run
  imports Serving Tunnel_System
begin

section \<open>A running client\<close>

text \<open>
  Models \<open>Start\<close>, \<open>Run\<close>, \<open>Wait\<close> and \<open>Close\<close> of client/client.go, the waiting of
  \<open>BindRemotes\<close> in share/tunnel/tunnel.go and the end of client-main/main.go: what the
  goroutines of a client return, in the order they return, and what that makes of the client
  and its process. The group of goroutines is a parameter with the law of the prelude.
\<close>

subsection \<open>Starting and stopping\<close>

text \<open>\<open>started\<close> says whether \<open>stop\<close> is set, \<open>cancelled\<close> whether the context it cancels is done.\<close>

record running_client =
  run_client :: Client
  started :: bool
  cancelled :: bool

definition not_started :: "Client \<Rightarrow> running_client" where
  "not_started cl = \<lparr>run_client = cl, started = False, cancelled = False\<rparr>"

definition Client_Start :: "running_client \<Rightarrow> client_error option \<times> running_client" where
  "Client_Start rc = (None, rc\<lparr>started := True, cancelled := False\<rparr>)"

definition Client_Close :: "running_client \<Rightarrow> running_client" where
  "Client_Close rc = (if started rc then rc\<lparr>cancelled := True\<rparr> else rc)"

text \<open>What the connection loop returns once it has ended (none while it runs), and what it leaves.\<close>

definition loop_returns :: "loop_end \<Rightarrow> 'e option option" where
  "loop_returns e = (case e of Running \<Rightarrow> None | GaveUp \<Rightarrow> Some None | LoopCancelled \<Rightarrow> Some None)"

definition loop_leaves :: "loop_end \<Rightarrow> running_client \<Rightarrow> running_client" where
  "loop_leaves e rc = (if e = GaveUp then Client_Close rc else rc)"

subsection \<open>The end of the client\<close>

datatype client_end =
    BindFailed bind_error
  | ProxyEnded string

text \<open>
  The goroutine that binds the remotes: \<open>results\<close> are what the runs of the proxies have
  returned, in that order.
\<close>

definition BindRemotes_returns ::
  "(string option list \<Rightarrow> string option) \<Rightarrow> bind_error option \<Rightarrow> string option list \<Rightarrow> client_end option" where
  "BindRemotes_returns wait e results =
     (case e of Some e \<Rightarrow> Some (BindFailed e) | None \<Rightarrow> map_option ProxyEnded (wait results))"

definition bind_returns ::
  "(string option list \<Rightarrow> string option) \<Rightarrow> (string \<Rightarrow> string \<Rightarrow> bool) \<Rightarrow> Client \<Rightarrow> 'conn Tunnel \<Rightarrow>
   string option list \<Rightarrow> client_end option" where
  "bind_returns wait listen cl t results =
     (if length (Reversed False (computed_remotes cl)) = 0 then None
      else BindRemotes_returns wait (fst (client_inbound listen cl t)) results)"

text \<open>
  \<open>Wait\<close>: none while a goroutine runs; \<open>loop_first\<close> says which of the two returned first. Then
  \<open>main\<close> ends the process with a status.
\<close>

definition Client_Wait ::
  "(client_end option list \<Rightarrow> client_end option) \<Rightarrow> loop_end \<Rightarrow> client_end option option \<Rightarrow> bool \<Rightarrow>
   client_end option option" where
  "Client_Wait wait e bind loop_first =
     (case (loop_returns e, bind) of
        (Some l, Some b) \<Rightarrow> Some (wait (if loop_first then [l, b] else [b, l]))
      | _ \<Rightarrow> None)"

definition Client_Run ::
  "(client_end option list \<Rightarrow> client_end option) \<Rightarrow> loop_end \<Rightarrow> client_end option option \<Rightarrow> bool \<Rightarrow>
   running_client \<Rightarrow> (client_error + client_end) option option" where
  "Client_Run wait e bind loop_first rc =
     (case Client_Start rc of
        (Some err, _) \<Rightarrow> Some (Some (Inl err))
      | (None, _) \<Rightarrow> map_option (map_option Inr) (Client_Wait wait e bind loop_first))"

definition client_exit :: "client_end option \<Rightarrow> nat" where
  "client_exit e = (case e of None \<Rightarrow> 0 | Some _ \<Rightarrow> 1)"

subsection \<open>What ends a client with an error\<close>

lemma Client_Wait_eq:
  "errgroup_law wait \<Longrightarrow> Client_Wait wait e bind loop_first = (if e = Running then None else bind)"
  by (cases e; cases bind) (auto simp: Client_Wait_def loop_returns_def errgroup_law_def first_error_def)

text \<open>
  Only the remotes it listens for can end a client with an error. Waiting for the client
  ends when the connection loop and the remotes have; the result is exactly what binding
  the remotes returned, whichever ended first. So a client that gives up after its last
  attempt, or one without forward remotes, ends the process with status 0, and a client that
  was never connected is not told from one that was closed.
\<close>

lemma client_ends_by_remotes:
  assumes "errgroup_law gwait"
  shows "Client_Run gwait e bind loop_first rc =
      (if e = Running then None else map_option (map_option Inr) bind) \<and>
    (Reversed False (computed_remotes cl) = [] \<and> e = GaveUp \<longrightarrow>
       (\<exists>x. Client_Wait gwait e (Some (bind_returns wait listen cl t results)) loop_first = Some x \<and> client_exit x = 0))"
  using Client_Wait_eq [OF assms]
  by (simp add: Client_Run_def Client_Start_def bind_returns_def client_exit_def)

theorem client_ends_by_remotes_witness:
  "\<exists>cl x. sample_new [''R:30000:127.0.0.1:80''] = Inr cl \<and>
    Client_Wait first_error GaveUp (Some (bind_returns first_error (\<lambda>_ _. True) cl (New (client_tunnel cl) :: nat Tunnel) [])) True
      = Some x \<and> client_exit x = 0"
proof -
  obtain cl where cl: "sample_new [''R:30000:127.0.0.1:80''] = Inr cl" "computed_remotes cl = [web_remote]"
    using sample_new_remotes [of "[''R:30000:127.0.0.1:80'']" "[web_remote]"] decode_web
    by (auto simp: web_remote_def plain_remote_def CanListen_def)
  have "Reversed False (computed_remotes cl) = []" by (simp add: cl(2) web_remote_def plain_remote_def)
  moreover have "errgroup_law (first_error :: client_end option list \<Rightarrow> client_end option)"
    by (simp add: errgroup_law_def)
  note client_ends_by_remotes [OF this]
  ultimately show ?thesis using cl(1) by blast
qed

subsection \<open>A sample\<close>

lemma sample_new_tunnel:
  assumes "sample_new specs = Inr cl"
  shows "client_tunnel cl = \<lparr>cfg_Inbound = True, cfg_Outbound = (\<exists>r\<in>set (computed_remotes cl). Reverse r),
    cfg_Socks = ((\<exists>r\<in>set (computed_remotes cl). Reverse r) \<and> (\<exists>r\<in>set (computed_remotes cl). Socks r)),
    cfg_KeepAlive = 25 * second\<rparr>"
proof -
  have "cfg_Inbound (client_tunnel cl)" "cfg_KeepAlive (client_tunnel cl) = 25 * second"
    using assms unfolding sample_new_def NewClient_def Let_def sample_client_config_def
    by (auto split: option.split_asm sum.split_asm prod.split_asm)
  with NewClient_facts [OF assms [unfolded sample_new_def]] show ?thesis by (cases "client_tunnel cl") simp
qed

end
