(* ===== verification/Go_Flag.thy ===== *)
theory Go_Flag
  imports Go_Strings
begin

section \<open>The flag package\<close>

text \<open>
  What the two commands use of Go's standard package flag: parsing a command line into
  assignments to the flags defined. Nothing in this theory models a line of the program.
\<close>

text \<open>
  A flag of a set that fills a state: whether it is a flag that needs no value, and what
  setting it to a text does, none if it refuses the text.
\<close>

record 's flag =
  is_bool :: bool
  set_value :: "string \<Rightarrow> 's \<Rightarrow> 's option"

subsection \<open>One argument\<close>

datatype flag_arg =
    NotFlag
  | Terminator
  | BadFlag
  | FlagArg string "string option"

definition not_equals :: "char \<Rightarrow> bool" where
  "not_equals c \<longleftrightarrow> c \<noteq> CHR ''=''"

definition flag_arg :: "string \<Rightarrow> flag_arg" where
  "flag_arg a =
     (if length a < 2 \<or> hd a \<noteq> CHR ''-'' then NotFlag
      else if a = ''--'' then Terminator
      else
        (let name = (if a ! 1 = CHR ''-'' then drop 2 a else drop 1 a) in
         if name = '''' \<or> hd name = CHR ''-'' \<or> hd name = CHR ''='' then BadFlag
         else
           (let rest = dropWhile not_equals name in
            FlagArg (takeWhile not_equals name) (if rest = [] then None else Some (tl rest)))))"

subsection \<open>A command line\<close>

text \<open>
  Parsing stops with an error, for which the set's usage function is called, or gives the
  state and the arguments that are left.
\<close>

datatype flag_stop =
    HelpRequested
  | BadSyntax string
  | NotDefined string
  | InvalidValue string string
  | NeedsArgument string

fun parse_flags :: "(string \<Rightarrow> 's flag option) \<Rightarrow> string list \<Rightarrow> 's \<Rightarrow> flag_stop + ('s \<times> string list)" where
  "parse_flags formal [] s = Inr (s, [])"
| "parse_flags formal (a # args) s =
     (case flag_arg a of
        NotFlag \<Rightarrow> Inr (s, a # args)
      | Terminator \<Rightarrow> Inr (s, args)
      | BadFlag \<Rightarrow> Inl (BadSyntax a)
      | FlagArg name value \<Rightarrow>
          (case formal name of
             None \<Rightarrow> Inl (if name = ''help'' \<or> name = ''h'' then HelpRequested else NotDefined name)
           | Some f \<Rightarrow>
               (if is_bool f then
                  (let v = (case value of None \<Rightarrow> ''true'' | Some v \<Rightarrow> v) in
                   case set_value f v s of
                     None \<Rightarrow> Inl (InvalidValue name v)
                   | Some s \<Rightarrow> parse_flags formal args s)
                else
                  (case value of
                     Some v \<Rightarrow>
                       (case set_value f v s of
                          None \<Rightarrow> Inl (InvalidValue name v)
                        | Some s \<Rightarrow> parse_flags formal args s)
                   | None \<Rightarrow>
                       (case args of
                          [] \<Rightarrow> Inl (NeedsArgument name)
                        | v # args \<Rightarrow>
                            (case set_value f v s of
                               None \<Rightarrow> Inl (InvalidValue name v)
                             | Some s \<Rightarrow> parse_flags formal args s))))))"

subsection \<open>The kinds of flags\<close>

definition string_flag :: "(string \<Rightarrow> 's \<Rightarrow> 's) \<Rightarrow> 's flag" where
  "string_flag f = \<lparr>is_bool = False, set_value = (\<lambda>v s. Some (f v s))\<rparr>"

definition ParseBool :: "string \<Rightarrow> bool option" where
  "ParseBool v =
     (if v \<in> {''1'', ''t'', ''T'', ''TRUE'', ''true'', ''True''} then Some True
      else if v \<in> {''0'', ''f'', ''F'', ''FALSE'', ''false'', ''False''} then Some False
      else None)"

definition bool_flag :: "(bool \<Rightarrow> 's \<Rightarrow> 's) \<Rightarrow> 's flag" where
  "bool_flag f = \<lparr>is_bool = True, set_value = (\<lambda>v s. map_option (\<lambda>b. f b s) (ParseBool v))\<rparr>"

text \<open>Numbers and durations: \<open>parse\<close> reads the text.\<close>

definition parsed_flag :: "(string \<Rightarrow> 'v option) \<Rightarrow> ('v \<Rightarrow> 's \<Rightarrow> 's) \<Rightarrow> 's flag" where
  "parsed_flag parse f = \<lparr>is_bool = False, set_value = (\<lambda>v s. map_option (\<lambda>x. f x s) (parse v))\<rparr>"

lemmas flag_kinds = string_flag_def bool_flag_def parsed_flag_def

subsection \<open>Parsing what is given\<close>

text \<open>An assignment on the command line, in one argument or, unless it is a bool's, in two.\<close>

datatype flag_given = Joined string string | Separate string string | Switch string

fun render_flag :: "flag_given \<Rightarrow> string list" where
  "render_flag (Joined name v) = [''--'' @ name @ ''='' @ v]"
| "render_flag (Separate name v) = [''--'' @ name, v]"
| "render_flag (Switch name) = [''--'' @ name]"

definition flag_name_ok :: "string \<Rightarrow> bool" where
  "flag_name_ok name \<longleftrightarrow> name \<noteq> '''' \<and> hd name \<noteq> CHR ''-'' \<and> list_all not_equals name"

text \<open>What an assignment does to the state; none if the flag is not defined or refuses it.\<close>

fun assign_flag :: "(string \<Rightarrow> 's flag option) \<Rightarrow> flag_given \<Rightarrow> 's \<Rightarrow> 's option" where
  "assign_flag formal (Joined name v) s =
     (if flag_name_ok name then Option.bind (formal name) (\<lambda>f. set_value f v s) else None)"
| "assign_flag formal (Separate name v) s =
     (if flag_name_ok name then Option.bind (formal name) (\<lambda>f. if is_bool f then None else set_value f v s) else None)"
| "assign_flag formal (Switch name) s =
     (if flag_name_ok name then Option.bind (formal name) (\<lambda>f. if is_bool f then set_value f ''true'' s else None) else None)"

fun assign_flags :: "(string \<Rightarrow> 's flag option) \<Rightarrow> flag_given list \<Rightarrow> 's \<Rightarrow> 's option" where
  "assign_flags formal [] s = Some s"
| "assign_flags formal (g # gs) s = Option.bind (assign_flag formal g s) (assign_flags formal gs)"

lemma takeWhile_name: "list_all not_equals name \<Longrightarrow> takeWhile not_equals (name @ CHR ''='' # v) = name"
  by (induction name) (auto simp: not_equals_def)

lemma dropWhile_name: "list_all not_equals name \<Longrightarrow> dropWhile not_equals (name @ CHR ''='' # v) = CHR ''='' # v"
  by (induction name) (auto simp: not_equals_def)

lemma flag_arg_render:
  assumes "flag_name_ok name"
  shows "flag_arg (CHR ''-'' # CHR ''-'' # name @ CHR ''='' # v) = FlagArg name (Some v)" "flag_arg (CHR ''-'' # CHR ''-'' # name) = FlagArg name None"
proof -
  obtain c cs where name: "name = c # cs" "c \<noteq> CHR ''-''" "not_equals c" "list_all not_equals cs"
    using assms by (cases name) (auto simp: flag_name_ok_def)
  then have "list_all not_equals name" by simp
  with name takeWhile_name [of name v] dropWhile_name [of name v]
  show "flag_arg (CHR ''-'' # CHR ''-'' # name @ CHR ''='' # v) = FlagArg name (Some v)" "flag_arg (CHR ''-'' # CHR ''-'' # name) = FlagArg name None"
    by (auto simp: flag_arg_def not_equals_def takeWhile_eq_all_conv dropWhile_eq_Nil_conv list_all_iff)
qed

lemma parse_assigned:
  "assign_flags formal gs s = Some s' \<Longrightarrow> parse_flags formal (concat (map render_flag gs) @ rest) s = parse_flags formal rest s'"
proof (induction gs arbitrary: s)
  case (Cons g gs)
  then obtain s1 where g: "assign_flag formal g s = Some s1" and rest: "assign_flags formal gs s1 = Some s'"
    by (cases "assign_flag formal g s") auto
  have "parse_flags formal (render_flag g @ args) s = parse_flags formal args s1" for args
    using g by (cases g) (auto simp: flag_arg_render bind_eq_Some_conv split: if_splits)
  with Cons.IH [OF rest] show ?case by simp
qed simp

end
