(* ===== verification/Client_Main.thy ===== *)
theory Client_Main
  imports Client_Run Client_Setup Json_Files Go_Flag
begin

section \<open>The client's command line\<close>

text \<open>
  Models \<open>main\<close> of client-main/main.go, from the command line to the process's end: the flags
  defined and their defaults, the configuration given to \<open>NewClient\<close>, the pid file, and the
  statuses. Flags are texts, as in Client_Setup; how numbers and durations are read, the
  contents of the files, URLs, certificates and the network are parameters.
\<close>

subsection \<open>Flags\<close>

definition client_defaults :: flags where
  "client_defaults = map_of
     (map (\<lambda>name. (name, ('''', '''')))
        [''fingerprint'', ''auth'', ''proxy'', ''tls-ca'', ''tls-cert'', ''tls-key'', ''server'', ''hostname'', ''sni'',
         ''client-id'', ''app-name'', ''user-id''] @
      map (\<lambda>name. (name, (''false'', ''false''))) [''tls-skip-verify'', ''pid'', ''v''] @
      [(''keepalive'', (''25s'', ''25s'')), (''max-retry-count'', (''-1'', ''-1'')),
       (''max-retry-interval'', (''0s'', ''0s''))])"

definition client_bool_flags :: "string list" where
  "client_bool_flags = [''tls-skip-verify'', ''pid'', ''v'']"

text \<open>The flag \<open>header\<close> sets the header map; the others get the text \<open>set_flag\<close> gives.\<close>

definition client_formal ::
  "(string \<Rightarrow> string \<Rightarrow> string option) \<Rightarrow> string \<Rightarrow> (flags \<times> headers) flag option" where
  "client_formal set_flag name =
     (if name = ''header'' then
        Some \<lparr>is_bool = False, set_value = (\<lambda>v (fs, h). map_option (Pair fs) (headerFlags_Set v h))\<rparr>
      else if client_defaults name = None then None
      else Some \<lparr>is_bool = name \<in> set client_bool_flags,
        set_value = (\<lambda>v (fs, h). map_option (\<lambda>t. (flag_assign name t fs, h)) (set_flag name v))\<rparr>)"

subsection \<open>The configuration\<close>

definition client_config_of :: "(string \<Rightarrow> int) \<Rightarrow> (string \<Rightarrow> time) \<Rightarrow> client_setup \<Rightarrow> ClientConfig" where
  "client_config_of int_of duration_of st =
     (let fs = setup_flags st in
      \<lparr>Fingerprint = flag_value ''fingerprint'' fs, ClientAuth = setup_Auth st,
       ClientKeepAlive = duration_of (flag_value ''keepalive'' fs),
       MaxRetryCount = int_of (flag_value ''max-retry-count'' fs),
       MaxRetryInterval = duration_of (flag_value ''max-retry-interval'' fs),
       ServerAddr = flag_value ''server'' fs, ClientProxy = flag_value ''proxy'' fs, RemoteSpecs = setup_Remotes st,
       TLS = \<lparr>SkipVerify = (flag_value ''tls-skip-verify'' fs = ''true''), TLS_CA = flag_value ''tls-ca'' fs,
         TLS_Cert = flag_value ''tls-cert'' fs, TLS_Key = flag_value ''tls-key'' fs, ServerName = setup_ServerName st\<rparr>\<rparr>)"

subsection \<open>The process\<close>

datatype client_process =
    ClientUsageShown
  | ClientFatal client_fatal
  | ClientRefused client_error
  | ClientPidFailed
  | ClientRuns client_setup Client

text \<open>The files under the user's directory \<open>.costrict\<close>; \<open>join\<close> is filepath.Join.\<close>

definition GetCostrictDir :: "(string \<Rightarrow> string \<Rightarrow> string) \<Rightarrow> string \<Rightarrow> string" where
  "GetCostrictDir join home = join home ''.costrict''"

text \<open>\<open>cw_visit\<close> is the order in which the maps of the options file are visited.\<close>

record client_world =
  cw_getenv :: "string \<Rightarrow> string"
  cw_set_flag :: "string \<Rightarrow> string \<Rightarrow> string option"
  cw_int :: "string \<Rightarrow> int"
  cw_duration :: "string \<Rightarrow> time"
  cw_join :: "string \<Rightarrow> string \<Rightarrow> string"
  cw_home :: string
  cw_read_file :: "string \<Rightarrow> bytes option"
  cw_visit :: "(string \<times> string) list \<Rightarrow> (string \<times> string) list"
  cw_url_parse :: "string \<Rightarrow> GoURL option"
  cw_certs_ok :: "bytes \<Rightarrow> bool"
  cw_load_pair :: "string \<Rightarrow> string \<Rightarrow> bool"
  cw_bind :: "string \<Rightarrow> string \<Rightarrow> bool"
  cw_write_file :: "string \<Rightarrow> bytes \<Rightarrow> bool"
  cw_pid :: int

definition loadAuth :: "client_world \<Rightarrow> AuthConfig option" where
  "loadAuth w = load_json (cw_read_file w) decode_auth
     (cw_join w (cw_join w (GetCostrictDir (cw_join w) (cw_home w)) ''share'') ''auth.json'')"

definition loadOptions :: "client_world \<Rightarrow> OptionsConfig option" where
  "loadOptions w = load_json (cw_read_file w) (decode_options (cw_visit w))
     (cw_join w (cw_join w (GetCostrictDir (cw_join w) (cw_home w)) ''config'') ''cotun-options.json'')"

text \<open>The pid file in the current directory; failing to write it is fatal.\<close>

definition generatePidFile :: "(string \<Rightarrow> bytes \<Rightarrow> bool) \<Rightarrow> int \<Rightarrow> bool" where
  "generatePidFile write_file pid = write_file ''cotun.pid'' (show_int pid)"

definition cotun :: "client_world \<Rightarrow> string list \<Rightarrow> client_process" where
  "cotun w args =
     (case parse_flags (client_formal (cw_set_flag w)) args (client_defaults, []) of
        Inl _ \<Rightarrow> ClientUsageShown
      | Inr ((fs, h), rest) \<Rightarrow>
          (case client_main (cw_set_flag w) (cw_getenv w) (loadAuth w) (loadOptions w) fs h rest of
             Inl e \<Rightarrow> ClientFatal e
           | Inr st \<Rightarrow>
               (case NewClient (cw_url_parse w) (cw_read_file w) (cw_certs_ok w) (cw_load_pair w) (cw_bind w)
                       (client_config_of (cw_int w) (cw_duration w) st) of
                  Inl e \<Rightarrow> ClientRefused e
                | Inr cl \<Rightarrow>
                    (if flag_value ''pid'' (setup_flags st) = ''true'' \<and> \<not> generatePidFile (cw_write_file w) (cw_pid w)
                     then ClientPidFailed
                     else ClientRuns st cl))))"

text \<open>The status; \<open>ended\<close> is what waiting for the client gives.\<close>

definition cotun_exit :: "client_end option \<Rightarrow> client_process \<Rightarrow> nat" where
  "cotun_exit ended p =
     (case p of
        ClientUsageShown \<Rightarrow> 0
      | ClientRuns _ _ \<Rightarrow> client_exit ended
      | _ \<Rightarrow> 1)"

subsection \<open>The identity a client announces\<close>

text \<open>A header as the server's handler reads it.\<close>

definition Header_Get :: "headers \<Rightarrow> string \<Rightarrow> string" where
  "Header_Get h k = (case map_of h (canonical_key k) of None \<Rightarrow> '''' | Some v \<Rightarrow> v)"

lemma client_main_identity:
  assumes "client_main set_flag getenv auths opts fs h args = Inr st"
    and "flag_value ''client-id'' (setup_flags st) \<noteq> ''''" "flag_value ''app-name'' (setup_flags st) \<noteq> ''''"
      "flag_value ''user-id'' (setup_flags st) \<noteq> ''''"
  shows "Header_Get (setup_headers st) ''X-Client-Id'' = flag_value ''client-id'' (setup_flags st)"
    "Header_Get (setup_headers st) ''X-App-Name'' = flag_value ''app-name'' (setup_flags st)"
    "Header_Get (setup_headers st) ''X-User-Id'' = flag_value ''user-id'' (setup_flags st)"
proof -
  have keys: "canonical_key ''X-Client-Id'' = ''X-Client-Id''" "canonical_key ''X-User-Id'' = ''X-User-Id''"
    "canonical_key ''X-App-Name'' = ''X-App-Name''" by code_simp+
  obtain fs h1 where fs: "setup_flags st = fs" and
    "setup_headers st = set_if ''X-User-Id'' (flag_value ''user-id'' fs) (set_if ''X-App-Name'' (flag_value ''app-name'' fs)
      (set_if ''X-Client-Id'' (flag_value ''client-id'' fs) h1))"
    using assms(1) by (auto simp: client_main_def Let_def split: option.split_asm if_split_asm)
  then show "Header_Get (setup_headers st) ''X-Client-Id'' = flag_value ''client-id'' (setup_flags st)"
    "Header_Get (setup_headers st) ''X-App-Name'' = flag_value ''app-name'' (setup_flags st)"
    "Header_Get (setup_headers st) ''X-User-Id'' = flag_value ''user-id'' (setup_flags st)"
    using assms(2-4) unfolding fs by (simp_all add: set_if_def Header_Get_def keys)
qed

lemma OnConnected_key:
  assumes "OnConnected now v cp mp pa = (Inr b, pa')" "ClientId v \<noteq> ''''" "UserId v \<noteq> ''''" "AppName v \<noteq> ''''"
  shows "names pa' (alloc_key (ClientId v) (UserId v) (AppName v)) = Some b"
  using assms by (auto simp: OnConnected_def applyNew_def Let_def case_prod_beta split: option.split_asm if_split_asm)

text \<open>
  C24: the identity given on the command line is the one under which the client's port is
  found. If a client with the options for client, application and user is accepted with a
  reversed remote, the lease of its session stands under the key of exactly that identity,
  with the remote's port, and a GET of the control plane for that identity answers the port
  (or 404 if another identity with the same key text holds the lease).
\<close>

theorem command_line_identity_found:
  assumes main: "client_main set_flag getenv auths opts fs h args = Inr st"
    and given: "client = flag_value ''client-id'' (setup_flags st)" "app = flag_value ''app-name'' (setup_flags st)"
      "uid = flag_value ''user-id'' (setup_flags st)" "client \<noteq> ''''" "app \<noteq> ''''" "uid \<noteq> ''''"
    and state: "pa_exclusive (allocator s)"
      "cells (allocator s) a = handleRequestHeader (Header_Get (setup_headers st))"
    and accepted: "configure_session now matches bind decode (Request ''config'' payload) user a s = Inr (Inr b, s')"
    and remotes: "decode payload = Some (version, map Some rs)" "Reversed True rs = r # rest"
    and get: "enumerates order (names (allocator s'))" "query_identity parse_jwt g = (client, uid, app)"
  shows "\<exists>w. leases (allocator s') (alloc_key client uid app) = Some w \<and>
    Status w = Connected \<and> MappingPort w = Atoi_value (LocalPort r) \<and>
    handleGetPorts parse_jwt order g (allocator s') =
      (if ClientId w = client \<and> UserId w = uid \<and> AppName w = app
       then (200, PortQueryResponse (MappingPort w)) else (404, ErrorBody ''Port mapping not found''))"
proof -
  let ?c = "handleRequestHeader (Header_Get (setup_headers st))"
  let ?pa = "store a ((cells (allocator s) a)\<lparr>ClientVersion := client_version version\<rparr>) (allocator s)"
  have identity: "ClientId ?c = client" "AppName ?c = app" "UserId ?c = uid"
    using client_main_identity [OF main] given by (simp_all add: handleRequestHeader_def empty_allocation_def)
  have valid: "validate_remotes now matches bind (ReverseEnabled (config s)) user (map Some rs) a ?pa =
      Inr (Inr b, allocator s')"
    using accepted remotes(1) by (auto simp: configure_session_def Let_def split: sum.split_asm)
  have ex: "pa_exclusive ?pa" using state(1) by (intro store_exclusive) (simp_all add: keeps_identity_def)
  have obj: "cells ?pa a = ?c\<lparr>ClientVersion := client_version version\<rparr>" by (simp add: state(2))
  from session_lease [OF ex obj valid] have
    conn: "OnConnected now (cells ?pa a) (Atoi_value (RemotePort r)) (Atoi_value (LocalPort r)) ?pa = (Inr b, allocator s')"
    and after: "pa_exclusive (allocator s')" "Status (cells (allocator s') b) = Connected"
      "MappingPort (cells (allocator s') b) = Atoi_value (LocalPort r)"
    by (simp_all add: remotes(2) Let_def)
  have "names (allocator s') (alloc_key client uid app) = Some b"
    using OnConnected_key [OF conn] identity given(4-6) unfolding obj by simp
  then have lease: "leases (allocator s') (alloc_key client uid app) = Some (cells (allocator s') b)"
    by (simp add: leases_def)
  show ?thesis
    using lease after(2,3) handleGetPorts_full [OF pa_exclusiveD(1) [OF after(1)] get given(4,6,5)]
    by (auto split: if_splits)
qed

subsection \<open>A sample\<close>

definition web_flags :: flags where
  "web_flags = [''server'' \<mapsto> (''http://tunnel.example'', ''''), ''client-id'' \<mapsto> (''m'', ''''),
     ''app-name'' \<mapsto> (''web'', ''''), ''user-id'' \<mapsto> (''u'', '''')]"

lemma visiting_order: "pa_sound pa \<Longrightarrow> \<exists>order. enumerates order (names pa)"
  unfolding enumerates_def by (metis finite_distinct_list pa_soundD(7))

lemma web_main: "\<exists>st. client_main (\<lambda>k. Some) (\<lambda>_. '''') None None web_flags [] [''R:30000:127.0.0.1:80''] = Inr st \<and>
    setup_flags st = web_flags"
  by (simp add: client_main_def apply_options_def apply_auth_def flag_value_def web_flags_def Let_def)

theorem command_line_identity_found_witness:
  "\<exists>st s s' w. client_main (\<lambda>k. Some) (\<lambda>_. '''') None None web_flags [] [''R:30000:127.0.0.1:80''] = Inr st \<and>
    configure_session 5 sample_matches (\<lambda>_ _. True) (\<lambda>_. Some (''1.0'', [Some web_remote])) (Request ''config'' []) None 0 s
      = Inr (Inr 1, s') \<and>
    leases (allocator s') ''m-u-web'' = Some w \<and> MappingPort w = 30000"
proof -
  obtain st where st: "client_main (\<lambda>k. Some) (\<lambda>_. '''') None None web_flags [] [''R:30000:127.0.0.1:80''] = Inr st"
      "setup_flags st = web_flags" using web_main by blast
  have given: "''m'' = flag_value ''client-id'' (setup_flags st)" "''web'' = flag_value ''app-name'' (setup_flags st)"
      "''u'' = flag_value ''user-id'' (setup_flags st)" "''m'' \<noteq> ''''" "''web'' \<noteq> ''''" "''u'' \<noteq> ''''"
    by (simp_all add: st(2) web_flags_def flag_value_def)
  let ?header = "Header_Get (setup_headers st)"
  have object: "handleRequestHeader ?header = handleRequestHeader web_header"
    using client_main_identity [OF st(1)] given by (simp add: handleRequestHeader_def web_header_def)
  let ?s = "sample_server\<lparr>allocator := snd (new_object (handleRequestHeader ?header) (NewPortAllocator 30000 30001))\<rparr>"
  let ?conf = "\<lambda>s. configure_session 5 sample_matches (\<lambda>_ _. True) (\<lambda>_. Some (''1.0'', [Some web_remote])) (Request ''config'' []) None 0 s"
  have state: "pa_exclusive (allocator ?s)" "cells (allocator ?s) 0 = handleRequestHeader ?header"
    by (simp_all add: new_object_exclusive NewPortAllocator_exclusive) (simp add: NewPortAllocator_def)
  have version: "client_version ''1.0'' = ''1.0''" by (simp add: client_version_def TrimPrefix_def HasPrefix_def)
  have "store 0 ((cells (allocator ?s) 0)\<lparr>ClientVersion := ''1.0''\<rparr>) (allocator ?s) = web_state"
    unfolding object by (simp add: web_state_def new_object_def NewPortAllocator_def store_def)
  then obtain s' where conf: "?conf ?s = Inr (Inr 1, s')"
    using web_accepted by (auto simp: configure_session_def Let_def version sample_server_def sample_config_def set_allocator_def)
  have remotes: "(\<lambda>_. Some (''1.0'', [Some web_remote])) ([] :: bytes) = Some (''1.0'', map Some [web_remote])"
      "Reversed True [web_remote] = web_remote # []" by (simp_all add: web_remote_def plain_remote_def)
  have "pa_exclusive (allocator s')"
  proof -
    have "validate_remotes 5 sample_matches (\<lambda>_ _. True) True None (map Some [web_remote]) 0 web_state = Inr (Inr 1, allocator s')"
      using conf \<open>store 0 _ _ = web_state\<close>
      by (auto simp: configure_session_def Let_def version sample_server_def sample_config_def set_allocator_def split: sum.split_asm)
    moreover have "cells web_state 0 = (handleRequestHeader web_header)\<lparr>ClientVersion := ''1.0''\<rparr>"
      by (simp add: web_state_def new_object_def NewPortAllocator_def)
    ultimately show ?thesis using session_lease [OF web_state_exclusive] remotes(2) by (metis list.distinct(1))
  qed
  then obtain order where order: "enumerates order (names (allocator s'))"
    using visiting_order pa_exclusiveD(1) by blast
  have query: "query_identity (\<lambda>_. None) (get_request ''m'' ''u'' ''web'') = (''m'', ''u'', ''web'')"
    by simp
  from command_line_identity_found [OF st(1) given state conf remotes order query]
  have "\<exists>w. leases (allocator s') ''m-u-web'' = Some w \<and> MappingPort w = 30000"
    by (auto simp: alloc_key_def web_remote_def plain_remote_def Atoi_value_def web_numbers)
  with st(1) conf show ?thesis by blast
qed

end
