(* ===== verification/Server_Run.thy ===== *)
theory Server_Run
  imports Server_Setup Conn Go_Flag
begin

section \<open>A running server and its command line\<close>

text \<open>
  Models \<open>main\<close> of server-main/main.go, from the command line to the process's end, and the
  life of a server in server/server.go (\<open>Run\<close>, \<open>Start\<close>, \<open>StartContext\<close>, \<open>Wait\<close>, \<open>Close\<close>).
  Parsing numbers and durations, the environment and the network are parameters.
\<close>

subsection \<open>The life of a server\<close>

text \<open>The two HTTP servers, the services started and the fingerprint.\<close>

record live_server =
  live_config :: ServerConfig
  fingerprint :: string
  httpServer :: HTTPServer
  controlServer :: HTTPServer
  services :: "service list"

definition live_server :: "ServerConfig \<Rightarrow> string \<Rightarrow> live_server" where
  "live_server c fp = \<lparr>live_config = c, fingerprint = fp, httpServer = NewHTTPServer, controlServer = NewHTTPServer,
     services = []\<rparr>"

definition is_control :: "service \<Rightarrow> bool" where
  "is_control sv = (case sv of ControlService _ \<Rightarrow> True | _ \<Rightarrow> False)"

definition Server_StartContext ::
  "(string \<Rightarrow> string \<Rightarrow> listen_outcome) \<Rightarrow> (string \<Rightarrow> bool) \<Rightarrow> string \<Rightarrow> string \<Rightarrow> live_server \<Rightarrow>
   listen_outcome option \<times> live_server" where
  "Server_StartContext listener listens host port s =
     (case StartContext (listener host port) listens (live_config s) of
        Inl e \<Rightarrow> (Some e, s)
      | Inr svs \<Rightarrow>
          (None, s\<lparr>services := svs, httpServer := snd (GoServe True (httpServer s)),
             controlServer := (if list_ex is_control svs then snd (GoServe True (controlServer s)) else controlServer s)\<rparr>))"

definition Server_Start ::
  "(string \<Rightarrow> string \<Rightarrow> listen_outcome) \<Rightarrow> (string \<Rightarrow> bool) \<Rightarrow> string \<Rightarrow> string \<Rightarrow> live_server \<Rightarrow>
   listen_outcome option \<times> live_server" where
  "Server_Start listener listens host port s = Server_StartContext listener listens host port s"

definition Server_Wait :: "http_error option \<Rightarrow> live_server \<Rightarrow> http_error option" where
  "Server_Wait err s = HTTPServer_Wait err (httpServer s)"

definition Server_Close :: "live_server \<Rightarrow> http_error option \<times> live_server" where
  "Server_Close s = (let (e, h) = HTTPServer_Close (httpServer s) in (e, s\<lparr>httpServer := h\<rparr>))"

definition Server_GetFingerprint :: "live_server \<Rightarrow> string" where
  "Server_GetFingerprint s = fingerprint s"

text \<open>\<open>Run\<close>: the error of the start, or that of the wait; \<open>err\<close> is what serving ends with.\<close>

definition Server_Run ::
  "(string \<Rightarrow> string \<Rightarrow> listen_outcome) \<Rightarrow> (string \<Rightarrow> bool) \<Rightarrow> http_error option \<Rightarrow> string \<Rightarrow> string \<Rightarrow>
   live_server \<Rightarrow> (listen_outcome + http_error) option" where
  "Server_Run listener listens err host port s =
     (case Server_Start listener listens host port s of
        (Some e, _) \<Rightarrow> Some (Inl e)
      | (None, s) \<Rightarrow> map_option Inr (Server_Wait err s))"

text \<open>Closing stops the client server alone: the control plane and the timer run on.\<close>

lemma Server_Close_started:
  assumes "Server_StartContext listener listens host port s = (None, s')"
  shows "\<exists>s''. Server_Close s' = (None, s'') \<and> http_closed (httpServer s'') \<and>
    controlServer s'' = controlServer s' \<and> services s'' = services s'"
  using assms by (auto simp: Server_StartContext_def Server_Close_def HTTPServer_Close_def GoServe_def split: sum.splits)

subsection \<open>The command line\<close>

record server_args =
  args_flags :: server_flags
  args_pid :: bool
  args_verbose :: bool
  args_keygen :: string

definition server_defaults :: server_args where
  "server_defaults = \<lparr>args_flags = \<lparr>flag_host = '''', flag_p = '''', flag_port = '''',
       flag_config = \<lparr>KeySeed = '''', KeyFile = '''', AuthFile = '''', Auth = '''', ProxyURL = '''', Socks5 = False,
         ReverseEnabled = False, KeepAlive = 25 * second, TLSKey = '''', TLSCert = '''', TLSDomains = [], TLSCA = '''',
         ControlPort = ''7890'', MinPort = 30000, MaxPort = 31000\<rparr>\<rparr>,
     args_pid = False, args_verbose = False, args_keygen = ''''\<rparr>"

definition on_flags :: "(server_flags \<Rightarrow> server_flags) \<Rightarrow> server_args \<Rightarrow> server_args" where
  "on_flags f a = a\<lparr>args_flags := f (args_flags a)\<rparr>"

definition on_config :: "(ServerConfig \<Rightarrow> ServerConfig) \<Rightarrow> server_args \<Rightarrow> server_args" where
  "on_config f = on_flags (\<lambda>fl. fl\<lparr>flag_config := f (flag_config fl)\<rparr>)"

text \<open>The flags defined, with the options \<open>--proxy\<close> and \<open>--backend\<close> for one variable.\<close>

definition server_formal ::
  "(string \<Rightarrow> int option) \<Rightarrow> (string \<Rightarrow> time option) \<Rightarrow> string \<Rightarrow> server_args flag option" where
  "server_formal parse_int parse_duration = map_of
     [(''key'', string_flag (\<lambda>v. on_config (\<lambda>c. c\<lparr>KeySeed := v\<rparr>))),
      (''keyfile'', string_flag (\<lambda>v. on_config (\<lambda>c. c\<lparr>KeyFile := v\<rparr>))),
      (''authfile'', string_flag (\<lambda>v. on_config (\<lambda>c. c\<lparr>AuthFile := v\<rparr>))),
      (''auth'', string_flag (\<lambda>v. on_config (\<lambda>c. c\<lparr>Auth := v\<rparr>))),
      (''keepalive'', parsed_flag parse_duration (\<lambda>v. on_config (\<lambda>c. c\<lparr>KeepAlive := v\<rparr>))),
      (''proxy'', string_flag (\<lambda>v. on_config (\<lambda>c. c\<lparr>ProxyURL := v\<rparr>))),
      (''backend'', string_flag (\<lambda>v. on_config (\<lambda>c. c\<lparr>ProxyURL := v\<rparr>))),
      (''socks5'', bool_flag (\<lambda>v. on_config (\<lambda>c. c\<lparr>Socks5 := v\<rparr>))),
      (''reverse'', bool_flag (\<lambda>v. on_config (\<lambda>c. c\<lparr>ReverseEnabled := v\<rparr>))),
      (''tls-key'', string_flag (\<lambda>v. on_config (\<lambda>c. c\<lparr>TLSKey := v\<rparr>))),
      (''tls-cert'', string_flag (\<lambda>v. on_config (\<lambda>c. c\<lparr>TLSCert := v\<rparr>))),
      (''tls-domain'', string_flag (\<lambda>v. on_config (\<lambda>c. c\<lparr>TLSDomains := multiFlag_Set v (TLSDomains c)\<rparr>))),
      (''tls-ca'', string_flag (\<lambda>v. on_config (\<lambda>c. c\<lparr>TLSCA := v\<rparr>))),
      (''control-port'', string_flag (\<lambda>v. on_config (\<lambda>c. c\<lparr>ControlPort := v\<rparr>))),
      (''minport'', parsed_flag parse_int (\<lambda>v. on_config (\<lambda>c. c\<lparr>MinPort := v\<rparr>))),
      (''maxport'', parsed_flag parse_int (\<lambda>v. on_config (\<lambda>c. c\<lparr>MaxPort := v\<rparr>))),
      (''host'', string_flag (\<lambda>v. on_flags (\<lambda>f. f\<lparr>flag_host := v\<rparr>))),
      (''p'', string_flag (\<lambda>v. on_flags (\<lambda>f. f\<lparr>flag_p := v\<rparr>))),
      (''port'', string_flag (\<lambda>v. on_flags (\<lambda>f. f\<lparr>flag_port := v\<rparr>))),
      (''pid'', bool_flag (\<lambda>v a. a\<lparr>args_pid := v\<rparr>)),
      (''v'', bool_flag (\<lambda>v a. a\<lparr>args_verbose := v\<rparr>)),
      (''keygen'', string_flag (\<lambda>v a. a\<lparr>args_keygen := v\<rparr>))]"

text \<open>
  What the process comes to: the usage function ends it with status 0, on any error of the
  command line too; \<open>log.Fatal\<close> ends it with status 1.
\<close>

datatype 're server_process =
    UsageShown
  | KeyGenFailed
  | KeyGenerated key_output
  | ServerRefused server_error
  | PidFileFailed
  | StartRefused listen_outcome
  | ServerRuns "'re Server" "live_server"

record server_world =
  world_getenv :: "string \<Rightarrow> string"
  world_int :: "string \<Rightarrow> int option"
  world_duration :: "string \<Rightarrow> time option"
  world_write_key :: "key_output \<Rightarrow> bool"
  world_write_file :: "string \<Rightarrow> bytes \<Rightarrow> bool"
  world_pid :: int
  world_listener :: "ServerConfig \<Rightarrow> string \<Rightarrow> string \<Rightarrow> listen_outcome"
  world_listens :: "string \<Rightarrow> bool"

text \<open>The pid file in the current directory; failing to write it is fatal.\<close>

definition server_generatePidFile :: "(string \<Rightarrow> bytes \<Rightarrow> bool) \<Rightarrow> int \<Rightarrow> bool" where
  "server_generatePidFile write_file pid = write_file ''cotun.pid'' (show_int pid)"

definition cotund :: "server_world \<Rightarrow> ('re, 'pt) server_env \<Rightarrow> string list \<Rightarrow> 're server_process" where
  "cotund w env args =
     (case parse_flags (server_formal (world_int w) (world_duration w)) args server_defaults of
        Inl _ \<Rightarrow> UsageShown
      | Inr (a, _) \<Rightarrow>
          (if args_keygen a \<noteq> '''' then
             (case GenerateKeyFile (env_marshal env) (env_sha512 env) (env_curve env) (env_fresh env)
                     (args_keygen a) (KeySeed (flag_config (args_flags a))) of
                None \<Rightarrow> KeyGenFailed
              | Some k \<Rightarrow> if world_write_key w k then KeyGenerated k else KeyGenFailed)
           else
             (let (host, port, c) = server_main (world_getenv w) (args_flags a) in
              case NewServer env c of
                Inl e \<Rightarrow> ServerRefused e
              | Inr (fp, s) \<Rightarrow>
                  (if args_pid a \<and> \<not> server_generatePidFile (world_write_file w) (world_pid w) then PidFileFailed
                   else
                     (case Server_StartContext (world_listener w c) (world_listens w) host port (live_server c fp) of
                        (Some e, _) \<Rightarrow> StartRefused e
                      | (None, l) \<Rightarrow> ServerRuns s l)))))"

text \<open>The status it ends with; \<open>err\<close> is what serving ends with.\<close>

definition cotund_exit :: "http_error option \<Rightarrow> 're server_process \<Rightarrow> nat" where
  "cotund_exit err p =
     (case p of
        UsageShown \<Rightarrow> 0
      | KeyGenerated _ \<Rightarrow> 0
      | ServerRuns _ l \<Rightarrow> (case Server_Wait err l of None \<Rightarrow> 0 | Some _ \<Rightarrow> 1)
      | _ \<Rightarrow> 1)"

subsection \<open>What a command line does\<close>

text \<open>Options are taken in either spelling up to the first argument that is no option; the rest is ignored.\<close>

lemma cotund_stops_at_argument:
  assumes "assign_flags (server_formal (world_int w) (world_duration w)) gs server_defaults = Some s" "flag_arg a = NotFlag"
  shows "cotund w env (concat (map render_flag gs) @ a # args) = cotund w env (concat (map render_flag gs))"
  using parse_assigned [OF assms(1), of "a # args"] parse_assigned [OF assms(1), of "[]"] assms(2)
  by (simp add: cotund_def)

text \<open>An unknown option shows the usage and ends with status 0, like a success.\<close>

lemma unknown_option_exits_zero:
  assumes "server_formal (world_int w) (world_duration w) name = None" "flag_name_ok name"
  shows "cotund_exit err (cotund w env ((''--'' @ name) # args)) = 0"
proof -
  have "flag_arg (CHR ''-'' # CHR ''-'' # name) = FlagArg name None" using flag_arg_render(2) [OF assms(2)] .
  with assms show ?thesis by (simp add: cotund_def cotund_exit_def)
qed

subsection \<open>A server without an auth file\<close>

lemma NewServer_index_option:
  assumes "NewServer env c = Inr (fp, s)" "AuthFile c = ''''"
  shows "inner (index s) = auth_user (env_allow_all env) (Auth c) fmempty"
  using assms by (auto simp: NewServer_def NewUserIndex_def NewUsers_def Let_def split: sum.splits option.splits if_splits)

text \<open>Its one user is that of its option; if the option names none, it lets everyone in.\<close>

lemma option_server_logins:
  assumes "NewServer env c = Inr (fp, s)" "AuthFile c = ''''"
  shows "fst (authUser sid name password s) \<longleftrightarrow>
    fst (ParseAuth (Auth c)) = '''' \<or> ParseAuth (Auth c) = (name, password)"
proof -
  obtain n p where np: "ParseAuth (Auth c) = (n, p)" by fastforce
  have "ParseAuth '''' = ('''', '''')" by (simp add: ParseAuth_def)
  with np have i: "inner (index s) =
      (if n = '''' then fmempty else Users_AddUser \<lparr>Name = n, Pass = p, Addrs = [env_allow_all env]\<rparr> fmempty)"
    by (auto simp: NewServer_index_option [OF assms] auth_user_def)
  have get: "Users_Get name (inner (index s)) =
      (if n \<noteq> '''' \<and> name = n then Some \<lparr>Name = n, Pass = p, Addrs = [env_allow_all env]\<rparr> else None)"
    by (simp add: i Users_AddUser_def users.get_set) (simp add: Users_Get_def)
  moreover have "inner (index s) = fmempty \<longleftrightarrow> n = ''''"
    by (auto simp: i Users_AddUser_def Users_Set_def)
  ultimately show ?thesis by (auto simp: authUser_cases np)
qed

text \<open>
  C30: an argument that is no option ends the command line: the options after
  it have no effect, \<open>--auth\<close> and \<open>--authfile\<close> among them. The server that such a command line starts
  accepts the name and password of the variable \<open>AUTH\<close> and nobody else; if that variable names no user,
  it accepts every name and password. The program's own
  advice, \<open>cotun server --keyfile ...\<close>, is such a command line.
\<close>

theorem subcommand_opens_server:
  assumes "flag_arg a = NotFlag" "cotund w env (a # args) = ServerRuns s l"
  shows "cotund w env (a # args) = cotund w env [] \<and>
    (fst (authUser sid name password s) \<longleftrightarrow>
       fst (ParseAuth (world_getenv w ''AUTH'')) = '''' \<or> ParseAuth (world_getenv w ''AUTH'') = (name, password))"
proof -
  have same: "cotund w env (a # args) = cotund w env []" using assms(1) by (simp add: cotund_def)
  obtain host port c where main: "server_main (world_getenv w) (args_flags server_defaults) = (host, port, c)"
    by (metis prod.exhaust)
  have keygen: "args_keygen server_defaults = ''''" by (simp add: server_defaults_def)
  from main have c: "AuthFile c = ''''" "Auth c = world_getenv w ''AUTH''"
    by (auto simp: server_main_def server_defaults_def Let_def)
  have "\<exists>fp. NewServer env c = Inr (fp, s)"
    using assms(2) [unfolded same] unfolding cotund_def
    by (auto simp: main keygen split: sum.split_asm prod.split_asm option.split_asm if_split_asm)
  then obtain fp where "NewServer env c = Inr (fp, s)" by blast
  from option_server_logins [OF this c(1), of sid name password] same show ?thesis by (simp add: c(2))
qed

definition sample_world :: server_world where
  "sample_world = \<lparr>world_getenv = (\<lambda>_. ''''), world_int = (\<lambda>_. None), world_duration = (\<lambda>_. None),
     world_write_key = (\<lambda>_. True), world_write_file = (\<lambda>_ _. True), world_pid = 1,
     world_listener = (\<lambda>_ host port. ListeningOn PlainHTTP (''http://'' @ host @ '':'' @ port) ''''),
     world_listens = (\<lambda>_. True)\<rparr>"

theorem subcommand_opens_server_witness:
  "\<exists>s l. cotund sample_world sample_env [''server'', ''--authfile'', ''users.json''] = ServerRuns s l \<and>
    fst (authUser ''id1'' ''anyone'' ''anything'' s)"
proof -
  have main: "server_main (\<lambda>_. '''') (args_flags server_defaults) =
      (''0.0.0.0'', ''8080'', flag_config (args_flags server_defaults))"
    by (simp add: server_main_def server_defaults_def sample_world_def default_to_def Env_def)
  have "\<exists>fp s. NewServer sample_env (flag_config (args_flags server_defaults)) = Inr (fp, s)"
    by (simp add: NewServer_def server_defaults_def sample_env_def server_pem_def Seed2PEM_def seed2PrivateKey_def
        privateKey2PEM_def)
  moreover have keygen: "args_keygen server_defaults = ''''" by (simp add: server_defaults_def)
  moreover have start: "flag_arg ''server'' = NotFlag" by (simp add: flag_arg_def)
  ultimately obtain s l where run: "cotund sample_world sample_env [''server'', ''--authfile'', ''users.json''] = ServerRuns s l"
    by (auto simp: cotund_def main keygen Server_StartContext_def StartContext_def live_server_def sample_world_def
        server_generatePidFile_def)
  have "world_getenv sample_world ''AUTH'' = ''''" "fst (ParseAuth '''') = ''''"
    by (simp_all add: sample_world_def ParseAuth_def)
  with subcommand_opens_server [OF start run, of "''id1''" "''anyone''" "''anything''"]
  have "fst (authUser ''id1'' ''anyone'' ''anything'' s)" by simp
  with run show ?thesis by blast
qed

end
