(* ===== verification/Reconnect_System.thy ===== *)
theory Reconnect_System
  imports Client_Run Systems
begin

section \<open>A client that connects again\<close>

text \<open>
  The connection loop of client/client_connect.go together with the client's tunnel: a step
  relation in which the loop's attempts, the connections they bind and lose, its pauses and
  its end interleave with the goroutines of the tunnel (Tunnel_System). The function
  \<open>connectionLoop\<close> of Client runs on the rounds of an ended history; here the loop
  is in the middle of one, and the lemmas say that the two agree and that a client that
  retries without a limit has a connection again and again.
\<close>

subsection \<open>State\<close>

text \<open>
  Where the loop is: in \<open>connectionOnce\<close> before the tunnel is bound, in \<open>BindSSH\<close> on a
  connection, in the pause after an attempt, or at its end. \<open>backoff_state\<close> is the state of the
  backoff timer; \<open>rounds\<close> are the rounds that have ended, in order.
\<close>

datatype 'conn loop_phase =
    Attempting
  | Up 'conn
  | Pausing attempt_env
  | LoopOver loop_end

record ('b, 'conn) loop_state =
  phase :: "'conn loop_phase"
  backoff_state :: 'b
  loop_tunnel :: "'conn live_tunnel"
  rounds :: "(attempt_env \<times> wait_end) list"

text \<open>The operations of the backoff timer, as in \<open>connectionLoop\<close>, and the configured maximum.\<close>

record 'b retry_policy =
  attempt :: "'b \<Rightarrow> nat"
  duration :: "'b \<Rightarrow> time \<times> 'b"
  reset :: "'b \<Rightarrow> 'b"
  maxAttempt :: int

abbreviation policy_loop :: "'b retry_policy \<Rightarrow> (attempt_env \<times> wait_end) list \<Rightarrow> 'b \<Rightarrow> loop_end \<times> nat" where
  "policy_loop p \<equiv> connectionLoop (attempt p) (duration p) (reset p) (maxAttempt p)"

definition loop_init :: "TunnelConfig \<Rightarrow> 'b \<Rightarrow> ('b, 'conn) loop_state" where
  "loop_init c b = \<lparr>phase = Attempting, backoff_state = b, loop_tunnel = live_New c, rounds = []\<rparr>"

text \<open>The rest of the loop's body once \<open>connectionOnce\<close> has returned; giving up closes the client.\<close>

definition after_attempt ::
  "'b retry_policy \<Rightarrow> attempt_env \<Rightarrow> ('b, 'conn) loop_state \<Rightarrow> ('b, 'conn) loop_state" where
  "after_attempt p e s =
     (let b = (if fst (connectionOnce e) then reset p (backoff_state s) else backoff_state s)
      in if maxAttempt p \<ge> 0 \<and> int (attempt p b) \<ge> maxAttempt p
         then s\<lparr>phase := LoopOver GaveUp, backoff_state := b,
                loop_tunnel := (loop_tunnel s)\<lparr>stopped := True\<rparr>, rounds := rounds s @ [(e, RetryNow)]\<rparr>
         else s\<lparr>phase := Pausing e, backoff_state := snd (duration p b)\<rparr>)"

subsection \<open>Steps\<close>

datatype 'conn loop_event =
    Fails attempt_env
  | Connects 'conn
  | Disconnects attempt_env
  | Retries
  | SeesCancel
  | InTunnel "'conn tunnel_event"

text \<open>
  An attempt fails before the tunnel is bound, or binds a connection, and the tunnel returns
  when that one is lost. The context of an attempt is done only once the client is stopped.
  The steps of the tunnel that are not the loop's happen at any time.
\<close>

inductive loop_step ::
  "'b retry_policy \<Rightarrow> ('b, 'conn) loop_state \<Rightarrow> 'conn loop_event \<Rightarrow> ('b, 'conn) loop_state \<Rightarrow> bool" for p where
  fails: "phase s = Attempting \<Longrightarrow> snd (connectionOnce e) \<noteq> TunnelClosed \<Longrightarrow>
    ctx_done e \<longrightarrow> stopped (loop_tunnel s) \<Longrightarrow> loop_step p s (Fails e) (after_attempt p e s)"
| connects: "phase s = Attempting \<Longrightarrow> tunnel_step (loop_tunnel s) (Bind c) (Inr t) \<Longrightarrow>
    loop_step p s (Connects c) (s\<lparr>phase := Up c, loop_tunnel := t\<rparr>)"
| disconnects: "phase s = Up c \<Longrightarrow> snd (connectionOnce e) = TunnelClosed \<Longrightarrow>
    tunnel_step (loop_tunnel s) (Lost c) (Inr t) \<Longrightarrow>
    loop_step p s (Disconnects e) (after_attempt p e (s\<lparr>loop_tunnel := t\<rparr>))"
| retries: "phase s = Pausing e \<Longrightarrow>
    loop_step p s Retries (s\<lparr>phase := Attempting, rounds := rounds s @ [(e, RetryNow)]\<rparr>)"
| cancelled: "phase s = Pausing e \<Longrightarrow> stopped (loop_tunnel s) \<Longrightarrow>
    loop_step p s SeesCancel (s\<lparr>phase := LoopOver LoopCancelled, rounds := rounds s @ [(e, ContextDone)]\<rparr>)"
| tunnel: "tunnel_step (loop_tunnel s) ev (Inr t) \<Longrightarrow> \<forall>c. ev \<noteq> Bind c \<and> ev \<noteq> Lost c \<Longrightarrow>
    loop_step p s (InTunnel ev) (s\<lparr>loop_tunnel := t\<rparr>)"

inductive_cases loop_stepE: "loop_step p s ev s'"
inductive_cases ConnectsE: "loop_step p s (Connects c) s'"

inductive loop_reachable :: "'b retry_policy \<Rightarrow> TunnelConfig \<Rightarrow> 'b \<Rightarrow> ('b, 'conn) loop_state \<Rightarrow> bool" for p c b where
  start: "loop_reachable p c b (loop_init c b)"
| step: "loop_reachable p c b s \<Longrightarrow> loop_step p s ev s' \<Longrightarrow> loop_reachable p c b s'"

subsection \<open>The loop on the rounds so far\<close>

text \<open>The state of the backoff timer after rounds that the loop went through.\<close>

definition backoff_next :: "'b retry_policy \<Rightarrow> attempt_env \<Rightarrow> 'b \<Rightarrow> 'b" where
  "backoff_next p e b = (if fst (connectionOnce e) then reset p b else b)"

fun backoff_after :: "'b retry_policy \<Rightarrow> (attempt_env \<times> wait_end) list \<Rightarrow> 'b \<Rightarrow> 'b" where
  "backoff_after p [] b = b"
| "backoff_after p ((e, w) # rs) b = backoff_after p rs (snd (duration p (backoff_next p e b)))"

definition gives_up :: "'b retry_policy \<Rightarrow> attempt_env \<Rightarrow> 'b \<Rightarrow> bool" where
  "gives_up p e b \<longleftrightarrow> maxAttempt p \<ge> 0 \<and> int (attempt p (backoff_next p e b)) \<ge> maxAttempt p"

lemma policy_loop_Cons:
  "policy_loop p ((e, w) # rs) b =
     (if gives_up p e b then (GaveUp, 1)
      else if w = ContextDone then (LoopCancelled, 1)
      else map_prod id Suc (policy_loop p rs (snd (duration p (backoff_next p e b)))))"
  by (cases w) (simp_all add: gives_up_def backoff_next_def case_prod_beta Let_def prod_eq_iff)

declare connectionLoop.simps(2) [simp del]
declare policy_loop_Cons [simp]

lemma backoff_after_append [simp]: "backoff_after p (rs @ [(e, w)]) b = snd (duration p (backoff_next p e (backoff_after p rs b)))"
  by (induction p rs b rule: backoff_after.induct) simp_all

lemma policy_loop_append:
  "fst (policy_loop p rs b) = Running \<Longrightarrow>
   policy_loop p (rs @ rs1) b = map_prod id ((+) (length rs)) (policy_loop p rs1 (backoff_after p rs b))"
  by (induction p rs b rule: backoff_after.induct) (auto simp: prod_eq_iff split: if_splits)

lemma after_attempt_eq:
  "after_attempt p e s =
     (if gives_up p e (backoff_state s)
      then s\<lparr>phase := LoopOver GaveUp, backoff_state := backoff_next p e (backoff_state s),
             loop_tunnel := (loop_tunnel s)\<lparr>stopped := True\<rparr>, rounds := rounds s @ [(e, RetryNow)]\<rparr>
      else s\<lparr>phase := Pausing e, backoff_state := snd (duration p (backoff_next p e (backoff_state s)))\<rparr>)"
  by (simp add: after_attempt_def gives_up_def backoff_next_def Let_def)

subsection \<open>The invariant\<close>

definition loop_inv :: "'b retry_policy \<Rightarrow> TunnelConfig \<Rightarrow> 'b \<Rightarrow> ('b, 'conn) loop_state \<Rightarrow> bool" where
  "loop_inv p c b s \<longleftrightarrow>
     tunnel_reachable c (loop_tunnel s) \<and>
     bound (loop_tunnel s) = (case phase s of Up k \<Rightarrow> Some k | _ \<Rightarrow> None) \<and>
     (case phase s of
        LoopOver r \<Rightarrow> r \<noteq> Running \<and> stopped (loop_tunnel s) \<and> policy_loop p (rounds s) b = (r, length (rounds s)) \<and>
          (GaveUp, ContextDone) \<noteq> (r, snd (last (rounds s)))
      | Pausing e \<Rightarrow> policy_loop p (rounds s) b = (Running, length (rounds s)) \<and>
          \<not> gives_up p e (backoff_after p (rounds s) b) \<and> backoff_state s = backoff_after p (rounds s @ [(e, RetryNow)]) b
      | _ \<Rightarrow> policy_loop p (rounds s) b = (Running, length (rounds s)) \<and> backoff_state s = backoff_after p (rounds s) b)"

lemma loop_inv_after:
  assumes "tunnel_reachable c (loop_tunnel s)" "bound (loop_tunnel s) = None"
    "policy_loop p (rounds s) b = (Running, length (rounds s))" "backoff_state s = backoff_after p (rounds s) b"
  shows "loop_inv p c b (after_attempt p e s)"
proof -
  have "tunnel_reachable c ((loop_tunnel s)\<lparr>stopped := True\<rparr>)"
    using assms(1) by (rule tunnel_reachable.step) (rule tunnel_step.stop)
  then show ?thesis
    using assms policy_loop_append [of p "rounds s" b "[(e, RetryNow)]"] by (simp add: after_attempt_eq loop_inv_def)
qed

lemma lost_bound: "tunnel_step s (Lost c) (Inr t) \<Longrightarrow> bound t = None"
  by (erule tunnel_stepE) (auto simp: live_lost_def split: option.splits)

lemma bind_bound: "tunnel_step s (Bind c) (Inr t) \<Longrightarrow> bound t = Some c"
  by (erule tunnel_stepE) (auto simp: live_bind_def split: option.splits sum.splits)

lemma other_bound:
  "tunnel_step s ev (Inr t) \<Longrightarrow> \<forall>c. ev \<noteq> Bind c \<and> ev \<noteq> Lost c \<Longrightarrow>
   bound t = bound s \<and> (stopped s \<longrightarrow> stopped t)"
  by (erule tunnel_stepE) (auto simp: live_unlink_def split: option.splits)

lemma loop_inv_step:
  assumes step: "loop_step p s ev s'" and inv: "loop_inv p c b s"
  shows "loop_inv p c b s'"
  using step
proof (cases rule: loop_step.cases)
  case (fails e)
  with inv have "loop_inv p c b (after_attempt p e s)" by (intro loop_inv_after) (simp_all add: loop_inv_def)
  with fails show ?thesis by simp
next
  case (connects k t)
  then have "tunnel_reachable c t" "bound t = Some k"
    using inv tunnel_reachable.step bind_bound by (auto simp: loop_inv_def)
  with connects inv show ?thesis by (auto simp: loop_inv_def)
next
  case (disconnects k e t)
  then have "tunnel_reachable c t" "bound t = None"
    using inv tunnel_reachable.step lost_bound by (auto simp: loop_inv_def)
  with disconnects inv have "loop_inv p c b (after_attempt p e (s\<lparr>loop_tunnel := t\<rparr>))"
    by (intro loop_inv_after) (simp_all add: loop_inv_def)
  with disconnects show ?thesis by simp
next
  case (retries e)
  with inv policy_loop_append [of p "rounds s" b "[(e, RetryNow)]"] show ?thesis by (simp add: loop_inv_def)
next
  case (cancelled e)
  with inv policy_loop_append [of p "rounds s" b "[(e, ContextDone)]"] show ?thesis by (simp add: loop_inv_def)
next
  case (tunnel ev t)
  moreover have "tunnel_reachable c t" using inv tunnel(3) tunnel_reachable.step by (auto simp: loop_inv_def)
  moreover note other_bound [OF tunnel(3,4)]
  ultimately show ?thesis using inv by (auto simp: loop_inv_def split: loop_phase.splits)
qed

interpretation loop_steps: invariant_stepping "\<lambda>s. s = loop_init c b" "loop_step p" "loop_reachable p c b" "loop_inv p c b"
  for p c b
proof unfold_locales
  show "P s" if "loop_reachable p c b s" "\<And>s. s = loop_init c b \<Longrightarrow> P s"
    "\<And>s e s'. loop_reachable p c b s \<Longrightarrow> P s \<Longrightarrow> loop_step p s e s' \<Longrightarrow> P s'" for s P
    using that by (induction rule: loop_reachable.induct) blast+
  show "loop_inv p c b s" if "s = loop_init c b" for s
    using that tunnel_reachable.start by (auto simp: loop_inv_def loop_init_def live_New_def)
  show "loop_inv p c b s'" if "loop_inv p c b s" "loop_step p s e s'" for s e s'
    using loop_inv_step [OF that(2,1)] .
qed (auto intro: loop_reachable.step)

lemma loop_reachable_live: "loop_reachable p c b s \<Longrightarrow> live_inv (loop_tunnel s)"
  using loop_steps.reach_inv live_reachable_inv by (fastforce simp: loop_inv_def)

subsection \<open>The loop step by step is the loop\<close>

definition outcome :: "('b, 'conn) loop_state \<Rightarrow> loop_end" where
  "outcome s = (case phase s of LoopOver r \<Rightarrow> r | _ \<Rightarrow> Running)"

lemma loop_outcome: "loop_reachable p c b s \<Longrightarrow> policy_loop p (rounds s) b = (outcome s, length (rounds s))"
  by (drule loop_steps.reach_inv) (auto simp: loop_inv_def outcome_def split: loop_phase.split_asm)

lemma loop_active:
  "loop_reachable p c b s \<Longrightarrow> activeConn (tun (loop_tunnel s)) = (case phase s of Up k \<Rightarrow> Some k | _ \<Rightarrow> None)"
  using loop_reachable_live loop_steps.reach_inv by (fastforce simp: loop_inv_def live_inv_def)

lemma policy_loop_length: "snd (policy_loop p rs b) \<le> length rs"
  by (induction p rs b rule: backoff_after.induct) simp_all

lemma policy_loop_ended: "fst (policy_loop p rs b) \<noteq> Running \<Longrightarrow> policy_loop p (rs @ rs1) b = policy_loop p rs b"
  by (induction p rs b rule: backoff_after.induct) auto

lemma after_attempt_tunnel:
  assumes "stopped u"
  shows "after_attempt p e (s\<lparr>loop_tunnel := u\<rparr>) = (after_attempt p e s)\<lparr>loop_tunnel := u\<rparr>"
proof -
  have "u\<lparr>stopped := True\<rparr> = u" using assms by simp
  then show ?thesis by (simp add: after_attempt_eq)
qed

text \<open>Any attempt can be gone through; a connection that is lost is unlinked before the next round.\<close>

lemma attempt_possible:
  assumes reach: "loop_reachable p c b s" and s: "phase s = Attempting" "linked (loop_tunnel s) = []"
  shows "\<exists>t. loop_reachable p c b ((after_attempt p e s)\<lparr>loop_tunnel := t\<rparr>) \<and> stopped t \<and> linked t = []"
proof -
  let ?t0 = "(loop_tunnel s)\<lparr>stopped := True\<rparr>"
  let ?s0 = "s\<lparr>loop_tunnel := ?t0\<rparr>"
  have r0: "loop_reachable p c b ?s0"
    by (rule loop_reachable.step [OF reach loop_step.tunnel]) (auto intro: tunnel_step.stop)
  have idle: "bound ?t0 = None" using loop_steps.reach_inv [OF r0] s(1) by (simp add: loop_inv_def)
  show ?thesis
  proof (cases "snd (connectionOnce e) = TunnelClosed")
    case False
    with s have "loop_step p ?s0 (Fails e) (after_attempt p e ?s0)" by (intro loop_step.fails) simp_all
    with r0 have "loop_reachable p c b (after_attempt p e ?s0)" by (rule loop_reachable.step)
    with s(2) show ?thesis by (intro exI [of _ ?t0]) (simp add: after_attempt_tunnel [of ?t0])
  next
    case True
    obtain t1 where t1: "tunnel_step ?t0 (Bind k) (Inr t1)" "bound t1 = Some k" "stopped t1" "linked t1 = [k]"
      using tunnel_step.bind [of ?t0 k] live_ops(1) [OF loop_reachable_live [OF r0], of k] idle s(2) by simp
    let ?s1 = "?s0\<lparr>phase := Up k, loop_tunnel := t1\<rparr>"
    have r1: "loop_reachable p c b ?s1"
      using r0 by (rule loop_reachable.step) (rule loop_step.connects, use s(1) t1(1) in simp_all)
    obtain t2 where t2: "tunnel_step t1 (Lost k) (Inr t2)" "stopped t2" "linked t2 = [k]"
      using tunnel_step.lost [OF t1(2)] live_ops(2) [of t1] loop_reachable_live [OF r1] t1 by simp
    have "loop_step p ?s1 (Disconnects e) (after_attempt p e (?s1\<lparr>loop_tunnel := t2\<rparr>))"
      using True t2(1) by (intro loop_step.disconnects) simp_all
    with r1 have "loop_reachable p c b (after_attempt p e (?s1\<lparr>loop_tunnel := t2\<rparr>))" by (rule loop_reachable.step)
    moreover have "after_attempt p e (?s1\<lparr>loop_tunnel := t2\<rparr>) = (after_attempt p e s)\<lparr>loop_tunnel := t2\<rparr>"
      by (rule loop_state.equality) (simp_all add: after_attempt_eq t2(2))
    ultimately have r2: "loop_reachable p c b ((after_attempt p e s)\<lparr>loop_tunnel := t2\<rparr>)" by simp
    have "bound t2 \<noteq> Some k" using lost_bound [OF t2(1)] by simp
    then obtain u where u: "tunnel_step t2 (Unlink k) (Inr u)" "stopped u" "linked u = []"
      using tunnel_step.unlink [of k t2] live_ops(3) [of t2 k] loop_reachable_live [OF r2] t2 by simp
    have "loop_reachable p c b ((after_attempt p e s)\<lparr>loop_tunnel := t2\<rparr>\<lparr>loop_tunnel := u\<rparr>)"
      by (rule loop_reachable.step [OF r2 loop_step.tunnel]) (use u(1) in auto)
    with u show ?thesis by (intro exI [of _ u]) simp
  qed
qed

lemma round_possible:
  fixes s :: "('b, 'conn) loop_state"
  assumes reach: "loop_reachable p c b s" and s: "phase s = Attempting" "linked (loop_tunnel s) = []"
    and r: "policy_loop p [(e, w)] (backoff_state s) = (r, 1)" "(GaveUp, ContextDone) \<noteq> (r, w)"
  shows "\<exists>s' :: ('b, 'conn) loop_state. loop_reachable p c b s' \<and> rounds s' = rounds s @ [(e, w)] \<and> linked (loop_tunnel s') = [] \<and>
    phase s' = (if r = Running then Attempting else LoopOver r)"
proof -
  obtain u where u: "loop_reachable p c b ((after_attempt p e s)\<lparr>loop_tunnel := u\<rparr>)" "stopped u" "linked u = []"
    using attempt_possible [OF reach s] by blast
  show ?thesis
  proof (cases "gives_up p e (backoff_state s)")
    case True
    with r have "r = GaveUp" "w = RetryNow" by (cases w; simp)+
    with True u show ?thesis by - (rule exI, rule conjI, assumption, simp add: after_attempt_eq)
  next
    case False
    then have paused: "phase ((after_attempt p e s)\<lparr>loop_tunnel := u\<rparr>) = Pausing e" by (simp add: after_attempt_eq)
    show ?thesis
    proof (cases w)
      case RetryNow
      with r False have "r = Running" by simp
      with loop_reachable.step [OF u(1) loop_step.retries [OF paused]] u(3) False RetryNow show ?thesis
        by (intro exI) (auto simp: after_attempt_eq)
    next
      case ContextDone
      with r False have "r = LoopCancelled" by simp
      with loop_reachable.step [OF u(1) loop_step.cancelled [OF paused]] u(2,3) False ContextDone show ?thesis
        by (intro exI) (auto simp: after_attempt_eq)
    qed
  qed
qed

lemma rounds_possible:
  "policy_loop p rs b = (r, length rs) \<Longrightarrow> (GaveUp, ContextDone) \<noteq> (r, snd (last rs)) \<Longrightarrow>
   \<exists>s :: ('b, 'conn) loop_state. loop_reachable p c b s \<and> rounds s = rs \<and> linked (loop_tunnel s) = [] \<and>
     phase s = (if r = Running then Attempting else LoopOver r)"
proof (induction rs arbitrary: r rule: rev_induct)
  case Nil
  then show ?case
    by (intro exI [of _ "loop_init c b"]) (use loop_reachable.start [of p c b] in \<open>simp add: loop_init_def live_New_def\<close>)
next
  case (snoc x rs)
  obtain e w where x: "x = (e, w)" by (cases x)
  have "fst (policy_loop p rs b) = Running"
    using policy_loop_ended [of p rs b "[x]"] snoc.prems(1) policy_loop_length [of p rs b]
    by (metis Suc_n_not_le_n length_append_singleton snd_conv)
  then have app: "policy_loop p (rs @ rs1) b = map_prod id ((+) (length rs)) (policy_loop p rs1 (backoff_after p rs b))" for rs1
    by (rule policy_loop_append)
  have "policy_loop p rs b = (Running, length rs)" using app [of "[]"] by simp
  then obtain s :: "('b, 'conn) loop_state" where s: "loop_reachable p c b s" "rounds s = rs"
      "linked (loop_tunnel s) = []" "phase s = Attempting"
    using snoc.IH [of Running] by auto
  have "backoff_state s = backoff_after p rs b"
    using loop_steps.reach_inv [OF s(1)] s(2,4) by (simp add: loop_inv_def)
  then have "policy_loop p [(e, w)] (backoff_state s) = (r, 1)"
    using snoc.prems(1) app [of "[x]"] by (simp add: x prod_eq_iff)
  with round_possible [OF s(1,4,3)] s(2) snoc.prems(2) show ?case by (simp add: x)
qed

text \<open>
  C19: the loop among the goroutines of its client is the loop of the source: the rounds that
  a reachable client can have gone through, with the end it has come to, are exactly
  those on which \<open>connectionLoop\<close> runs to its last round with that end, however the
  connections, the waiting proxies and a cancellation interleave. (Of the round in which the loop gives
  up, the end of the pause counts for nothing; \<open>RetryNow\<close> stands for it.)
\<close>

theorem reconnecting_refines_loop:
  "(\<exists>s :: ('b, 'conn) loop_state. loop_reachable p c b s \<and> rounds s = rs \<and> outcome s = r) \<longleftrightarrow>
   connectionLoop (attempt p) (duration p) (reset p) (maxAttempt p) rs b = (r, length rs) \<and>
     (GaveUp, ContextDone) \<noteq> (r, snd (last rs))"
proof
  assume "\<exists>s :: ('b, 'conn) loop_state. loop_reachable p c b s \<and> rounds s = rs \<and> outcome s = r"
  then obtain s :: "('b, 'conn) loop_state" where s: "loop_reachable p c b s" "rounds s = rs" "outcome s = r" by blast
  moreover have "(GaveUp, ContextDone) \<noteq> (r, snd (last rs))"
    using loop_steps.reach_inv [OF s(1)] s(2,3) by (auto simp: loop_inv_def outcome_def split: loop_phase.splits)
  ultimately show "policy_loop p rs b = (r, length rs) \<and> (GaveUp, ContextDone) \<noteq> (r, snd (last rs))"
    using loop_outcome [OF s(1)] by simp
next
  assume "policy_loop p rs b = (r, length rs) \<and> (GaveUp, ContextDone) \<noteq> (r, snd (last rs))"
  then obtain s :: "('b, 'conn) loop_state" where s: "loop_reachable p c b s" "rounds s = rs"
      "phase s = (if r = Running then Attempting else LoopOver r)"
    using rounds_possible [of p rs b r c] by blast
  moreover have "outcome s = r" using s(3) by (simp add: outcome_def)
  ultimately show "\<exists>s :: ('b, 'conn) loop_state. loop_reachable p c b s \<and> rounds s = rs \<and> outcome s = r" by blast
qed

subsection \<open>The client connects again\<close>

text \<open>
  The infinite runs of a client that retries without a limit and is never stopped. Every
  attempt ends and every pause ends (their timers run), and the network is not hostile for
  ever: if the client tries again and again, it gets through again and again.
\<close>

definition loop_run ::
  "'b retry_policy \<Rightarrow> TunnelConfig \<Rightarrow> 'b \<Rightarrow> (nat \<Rightarrow> ('b, 'conn) loop_state) \<Rightarrow> (nat \<Rightarrow> 'conn loop_event) \<Rightarrow> bool" where
  "loop_run p c b run ev \<longleftrightarrow>
     run 0 = loop_init c b \<and> (\<forall>i. loop_step p (run i) (ev i) (run (Suc i))) \<and> (\<forall>i. ev i \<noteq> InTunnel Stop)"

definition attempt_ends :: "'conn loop_event \<Rightarrow> bool" where
  "attempt_ends e \<longleftrightarrow> (\<exists>a. e = Fails a) \<or> (\<exists>k. e = Connects k)"

definition timers_run :: "(nat \<Rightarrow> ('b, 'conn) loop_state) \<Rightarrow> (nat \<Rightarrow> 'conn loop_event) \<Rightarrow> bool" where
  "timers_run run ev \<longleftrightarrow>
     (\<forall>i. phase (run i) = Attempting \<longrightarrow> (\<exists>j\<ge>i. attempt_ends (ev j))) \<and>
     (\<forall>i a. phase (run i) = Pausing a \<longrightarrow> (\<exists>j\<ge>i. ev j = Retries))"

definition network_fair :: "(nat \<Rightarrow> 'conn loop_event) \<Rightarrow> bool" where
  "network_fair ev \<longleftrightarrow> (\<forall>i. \<exists>j\<ge>i. attempt_ends (ev j)) \<longrightarrow> (\<forall>i. \<exists>j\<ge>i. \<exists>k. ev j = Connects k)"

lemma loop_run_steps:
  assumes "loop_run p c b run ev"
  shows "loop_reachable p c b (run i)" "loop_step p (run i) (ev i) (run (Suc i))" "ev i \<noteq> InTunnel Stop"
proof -
  show "loop_reachable p c b (run i)"
    by (rule loop_steps.run_reach [of p c b run ev])
      (use assms loop_reachable.start in \<open>auto simp: loop_run_def\<close>)
qed (use assms in \<open>auto simp: loop_run_def\<close>)

lemma tunnel_step_stopped: "tunnel_step s e (Inr t) \<Longrightarrow> e \<noteq> Stop \<Longrightarrow> stopped t = stopped s"
  by (auto elim!: tunnel_stepE simp: live_bind_def live_lost_def live_unlink_def split: option.splits sum.splits)

lemma step_not_stopped:
  assumes "loop_step p s ev s'" "maxAttempt p < 0" "ev \<noteq> InTunnel Stop" "\<not> stopped (loop_tunnel s)"
  shows "\<not> stopped (loop_tunnel s')"
  using assms by (auto elim!: loop_stepE simp: after_attempt_eq gives_up_def dest!: tunnel_step_stopped)

lemma loop_run_not_stopped:
  assumes "loop_run p c b run ev" "maxAttempt p < 0"
  shows "\<not> stopped (loop_tunnel (run i))"
proof (induction i)
  case 0
  with assms(1) show ?case by (simp add: loop_run_def loop_init_def live_New_def)
next
  case (Suc i)
  with step_not_stopped [OF loop_run_steps(2) [OF assms(1)] assms(2) loop_run_steps(3) [OF assms(1)]] show ?case by blast
qed

lemma attempts_go_on:
  assumes run: "loop_run p c b run ev" "maxAttempt p < 0" "timers_run run ev"
  shows "\<exists>j\<ge>i. attempt_ends (ev j) \<or> (\<exists>k. phase (run j) = Up k)"
proof (cases "phase (run i)")
  case (Pausing a)
  then obtain j where "j \<ge> i" "ev j = Retries" using run(3) by (auto simp: timers_run_def)
  moreover from this have "phase (run (Suc j)) = Attempting"
    using loop_run_steps(2) [OF run(1), of j] by (auto elim: loop_stepE)
  ultimately show ?thesis using run(3) unfolding timers_run_def by (meson Suc_leD le_trans)
next
  case (LoopOver r)
  with loop_steps.reach_inv [OF loop_run_steps(1) [OF run(1)], of i] loop_run_not_stopped [OF run(1,2), of i]
  show ?thesis by (simp add: loop_inv_def)
qed (use run(3) in \<open>auto simp: timers_run_def\<close>)

text \<open>
  C12: a client that retries without a limit has a connection again and again: in every
  infinite run in which it is not stopped, its attempts and pauses end and the network lets it
  through again and again if it keeps trying, there is after every moment a later one at
  which a proxy that asks the tunnel for a connection gets one. No way for its attempts to
  fail, no loss of a connection and no order of the goroutines leaves the loop stuck.
\<close>

theorem client_reconnects:
  assumes run: "loop_run p c b run ev" "maxAttempt p < 0" and fair: "timers_run run ev" "network_fair ev"
  shows "\<exists>j\<ge>i. \<exists>k. tunnel_step (loop_tunnel (run j)) (Got (Some k)) (Inr (loop_tunnel (run j)))"
proof (rule ccontr)
  assume "\<not> ?thesis"
  moreover have "tunnel_step (loop_tunnel (run j)) (Got (Some k)) (Inr (loop_tunnel (run j)))" if "phase (run j) = Up k" for j k
    using loop_active [OF loop_run_steps(1) [OF run(1)], of j] that by (simp add: tunnel_step.got)
  ultimately have down: "phase (run j) \<noteq> Up k" if "j \<ge> i" for j k using that by blast
  have "\<exists>j\<ge>n. attempt_ends (ev j)" for n
    using attempts_go_on [OF run fair(1), of "max n i"] down by (meson max.boundedE)
  then obtain j k where "j \<ge> i" "ev j = Connects k" using fair(2) unfolding network_fair_def by blast
  moreover from this have "phase (run (Suc j)) = Up k"
    using loop_run_steps(2) [OF run(1), of j] by (auto elim: ConnectsE)
  ultimately show False using down [of "Suc j" k] by simp
qed

subsection \<open>A sample run\<close>

text \<open>A client that connects, is up for ten seconds and loses its connection, over and over.\<close>

definition patient_policy :: "nat retry_policy" where
  "patient_policy = \<lparr>attempt = (\<lambda>n. n), duration = (\<lambda>n. (second, Suc n)), reset = (\<lambda>_. 0), maxAttempt = - 1\<rparr>"

definition up_attempt :: attempt_env where
  "up_attempt = \<lparr>ctx_done = False, via_proxy = None, dialled = True, handshaken = True,
     config_reply = Some [], up_time = 10 * second\<rparr>"

definition tunnel_between :: "nat \<Rightarrow> nat live_tunnel" where
  "tunnel_between k = (live_New sample_tunnel_config)\<lparr>connections := k,
     activatingConn := (if k = 0 then \<lparr>wg_n = 1, wg_inner = 1\<rparr> else \<lparr>wg_n = 0, wg_inner = 0\<rparr>)\<rparr>"

definition tunnel_up :: "nat \<Rightarrow> nat live_tunnel" where
  "tunnel_up k = (live_New sample_tunnel_config)\<lparr>tun := (New sample_tunnel_config)\<lparr>activeConn := Some 7\<rparr>,
     activatingConn := \<lparr>wg_n = 0, wg_inner = 0\<rparr>, bound := Some 7, linked := [7], connections := Suc k\<rparr>"

definition tunnel_lost :: "nat \<Rightarrow> nat live_tunnel" where
  "tunnel_lost k = (live_New sample_tunnel_config)\<lparr>linked := [7], connections := Suc k\<rparr>"

definition flapping_events :: "nat \<Rightarrow> nat loop_event" where
  "flapping_events i = [Connects 7, Disconnects up_attempt, InTunnel (Unlink 7), Retries] ! (i mod 4)"

definition flapping_run :: "nat \<Rightarrow> (nat, nat) loop_state" where
  "flapping_run i = (let k = i div 4; b = (if k = 0 then 0 else 1); past = replicate k (up_attempt, RetryNow) in
     [\<lparr>phase = Attempting, backoff_state = b, loop_tunnel = tunnel_between k, rounds = past\<rparr>,
      \<lparr>phase = Up 7, backoff_state = b, loop_tunnel = tunnel_up k, rounds = past\<rparr>,
      \<lparr>phase = Pausing up_attempt, backoff_state = 1, loop_tunnel = tunnel_lost k, rounds = past\<rparr>,
      \<lparr>phase = Pausing up_attempt, backoff_state = 1, loop_tunnel = tunnel_between (Suc k), rounds = past\<rparr>] ! (i mod 4))"

lemma tunnel_cycle:
  "tunnel_step (tunnel_between k) (Bind 7) (Inr (tunnel_up k))"
  "tunnel_step (tunnel_up k) (Lost 7) (Inr (tunnel_lost k))"
  "tunnel_step (tunnel_lost k) (Unlink 7) (Inr (tunnel_between (Suc k)))"
proof -
  have inv: "live_inv (tunnel_between k)" "live_inv (tunnel_up k)" "live_inv (tunnel_lost k)"
    by (simp_all add: live_inv_def tunnel_between_def tunnel_up_def tunnel_lost_def live_New_def New_def)
  show "tunnel_step (tunnel_between k) (Bind 7) (Inr (tunnel_up k))"
    using tunnel_step.bind [of "tunnel_between k" 7] live_ops(1) [OF inv(1), of 7]
    by (simp add: tunnel_between_def tunnel_up_def live_New_def)
  show "tunnel_step (tunnel_up k) (Lost 7) (Inr (tunnel_lost k))"
    using tunnel_step.lost [of "tunnel_up k" 7] live_ops(2) [OF inv(2)]
    by (simp add: tunnel_up_def tunnel_lost_def live_New_def BindSSH_end_def New_def)
  show "tunnel_step (tunnel_lost k) (Unlink 7) (Inr (tunnel_between (Suc k)))"
    using tunnel_step.unlink [of 7 "tunnel_lost k"] live_ops(3) [OF inv(3), of 7]
    by (simp add: tunnel_lost_def tunnel_between_def live_New_def)
qed

lemma up_attempt_once: "connectionOnce up_attempt = (True, TunnelClosed)"
  by (simp add: connectionOnce_def up_attempt_def)

lemma mod4_cases:
  fixes i :: nat
  obtains k where "i = 4 * k" | k where "i = Suc (4 * k)" | k where "i = Suc (Suc (4 * k))"
    | k where "i = Suc (Suc (Suc (4 * k)))"
proof -
  have "\<exists>k. i = 4 * k \<or> i = Suc (4 * k) \<or> i = Suc (Suc (4 * k)) \<or> i = Suc (Suc (Suc (4 * k)))" by presburger
  then show thesis using that by blast
qed

lemma div4: "(4 * k) div 4 = k" "Suc (4 * k) div 4 = k" "Suc (Suc (4 * k)) div 4 = k" "Suc (Suc (Suc (4 * k))) div 4 = k"
    "Suc (Suc (Suc (Suc (4 * k)))) div 4 = Suc k" "(4 * k) mod 4 = 0" "Suc (4 * k) mod 4 = 1" "Suc (Suc (4 * k)) mod 4 = 2"
    "Suc (Suc (Suc (4 * k))) mod 4 = 3" "Suc (Suc (Suc (Suc (4 * k)))) mod 4 = 0" for k :: nat
  by (presburger | simp)+

lemma flapping_step: "loop_step patient_policy (flapping_run i) (flapping_events i) (flapping_run (Suc i))"
proof (rule mod4_cases [of i])
  fix k assume i: "i = 4 * k"
  show ?thesis
    using loop_step.connects [of "flapping_run i" 7 "tunnel_up k" patient_policy] tunnel_cycle(1) [of k]
    by (simp add: i flapping_run_def flapping_events_def div4)
next
  fix k assume i: "i = Suc (4 * k)"
  show ?thesis
    using loop_step.disconnects [of "flapping_run i" 7 up_attempt "tunnel_lost k" patient_policy] tunnel_cycle(2) [of k]
    by (simp add: i flapping_run_def flapping_events_def div4 up_attempt_once after_attempt_eq gives_up_def
        backoff_next_def patient_policy_def)
next
  fix k assume i: "i = Suc (Suc (4 * k))"
  show ?thesis
    using loop_step.tunnel [of "flapping_run i" "Unlink 7" "tunnel_between (Suc k)" patient_policy] tunnel_cycle(3) [of k]
    by (simp add: i flapping_run_def flapping_events_def div4)
next
  fix k assume i: "i = Suc (Suc (Suc (4 * k)))"
  show ?thesis
    using loop_step.retries [of "flapping_run i" up_attempt patient_policy]
    by (simp add: i flapping_run_def flapping_events_def div4 replicate_append_same)
qed

theorem client_reconnects_witness:
  "flapping_run 0 = loop_init sample_tunnel_config 0 \<and>
   (\<exists>j\<ge>1000. \<exists>k. tunnel_step (loop_tunnel (flapping_run j)) (Got (Some k)) (Inr (loop_tunnel (flapping_run j))))"
proof -
  have start: "flapping_run 0 = loop_init sample_tunnel_config 0"
    by (simp add: flapping_run_def loop_init_def tunnel_between_def live_New_def)
  have ev: "flapping_events i \<noteq> InTunnel Stop" for i
    by (rule mod4_cases [of i]) (simp_all add: flapping_events_def div4)
  have "\<exists>j\<ge>i. flapping_events j = Connects 7" for i
    by (rule exI [of _ "4 * i"]) (simp add: flapping_events_def)
  moreover have "\<exists>j\<ge>i. flapping_events j = Retries" for i
    by (rule exI [of _ "Suc (Suc (Suc (4 * i)))"]) (simp add: flapping_events_def div4)
  ultimately have fair: "timers_run flapping_run flapping_events" "network_fair flapping_events"
    unfolding timers_run_def network_fair_def attempt_ends_def by blast+
  have "loop_run patient_policy sample_tunnel_config 0 flapping_run flapping_events"
    using start ev flapping_step by (simp add: loop_run_def)
  from client_reconnects [OF this _ fair, of 1000] start show ?thesis by (simp add: patient_policy_def)
qed

end
