(* ===== verification/Udp_Client.thy ===== *)
theory Udp_Client
  imports Reconnect_System Udp_Listener
begin

section \<open>A client with a udp remote\<close>

text \<open>
  A client that listens for a udp remote, and for any number of TCP ones, with all its
  goroutines: the connection loop with its tunnel (Reconnect_System), the two loops of the udp
  listener (share/tunnel/tunnel_in_proxy_udp.go), the goroutine that binds the remotes
  (\<open>BindRemotes\<close> in share/tunnel/tunnel.go) and the groups they return to
  (\<open>Start\<close> and \<open>Wait\<close> in client/client.go). The first error in a group ends the context of its other
  goroutines. It shows what becomes of such a client when its listener finds no connection.
\<close>

subsection \<open>State and steps\<close>

text \<open>
  \<open>tcp_listeners\<close> are the TCP listeners still running, which return when their context is done;
  \<open>results\<close> is what the proxies have returned and \<open>remotes_failed\<close> whether one of them failed.
  \<open>bind_result\<close> is what binding the remotes has returned, and \<open>client_result\<close> what \<open>Wait\<close> has.
\<close>

record ('b, 'conn) udp_client =
  client_loop :: "('b, 'conn) loop_state"
  udp_run :: "'conn listener_run"
  udp_over :: bool
  tcp_listeners :: nat
  results :: "string option list"
  remotes_failed :: bool
  bind_result :: "client_end option option"
  loop_was_first :: bool
  client_result :: "client_end option option"

definition udp_client_init :: "TunnelConfig \<Rightarrow> 'b \<Rightarrow> 'conn listener_run \<Rightarrow> nat \<Rightarrow> ('b, 'conn) udp_client" where
  "udp_client_init c b l n = \<lparr>client_loop = loop_init c b, udp_run = l, udp_over = False, tcp_listeners = n,
     results = [], remotes_failed = False, bind_result = None, loop_was_first = False, client_result = None\<rparr>"

abbreviation client_stopped :: "('b, 'conn) udp_client \<Rightarrow> bool" where
  "client_stopped s \<equiv> stopped (loop_tunnel (client_loop s))"

definition remotes_cancelled :: "('b, 'conn) udp_client \<Rightarrow> bool" where
  "remotes_cancelled s \<longleftrightarrow> remotes_failed s \<or> client_stopped s"

datatype 'conn udp_client_event =
    LoopMoves "'conn loop_event"
  | ListenerMoves "'conn listener_event"
  | ListenerReturns
  | TcpReturns
  | BindReturns
  | WaitReturns

text \<open>The answer of \<open>getSSH\<close> that an iteration of a loop uses, if it needs a connection.\<close>

fun looks :: "'conn listener_event \<Rightarrow> 'conn udpListener \<Rightarrow> 'conn option option" where
  "looks (InboundRound (ReadPacket a b) ssh oc e) u = (if outbound u = None then Some ssh else None)"
| "looks (OutboundRound ssh oc d r w) u = (if outbound u = None then Some ssh else None)"
| "looks _ u = None"

definition loop_in_tunnel :: "'conn live_tunnel \<Rightarrow> ('b, 'conn) loop_state \<Rightarrow> ('b, 'conn) loop_state" where
  "loop_in_tunnel t l = l\<lparr>loop_tunnel := t\<rparr>"

definition stop_client :: "('b, 'conn) loop_state \<Rightarrow> ('b, 'conn) loop_state" where
  "stop_client l = l\<lparr>loop_tunnel := (loop_tunnel l)\<lparr>stopped := True\<rparr>\<rparr>"

text \<open>
  \<open>wait\<close> and \<open>gwait\<close> are the waits of the groups. The listener's iterations ask the tunnel
  for a connection, and get none without asking when their context is done.
\<close>

inductive udp_client_step ::
  "'b retry_policy \<Rightarrow> (string option list \<Rightarrow> string option) \<Rightarrow> (client_end option list \<Rightarrow> client_end option) \<Rightarrow>
   ('b, 'conn) udp_client \<Rightarrow> 'conn udp_client_event \<Rightarrow> ('b, 'conn) udp_client \<Rightarrow> bool" for p wait gwait where
  loop: "loop_step p (client_loop s) e l \<Longrightarrow> udp_client_step p wait gwait s (LoopMoves e) (s\<lparr>client_loop := l\<rparr>)"
| quiet: "looks e (listener_state (udp_run s)) = None \<Longrightarrow> e = ContextEnds \<longrightarrow> remotes_cancelled s \<Longrightarrow>
    udp_client_step p wait gwait s (ListenerMoves e) (s\<lparr>udp_run := listener_step e (udp_run s)\<rparr>)"
| asks: "looks e (listener_state (udp_run s)) = Some ssh \<Longrightarrow>
    tunnel_step (loop_tunnel (client_loop s)) (Got ssh) (Inr t) \<Longrightarrow>
    udp_client_step p wait gwait s (ListenerMoves e)
      (s\<lparr>client_loop := loop_in_tunnel t (client_loop s), udp_run := listener_step e (udp_run s)\<rparr>)"
| cancelled: "looks e (listener_state (udp_run s)) = Some None \<Longrightarrow> context_done (udp_run s) \<Longrightarrow>
    udp_client_step p wait gwait s (ListenerMoves e) (s\<lparr>udp_run := listener_step e (udp_run s)\<rparr>)"
| listener_returns: "listener_result wait (udp_run s) = Some r \<Longrightarrow> \<not> udp_over s \<Longrightarrow>
    udp_client_step p wait gwait s ListenerReturns
      (s\<lparr>udp_over := True, results := results s @ [r], remotes_failed := remotes_failed s \<or> r \<noteq> None\<rparr>)"
| tcp_returns: "tcp_listeners s > 0 \<Longrightarrow> remotes_cancelled s \<Longrightarrow>
    udp_client_step p wait gwait s TcpReturns
      (s\<lparr>tcp_listeners := tcp_listeners s - 1, results := results s @ [None]\<rparr>)"
| bind_returns: "udp_over s \<Longrightarrow> tcp_listeners s = 0 \<Longrightarrow> bind_result s = None \<Longrightarrow>
    r = BindRemotes_returns wait None (results s) \<Longrightarrow>
    udp_client_step p wait gwait s BindReturns
      (s\<lparr>bind_result := Some r, loop_was_first := (outcome (client_loop s) \<noteq> Running),
         client_loop := (if r = None then client_loop s else stop_client (client_loop s))\<rparr>)"
| wait_returns: "client_result s = None \<Longrightarrow>
    Client_Wait gwait (outcome (client_loop s)) (bind_result s) (loop_was_first s) = Some x \<Longrightarrow>
    udp_client_step p wait gwait s WaitReturns (s\<lparr>client_result := Some x\<rparr>)"

inductive_cases udp_client_stepE: "udp_client_step p wait gwait s e s'"

subsection \<open>What the proxies have returned\<close>

definition results_inv ::
  "(string option list \<Rightarrow> string option) \<Rightarrow> ('b, 'conn) udp_client \<Rightarrow> bool" where
  "results_inv wait s \<longleftrightarrow>
     (\<not> udp_over s \<longrightarrow> first_error (results s) = None \<and> bind_result s = None) \<and>
     (udp_over s \<longrightarrow> \<not> in_running (udp_run s) \<and> \<not> out_running (udp_run s) \<and>
        first_error (results s) = first_error (returned (udp_run s)) \<and>
        (first_error (returned (udp_run s)) \<noteq> None \<longrightarrow> remotes_failed s)) \<and>
     (bind_result s \<noteq> None \<longrightarrow> tcp_listeners s = 0 \<and> bind_result s = Some (BindRemotes_returns wait None (results s)) \<and>
        (bind_result s \<noteq> Some None \<longrightarrow> client_stopped s)) \<and>
     (client_result s \<noteq> None \<longrightarrow> client_result s = bind_result s) "

lemma results_init: "results_inv wait (udp_client_init c b l n)"
  by (simp add: results_inv_def udp_client_init_def loop_init_def)

lemma loop_over_ended:
  "loop_step p s e s' \<Longrightarrow> \<forall>r. phase s = LoopOver r \<longrightarrow> r \<noteq> Running \<Longrightarrow> phase s' = LoopOver r \<Longrightarrow> r \<noteq> Running"
  by (auto elim!: loop_stepE simp: after_attempt_eq split: if_splits)

lemma first_error_single: "first_error [r] = r"
  by (cases r) simp_all

lemma tunnel_stays_stopped: "tunnel_step s e (Inr t) \<Longrightarrow> stopped s \<Longrightarrow> stopped t"
  using tunnel_step_stopped [of s e t] by (cases "e = Stop") (auto elim: tunnel_stepE)

lemma loop_stays_stopped: "loop_step p s e s' \<Longrightarrow> stopped (loop_tunnel s) \<Longrightarrow> stopped (loop_tunnel s')"
  by (auto elim!: loop_stepE simp: after_attempt_eq dest: tunnel_stays_stopped)

lemma client_stays_stopped: "udp_client_step p wait gwait s e s' \<Longrightarrow> client_stopped s \<Longrightarrow> client_stopped s'"
  by (erule udp_client_stepE)
    (auto simp: loop_in_tunnel_def stop_client_def dest: loop_stays_stopped tunnel_stays_stopped)

lemma results_step:
  assumes "udp_client_step p wait gwait s e s'" "results_inv wait s" and laws: "errgroup_law wait" "errgroup_law gwait"
  shows "results_inv wait s'"
  using assms(1)
proof (cases rule: udp_client_step.cases)
  case (loop e l)
  with assms(2) loop_stays_stopped show ?thesis by (auto simp: results_inv_def)
next
  case (quiet e)
  with assms(2) listener_step_over [of "udp_run s" e] show ?thesis by (auto simp: results_inv_def)
next
  case (asks e ssh t)
  with assms(2) listener_step_over [of "udp_run s" e] tunnel_step_stopped [OF asks(4)] show ?thesis
    by (auto simp: results_inv_def loop_in_tunnel_def)
next
  case (cancelled e)
  with assms(2) listener_step_over [of "udp_run s" e] show ?thesis by (auto simp: results_inv_def)
next
  case (listener_returns r)
  with assms(2) laws(1) show ?thesis
    by (auto simp: results_inv_def listener_result_def errgroup_law_def first_error_single split: if_splits)
next
  case tcp_returns
  with assms(2) show ?thesis by (auto simp: results_inv_def split: option.splits)
next
  case (bind_returns r)
  with assms(2) show ?thesis by (auto simp: results_inv_def stop_client_def)
next
  case (wait_returns x)
  with assms(2) laws(2) show ?thesis by (auto simp: results_inv_def Client_Wait_eq split: if_splits)
qed

subsection \<open>Runs\<close>

text \<open>
  The infinite runs of a client from its start. Its goroutines make progress: none stays for ever where it
  can go on. A read of the listener ends, within its deadline, and the loop then sees that its context is done; what
  has returned is collected; an attempt to connect ends; the connection of a stopped client is closed;
  and a loop that pauses again and again in a stopped client sees some time that it is.
\<close>

definition udp_client_run ::
  "'b retry_policy \<Rightarrow> (string option list \<Rightarrow> string option) \<Rightarrow> (client_end option list \<Rightarrow> client_end option) \<Rightarrow>
   ('b, 'conn) udp_client \<Rightarrow> (nat \<Rightarrow> ('b, 'conn) udp_client) \<Rightarrow> (nat \<Rightarrow> 'conn udp_client_event) \<Rightarrow> bool" where
  "udp_client_run p wait gwait s0 run ev \<longleftrightarrow>
     run 0 = s0 \<and> (\<forall>i. udp_client_step p wait gwait (run i) (ev i) (run (Suc i)))"

definition goroutines_run :: "(nat \<Rightarrow> ('b, 'conn) udp_client) \<Rightarrow> (nat \<Rightarrow> 'conn udp_client_event) \<Rightarrow> bool" where
  "goroutines_run run ev \<longleftrightarrow>
     (\<forall>i. \<exists>j\<ge>i. \<not> (in_running (udp_run (run j)) \<and> context_done (udp_run (run j)))) \<and>
     (\<forall>i. \<exists>j\<ge>i. ev j = ListenerReturns \<or> in_running (udp_run (run j)) \<or> out_running (udp_run (run j)) \<or> udp_over (run j)) \<and>
     (\<forall>i. \<exists>j\<ge>i. ev j = TcpReturns \<or> \<not> remotes_cancelled (run j) \<or> tcp_listeners (run j) = 0) \<and>
     (\<forall>i. \<exists>j\<ge>i. ev j = BindReturns \<or> \<not> udp_over (run j) \<or> tcp_listeners (run j) > 0 \<or> bind_result (run j) \<noteq> None) \<and>
     (\<forall>i. \<exists>j\<ge>i. ev j = WaitReturns \<or> client_result (run j) \<noteq> None \<or> bind_result (run j) = None \<or>
        outcome (client_loop (run j)) = Running)"

definition loop_goes_on :: "(nat \<Rightarrow> ('b, 'conn) udp_client) \<Rightarrow> (nat \<Rightarrow> 'conn udp_client_event) \<Rightarrow> bool" where
  "loop_goes_on run ev \<longleftrightarrow>
     (\<forall>i. \<exists>j\<ge>i. phase (client_loop (run j)) \<noteq> Attempting) \<and>
     (\<forall>i. \<exists>j\<ge>i. \<not> (client_stopped (run j) \<and> (\<exists>k. phase (client_loop (run j)) = Up k))) \<and>
     ((\<forall>i. \<exists>j\<ge>i. client_stopped (run j) \<and> (\<exists>a. phase (client_loop (run j)) = Pausing a)) \<longrightarrow>
        (\<forall>i. \<exists>j\<ge>i. ev j = LoopMoves SeesCancel))"

lemma stays:
  assumes "\<And>j. j \<ge> (k::nat) \<Longrightarrow> P j \<Longrightarrow> P (Suc j)" "P k" "j \<ge> k"
  shows "P j"
  using assms(3) by (induction rule: dec_induct) (use assms(1,2) in auto)

lemma client_loop_step:
  assumes "udp_client_step p wait gwait s e s'"
  shows "phase (client_loop s') = phase (client_loop s) \<or> (\<exists>e'. e = LoopMoves e' \<and> loop_step p (client_loop s) e' (client_loop s'))"
  using assms by (auto elim!: udp_client_stepE simp: loop_in_tunnel_def stop_client_def)

lemma udp_client_runD:
  assumes "udp_client_run p wait gwait (udp_client_init c b l n) run ev" "errgroup_law wait" "errgroup_law gwait"
  shows "udp_client_step p wait gwait (run i) (ev i) (run (Suc i))" "results_inv wait (run i)"
    "phase (client_loop (run i)) = LoopOver r \<Longrightarrow> r \<noteq> Running"
proof -
  show step: "udp_client_step p wait gwait (run i) (ev i) (run (Suc i))" for i
    using assms(1) by (simp add: udp_client_run_def)
  show "results_inv wait (run i)"
  proof (induction i)
    case 0
    with assms(1) results_init show ?case by (metis udp_client_run_def)
  next
    case (Suc i)
    with results_step [OF step] assms(2,3) show ?case by blast
  qed
  have "\<forall>r. phase (client_loop (run i)) = LoopOver r \<longrightarrow> r \<noteq> Running"
  proof (induction i)
    case 0
    with assms(1) show ?case by (simp add: udp_client_run_def udp_client_init_def loop_init_def)
  next
    case (Suc i)
    with client_loop_step [OF step, of i] loop_over_ended show ?case by metis
  qed
  then show "phase (client_loop (run i)) = LoopOver r \<Longrightarrow> r \<noteq> Running" by blast
qed

lemma step_keeps:
  assumes "udp_client_step p wait gwait s e s'"
  shows "udp_over s \<Longrightarrow> udp_over s'" "remotes_failed s \<Longrightarrow> remotes_failed s'" "tcp_listeners s' \<le> tcp_listeners s"
    "bind_result s \<noteq> None \<Longrightarrow> bind_result s' = bind_result s" "client_result s \<noteq> None \<Longrightarrow> client_result s' = client_result s"
    "udp_run s' = udp_run s \<or> (\<exists>e. udp_run s' = listener_step e (udp_run s))"
  using assms by (auto elim!: udp_client_stepE)

lemma loop_stays_over: "loop_step p s e s' \<Longrightarrow> phase s = LoopOver r \<Longrightarrow> phase s' = LoopOver r"
  by (auto elim!: loop_stepE)

subsection \<open>How the client ends\<close>

text \<open>A listener whose outbound loop has found no connection.\<close>

definition listener_failed :: "'conn listener_run \<Rightarrow> bool" where
  "listener_failed l \<longleftrightarrow> \<not> out_running l \<and> context_done l \<and> first_error (returned l) = Some ''outbound-udpchan''"

lemma listener_failed_step: "listener_failed l \<Longrightarrow> listener_failed (listener_step e l)"
  by (simp add: listener_failed_def listener_step_keeps listener_step_ended)

lemma listener_leads_to_over:
  assumes run: "\<And>i. udp_client_step p wait gwait (run i) (ev i) (run (Suc i))" and fair: "goroutines_run run ev"
    and failed: "listener_failed (udp_run (run k))"
  shows "\<exists>j\<ge>k. udp_over (run j) \<and> listener_failed (udp_run (run j))"
proof -
  have failed_stays: "listener_failed (udp_run (run j))" if "j \<ge> k" for j
    by (rule stays [of k]) (use failed step_keeps(6) [OF run] listener_failed_step that in metis)+
  obtain m where m: "m \<ge> k" "\<not> in_running (udp_run (run m))"
    using fair failed_stays unfolding goroutines_run_def listener_failed_def by blast
  have in_stays: "\<not> in_running (udp_run (run j))" if "j \<ge> m" for j
  proof (rule stays [of m _ j])
    show "\<not> in_running (udp_run (run (Suc i)))" if "i \<ge> m" "\<not> in_running (udp_run (run i))" for i
    proof -
      have "listener_failed (udp_run (run i))" using failed_stays m(1) that(1) by simp
      with step_keeps(6) [OF run, of i] listener_step_over [OF that(2)] that(2) show ?thesis
        unfolding listener_failed_def by metis
    qed
  qed (use m(2) that in auto)
  obtain j where j: "j \<ge> m" "ev j = ListenerReturns \<or> in_running (udp_run (run j)) \<or> out_running (udp_run (run j)) \<or> udp_over (run j)"
    using fair unfolding goroutines_run_def by blast
  show ?thesis
  proof (cases "udp_over (run j)")
    case False
    with j in_stays failed_stays m(1) have "ev j = ListenerReturns" by (auto simp: listener_failed_def)
    with run [of j] have "udp_over (run (Suc j))" by (auto elim: udp_client_stepE)
    with j m(1) failed_stays show ?thesis by (intro exI [of _ "Suc j"]) auto
  qed (use j(1) m(1) failed_stays le_trans in blast)
qed

lemma tcp_leads_to_none:
  assumes run: "\<And>i. udp_client_step p wait gwait (run i) (ev i) (run (Suc i))" and fair: "goroutines_run run ev"
    and failed: "remotes_failed (run k)"
  shows "\<exists>j\<ge>k. tcp_listeners (run j) = 0"
  using failed
proof (induction "tcp_listeners (run k)" arbitrary: k rule: less_induct)
  case less
  obtain j where j: "j \<ge> k" "ev j = TcpReturns \<or> \<not> remotes_cancelled (run j) \<or> tcp_listeners (run j) = 0"
    using fair unfolding goroutines_run_def by blast
  have failed: "remotes_failed (run i)" if "i \<ge> k" for i
    by (rule stays [of k]) (use less.prems step_keeps(2) [OF run] that in auto)
  have below: "tcp_listeners (run j) \<le> tcp_listeners (run k)"
    by (rule stays [of k "\<lambda>i. tcp_listeners (run i) \<le> tcp_listeners (run k)"]) (use step_keeps(3) [OF run] j(1) le_trans in blast)+
  show ?case
  proof (cases "tcp_listeners (run j) = 0")
    case False
    with j failed have "ev j = TcpReturns" by (simp add: remotes_cancelled_def)
    with run [of j] have "tcp_listeners (run (Suc j)) < tcp_listeners (run j)" by (auto elim: udp_client_stepE)
    with below failed j(1) less.hyps [of "Suc j"] show ?thesis by (metis Suc_leD le_SucI le_trans order_less_le_trans)
  qed (use j(1) in blast)
qed

text \<open>What binding the remotes returns once the listener has failed.\<close>

lemma failed_results:
  assumes "results_inv wait s" "errgroup_law wait" "udp_over s" "listener_failed (udp_run s)"
  shows "remotes_failed s" "first_error (results s) = Some ''outbound-udpchan''"
    "bind_result s \<noteq> None \<Longrightarrow> bind_result s = Some (Some (ProxyEnded ''outbound-udpchan'')) \<and> client_stopped s"
  using assms by (auto simp: results_inv_def listener_failed_def BindRemotes_returns_def errgroup_law_def)

lemma up_goes_to:
  "loop_step p s e s' \<Longrightarrow> phase s = Up c \<Longrightarrow>
   phase s' = Up c \<or> (\<exists>a. phase s' = Pausing a) \<or> (\<exists>r. phase s' = LoopOver r)"
  by (auto elim!: loop_stepE simp: after_attempt_eq)

lemma stopped_leads_to_over:
  assumes run: "\<And>i. udp_client_step p wait gwait (run i) (ev i) (run (Suc i))" and ended: "\<And>i r. phase (client_loop (run i)) = LoopOver r \<Longrightarrow> r \<noteq> Running"
    and fair: "loop_goes_on run ev" and stop: "client_stopped (run k)"
  shows "\<exists>j\<ge>k. outcome (client_loop (run j)) \<noteq> Running"
proof (rule ccontr)
  assume "\<not> ?thesis"
  then have going: "phase (client_loop (run j)) \<noteq> LoopOver r" if "j \<ge> k" for j r
    using that ended [of j] by (auto simp: outcome_def split: loop_phase.splits)
  have stopped: "client_stopped (run j)" if "j \<ge> k" for j
    by (rule stays [of k]) (use stop client_stays_stopped [OF run] that in auto)
  have "\<exists>j\<ge>i. client_stopped (run j) \<and> (\<exists>a. phase (client_loop (run j)) = Pausing a)" for i
  proof -
    let ?i = "max i k"
    obtain m where m: "m \<ge> ?i" "phase (client_loop (run m)) \<noteq> Attempting"
      using fair unfolding loop_goes_on_def by blast
    show ?thesis
    proof (cases "phase (client_loop (run m))")
      case (Up c)
      then obtain n where n: "n \<ge> m" "\<not> (\<exists>c. phase (client_loop (run n)) = Up c)"
        using fair stopped m(1) unfolding loop_goes_on_def by (meson le_trans max.boundedE)
      have "\<exists>j. j \<ge> m \<and> (\<exists>a. phase (client_loop (run j)) = Pausing a)"
      proof (rule ccontr)
        assume none: "\<nexists>j. j \<ge> m \<and> (\<exists>a. phase (client_loop (run j)) = Pausing a)"
        have "\<exists>c. phase (client_loop (run j)) = Up c" if "j \<ge> m" for j
        proof (rule stays [of m])
          show "\<exists>c. phase (client_loop (run (Suc j))) = Up c" if "j \<ge> m" "\<exists>c. phase (client_loop (run j)) = Up c" for j
          proof -
            have "phase (client_loop (run (Suc j))) \<noteq> LoopOver r" "phase (client_loop (run (Suc j))) \<noteq> Pausing a" for r a
              using going [of "Suc j"] none that(1) m(1) by auto
            with client_loop_step [OF run, of j] that(2) show ?thesis using up_goes_to by metis
          qed
        qed (use Up that in auto)
        with n show False by blast
      qed
      with m(1) stopped show ?thesis by (meson le_trans max.boundedE)
    next
      case (Pausing a)
      with m(1) stopped show ?thesis by (intro exI [of _ m]) auto
    qed (use m going in auto)
  qed
  then have "\<forall>i. \<exists>j\<ge>i. ev j = LoopMoves SeesCancel" using fair unfolding loop_goes_on_def by blast
  then obtain j where "j \<ge> k" "ev j = LoopMoves SeesCancel" by blast
  with run [of j] going [of "Suc j" LoopCancelled] show False by (auto elim!: udp_client_stepE loop_stepE)
qed

text \<open>
  C34: a client with a udp remote ends when its listener looks for a connection and there is
  none, whatever its number of retries, unlimited ones included. From the moment on at which the outbound
  loop gets no connection from the tunnel, which after a lost connection it gets at once instead of
  waiting for the next, the client comes to its end, however its goroutines interleave, whether the
  loop connects again or not, and even if connections are bound in the meantime: the listener
  returns that error, its remotes are unbound, the connection loop is cancelled, \<open>Wait\<close>
  returns the error and the process ends with status 1.
\<close>

theorem udp_remote_ends_client:
  assumes run: "udp_client_run p wait gwait (udp_client_init c b l n) run ev" and laws: "errgroup_law wait" "errgroup_law gwait"
    and fair: "goroutines_run run ev" "loop_goes_on run ev"
    and look: "ev i = ListenerMoves (OutboundRound None open_channel decoded resolves write_ok)"
      "out_running (udp_run (run i))" "outbound (listener_state (udp_run (run i))) = None"
      "first_error (returned (udp_run (run i))) = None"
  shows "\<exists>j\<ge>i. \<exists>x. client_result (run j) = Some x \<and> x = Some (ProxyEnded ''outbound-udpchan'') \<and> client_exit x = 1"
proof -
  note step = udp_client_runD(1) [OF run laws] and inv = udp_client_runD(2) [OF run laws]
  have "udp_run (run (Suc i)) = listener_step (OutboundRound None open_channel decoded resolves write_ok) (udp_run (run i))"
    using step [of i] look(1) by (auto elim: udp_client_stepE)
  from out_round_ends [OF look(2-4) this] have "listener_failed (udp_run (run (Suc i)))" by (simp add: listener_failed_def)
  then have failed: "listener_failed (udp_run (run j))" if "j \<ge> Suc i" for j
    using stays [of "Suc i" "\<lambda>j. listener_failed (udp_run (run j))" j] step_keeps(6) [OF step] listener_failed_step that by metis
  obtain k where k: "k \<ge> Suc i" "udp_over (run k)" using listener_leads_to_over [OF step fair(1) failed] by blast
  have over: "udp_over (run j)" if "j \<ge> k" for j
    by (rule stays [of k]) (use k(2) step_keeps(1) [OF step] that in auto)
  have after: "first_error (results (run j)) = Some ''outbound-udpchan''"
    "bind_result (run j) \<noteq> None \<Longrightarrow> bind_result (run j) = Some (Some (ProxyEnded ''outbound-udpchan'')) \<and> client_stopped (run j)"
    "remotes_failed (run j)" if "j \<ge> k" for j
    using failed_results [OF inv laws(1) over failed, of j] that k(1) by auto
  obtain m where m: "m \<ge> k" "tcp_listeners (run m) = 0" using tcp_leads_to_none [OF step fair(1) after(3)] by blast
  have none: "tcp_listeners (run j) = 0" if "j \<ge> m" for j
  proof (rule stays [of m "\<lambda>j. tcp_listeners (run j) = 0"])
    show "tcp_listeners (run (Suc j)) = 0" if "tcp_listeners (run j) = 0" for j
      using step_keeps(3) [OF step, of j] that by simp
  qed (use m(2) that in auto)
  obtain q where q: "q \<ge> m" "bind_result (run q) \<noteq> None"
  proof -
    obtain q where q: "q \<ge> m" "ev q = BindReturns \<or> \<not> udp_over (run q) \<or> tcp_listeners (run q) > 0 \<or> bind_result (run q) \<noteq> None"
      using fair(1) unfolding goroutines_run_def by blast
    then have "ev q = BindReturns \<or> bind_result (run q) \<noteq> None" using over none m(1) by auto
    then have "bind_result (run q) \<noteq> None \<or> bind_result (run (Suc q)) \<noteq> None"
      using step [of q] by (auto elim: udp_client_stepE)
    with q(1) that show thesis by (meson le_SucI)
  qed
  have bound: "bind_result (run j) \<noteq> None" if "j \<ge> q" for j
    by (rule stays [of q]) (use q(2) step_keeps(4) [OF step] that in auto)
  obtain r where r: "r \<ge> q" "outcome (client_loop (run r)) \<noteq> Running"
    using stopped_leads_to_over [OF step udp_client_runD(3) [OF run laws] fair(2), where k = q] after(2) q m(1) by (meson le_trans)
  have ended: "outcome (client_loop (run j)) \<noteq> Running" if "j \<ge> r" for j
  proof (rule stays [of r "\<lambda>j. outcome (client_loop (run j)) \<noteq> Running"])
    show "outcome (client_loop (run (Suc j))) \<noteq> Running" if now: "outcome (client_loop (run j)) \<noteq> Running" for j
    proof -
      obtain e where e: "phase (client_loop (run j)) = LoopOver e"
        using now by (cases "phase (client_loop (run j))") (auto simp: outcome_def)
      with client_loop_step [OF step, of j] loop_stays_over have "phase (client_loop (run (Suc j))) = LoopOver e" by metis
      with now e show ?thesis by (simp add: outcome_def)
    qed
  qed (use r that in auto)
  obtain t where t: "t \<ge> r" "client_result (run t) \<noteq> None"
  proof -
    obtain t where t: "t \<ge> r" "ev t = WaitReturns \<or> client_result (run t) \<noteq> None \<or> bind_result (run t) = None \<or>
        outcome (client_loop (run t)) = Running"
      using fair(1) unfolding goroutines_run_def by blast
    then have "ev t = WaitReturns \<or> client_result (run t) \<noteq> None" using bound ended r(1) by auto
    then have "client_result (run t) \<noteq> None \<or> client_result (run (Suc t)) \<noteq> None"
      using step [of t] by (auto elim: udp_client_stepE)
    with t(1) that show thesis by (meson le_SucI)
  qed
  have "client_result (run t) = bind_result (run t)" using inv [of t] t(2) by (simp add: results_inv_def)
  with after(2) [of t] bound [of t] t(1) r(1) q(1) m(1) k(1) show ?thesis
    by (intro exI [of _ t]) (auto simp: client_exit_def)
qed

subsection \<open>A sample run\<close>

text \<open>
  A client with a udp remote and a TCP one that retries without a limit. It connects, loses the
  connection, and its listener asks the tunnel for one before it has connected again.
\<close>

definition sample_listener :: "nat listener_run" where
  "sample_listener = \<lparr>listener_state = \<lparr>udp_remote = empty_remote False, udp_inbound = ''0.0.0.0:5353'', maxMTU = 9012,
     outbound = None, udp_sent = 0, udp_recv = 0\<rparr>, context_done = False, in_running = True, out_running = True, returned = []\<rparr>"

definition no_connection :: "nat listener_event" where
  "no_connection = OutboundRound None (\<lambda>_ _. None) DecodeEOF (\<lambda>_. True) True"

definition lost_error :: "string option" where
  "lost_error = Some ''outbound-udpchan''"

definition sample_loop :: "nat \<Rightarrow> (nat, nat) loop_state" where
  "sample_loop i =
     (if i = 0 then loop_init sample_tunnel_config 0
      else if i = 1 then \<lparr>phase = Up 7, backoff_state = 0, loop_tunnel = tunnel_up 0, rounds = []\<rparr>
      else \<lparr>phase = (if i \<ge> 11 then LoopOver LoopCancelled else Pausing up_attempt), backoff_state = 1,
        loop_tunnel = (if i = 2 then tunnel_lost 0
          else (tunnel_between 1)\<lparr>waiting := of_bool (i = 4), woken := of_bool (i = 5), stopped := i \<ge> 10\<rparr>),
        rounds = (if i \<ge> 11 then [(up_attempt, ContextDone)] else [])\<rparr>)"

definition sample_client_run :: "nat \<Rightarrow> (nat, nat) udp_client" where
  "sample_client_run i = \<lparr>client_loop = sample_loop i,
     udp_run = (if i < 6 then sample_listener
       else if i = 6 then sample_listener\<lparr>out_running := False, returned := [lost_error], context_done := True\<rparr>
       else sample_listener\<lparr>out_running := False, in_running := False, returned := [lost_error, None], context_done := True\<rparr>),
     udp_over = (i \<ge> 8), tcp_listeners = of_bool (i < 9),
     results = (if i < 8 then [] else if i = 8 then [lost_error] else [lost_error, None]), remotes_failed = (i \<ge> 8),
     bind_result = (if i < 10 then None else Some (map_option ProxyEnded lost_error)), loop_was_first = False,
     client_result = (if i < 12 then None else Some (map_option ProxyEnded lost_error))\<rparr>"

definition sample_client_events :: "nat \<Rightarrow> nat udp_client_event" where
  "sample_client_events i =
     (if i < 12 then [LoopMoves (Connects 7), LoopMoves (Disconnects up_attempt), LoopMoves (InTunnel (Unlink 7)),
        LoopMoves (InTunnel Waits), LoopMoves (InTunnel Wakes), ListenerMoves no_connection, ListenerMoves InboundDone,
        ListenerReturns, TcpReturns, BindReturns, LoopMoves SeesCancel, WaitReturns] ! i
      else LoopMoves (InTunnel Stop))"

abbreviation sample_step :: "(nat, nat) udp_client \<Rightarrow> nat udp_client_event \<Rightarrow> (nat, nat) udp_client \<Rightarrow> bool" where
  "sample_step \<equiv> udp_client_step patient_policy first_error first_error"

lemma sample_loop_moves:
  "loop_step patient_policy (sample_loop 0) (Connects 7) (sample_loop 1)"
  "loop_step patient_policy (sample_loop 1) (Disconnects up_attempt) (sample_loop 2)"
  "loop_step patient_policy (sample_loop 2) (InTunnel (Unlink 7)) (sample_loop 3)"
  "loop_step patient_policy (sample_loop 3) (InTunnel Waits) (sample_loop 4)"
  "loop_step patient_policy (sample_loop 4) (InTunnel Wakes) (sample_loop 5)"
  "loop_step patient_policy (sample_loop 10) SeesCancel (sample_loop 11)"
  "i \<ge> 11 \<Longrightarrow> loop_step patient_policy (sample_loop i) (InTunnel Stop) (sample_loop (Suc i))"
proof -
  have t0: "loop_tunnel (sample_loop 0) = tunnel_between 0"
    by (simp add: sample_loop_def loop_init_def tunnel_between_def live_New_def)
  have t3: "loop_tunnel (sample_loop 3) = tunnel_between 1" by (simp add: sample_loop_def tunnel_between_def live_New_def)
  show "loop_step patient_policy (sample_loop 0) (Connects 7) (sample_loop 1)"
    using loop_step.connects [of "sample_loop 0" 7 "tunnel_up 0" patient_policy] tunnel_cycle(1) [of 0] t0
    by (simp add: sample_loop_def loop_init_def)
  show "loop_step patient_policy (sample_loop 1) (Disconnects up_attempt) (sample_loop 2)"
    using loop_step.disconnects [of "sample_loop 1" 7 up_attempt "tunnel_lost 0" patient_policy] tunnel_cycle(2) [of 0]
    by (simp add: sample_loop_def up_attempt_once after_attempt_eq gives_up_def backoff_next_def patient_policy_def)
  show "loop_step patient_policy (sample_loop 2) (InTunnel (Unlink 7)) (sample_loop 3)"
    using loop_step.tunnel [of "sample_loop 2" "Unlink 7" "tunnel_between 1" patient_policy] tunnel_cycle(3) [of 0]
    by (simp add: sample_loop_def tunnel_between_def live_New_def)
  show "loop_step patient_policy (sample_loop 3) (InTunnel Waits) (sample_loop 4)"
    using loop_step.tunnel [of "sample_loop 3" Waits _ patient_policy] tunnel_step.waits [of "loop_tunnel (sample_loop 3)"]
    by (simp add: sample_loop_def tunnel_between_def live_New_def New_def)
  show "loop_step patient_policy (sample_loop 4) (InTunnel Wakes) (sample_loop 5)"
    using loop_step.tunnel [of "sample_loop 4" Wakes _ patient_policy] tunnel_step.wakes [of "loop_tunnel (sample_loop 4)"]
    by (simp add: sample_loop_def tunnel_between_def live_New_def New_def Wait_returns_def)
  show "loop_step patient_policy (sample_loop 10) SeesCancel (sample_loop 11)"
    using loop_step.cancelled [of "sample_loop 10" up_attempt patient_policy] by (simp add: sample_loop_def)
  show "loop_step patient_policy (sample_loop i) (InTunnel Stop) (sample_loop (Suc i))" if "i \<ge> 11"
    using loop_step.tunnel [of "sample_loop i" Stop _ patient_policy, OF tunnel_step.stop] that by (simp add: sample_loop_def)
qed

lemma sample_client_step: "sample_step (sample_client_run i) (sample_client_events i) (sample_client_run (Suc i))"
proof -
  let ?s = sample_client_run
  note defs = sample_client_run_def sample_client_events_def
  have "i \<in> {0, 1, 2, 3, 4, 10} \<or> i \<in> {5, 6, 7} \<or> i \<in> {8, 9, 11} \<or> i \<ge> 12"
    by (simp, presburger)
  then consider "i \<in> {0, 1, 2, 3, 4, 10}" | "i = 5" | "i = 6" | "i = 7" | "i = 8" | "i = 9" | "i = 11" | "i \<ge> 12" by blast
  then show ?thesis
  proof cases
    case 1
    then have "\<exists>e. sample_client_events i = LoopMoves e \<and> loop_step patient_policy (sample_loop i) e (sample_loop (Suc i))"
      using sample_loop_moves(1-6) by (auto simp: sample_client_events_def eval_nat_numeral)
    moreover have "?s (Suc i) = ?s i\<lparr>client_loop := sample_loop (Suc i)\<rparr>" using 1 by (auto simp: defs)
    moreover have "client_loop (?s i) = sample_loop i" by (simp add: defs)
    ultimately show ?thesis using udp_client_step.loop by metis
  next
    case 2
    have "tunnel_step (loop_tunnel (sample_loop 5)) (Got None) (Inr (loop_tunnel (sample_loop 6)))"
      using tunnel_step.reads [of "loop_tunnel (sample_loop 5)"]
      by (simp add: sample_loop_def tunnel_between_def live_New_def New_def)
    with udp_client_step.asks [of no_connection "?s 5" None "loop_tunnel (sample_loop 6)" patient_policy first_error first_error]
    show ?thesis
      by (simp add: 2 defs no_connection_def sample_listener_def loop_in_tunnel_def sample_loop_def runOutbound_round_def
          getUDPChan_def runOutbound_once_def chan_error_eof_def out_returns_def lost_error_def)
  next
    case 3
    with udp_client_step.quiet [of InboundDone "?s 6" patient_policy first_error first_error] show ?thesis
      by (simp add: defs sample_listener_def in_returns_def sample_loop_def)
  next
    case 4
    with udp_client_step.listener_returns [of first_error "?s 7" lost_error patient_policy first_error] show ?thesis
      by (simp add: defs sample_listener_def listener_result_def sample_loop_def lost_error_def)
  next
    case 5
    with udp_client_step.tcp_returns [of "?s 8" patient_policy first_error first_error] show ?thesis
      by (simp add: defs remotes_cancelled_def sample_loop_def)
  next
    case 6
    with udp_client_step.bind_returns [of "?s 9" "map_option ProxyEnded lost_error" first_error patient_policy first_error]
    show ?thesis
      by (simp add: defs sample_loop_def BindRemotes_returns_def lost_error_def outcome_def stop_client_def)
  next
    case 7
    with udp_client_step.wait_returns [of "?s 11" first_error "map_option ProxyEnded lost_error" patient_policy first_error]
    show ?thesis
      by (simp add: defs sample_loop_def outcome_def Client_Wait_def loop_returns_def lost_error_def)
  next
    case 8
    with udp_client_step.loop [of patient_policy "?s i", OF _] sample_loop_moves(7) [of i] show ?thesis
      by (simp add: defs sample_loop_def)
  qed
qed

theorem udp_remote_ends_client_witness:
  "sample_client_run 0 = udp_client_init sample_tunnel_config 0 sample_listener 1 \<and> maxAttempt patient_policy < 0 \<and>
   sample_client_events 5 = ListenerMoves no_connection \<and>
   (\<exists>j\<ge>5. \<exists>x. client_result (sample_client_run j) = Some x \<and> client_exit x = 1)"
proof -
  have init: "sample_client_run 0 = udp_client_init sample_tunnel_config 0 sample_listener 1"
    by (simp add: sample_client_run_def udp_client_init_def sample_loop_def)
  have run: "udp_client_run patient_policy first_error first_error (udp_client_init sample_tunnel_config 0 sample_listener 1)
      sample_client_run sample_client_events"
    using init sample_client_step by (simp add: udp_client_run_def)
  have later: "\<exists>j\<ge>i. P j" if "\<And>j. j \<ge> 12 \<Longrightarrow> P j" for P and i :: nat
    using that [of "max i 12"] by (intro exI [of _ "max i 12"]) simp
  have fair: "goroutines_run sample_client_run sample_client_events"
    unfolding goroutines_run_def
    by (intro conjI allI later) (simp_all add: sample_client_run_def sample_listener_def)
  have over: "phase (client_loop (sample_client_run j)) = LoopOver LoopCancelled" if "j \<ge> 12" for j
    using that by (simp add: sample_client_run_def sample_loop_def)
  then have "\<not> (\<forall>i. \<exists>j\<ge>i. client_stopped (sample_client_run j) \<and> (\<exists>a. phase (client_loop (sample_client_run j)) = Pausing a))"
    by (metis loop_phase.distinct(11))
  moreover have "\<exists>j\<ge>i. phase (client_loop (sample_client_run j)) \<noteq> Attempting"
      "\<exists>j\<ge>i. \<not> (client_stopped (sample_client_run j) \<and> (\<exists>k. phase (client_loop (sample_client_run j)) = Up k))" for i
    by (rule later; simp add: over)+
  ultimately have loop: "loop_goes_on sample_client_run sample_client_events" unfolding loop_goes_on_def by blast
  have look: "sample_client_events 5 = ListenerMoves no_connection" by (simp add: sample_client_events_def)
  have laws: "errgroup_law first_error" "errgroup_law first_error" by (simp_all add: errgroup_law_def)
  have "\<exists>j\<ge>5. \<exists>x. client_result (sample_client_run j) = Some x \<and> x = Some (ProxyEnded ''outbound-udpchan'') \<and> client_exit x = 1"
    by (rule udp_remote_ends_client [OF run laws fair loop look [unfolded no_connection_def]])
      (simp_all add: sample_client_run_def sample_listener_def)
  with init look show ?thesis by (auto simp: patient_policy_def)
qed

end
