(* ===== verification/Channel_System.thy ===== *)
theory Channel_System
  imports Client_Run
begin

section \<open>The channels of several remotes\<close>

text \<open>
  The forward remotes of a client over its successive connections: the proxies of
  share/tunnel/tunnel_in_proxy.go, whose goroutines take a connection from the client's tunnel and
  open a channel on it, and the server's tunnel of each connection (tunnel_out_ssh.go), which
  serves the channels it accepts. A step relation interleaves any number of accepted
  connections of all the remotes with the coming and going of the tunnel's connections.
\<close>

subsection \<open>State\<close>

text \<open>
  \<open>taken\<close> are the goroutines of accepted connections that have called \<open>getSSH\<close> and not gone on yet,
  each with its proxy and what it got; \<open>exits\<close> are the server's tunnels by connection; \<open>chans\<close>
  are the channels with a handler at the server, each with the remote it was opened for.
\<close>

record 'conn channel =
  chan_remote :: Remote
  chan_conn :: 'conn
  chan_service :: channel_service

record 'conn forwarding =
  fwd :: "'conn live_tunnel"
  proxies :: "Proxy list"
  taken_conns :: "(nat \<times> 'conn option) list"
  exits :: "'conn \<Rightarrow> 'conn Tunnel option"
  chans :: "'conn channel list"

definition forwarding_init :: "TunnelConfig \<Rightarrow> Proxy list \<Rightarrow> 'conn forwarding" where
  "forwarding_init tc ps = \<lparr>fwd = live_New tc, proxies = ps, taken_conns = [], exits = (\<lambda>_. None), chans = []\<rparr>"

subsection \<open>Operations\<close>

text \<open>
  Whether a channel opens: its connection is still bound, and the server's handler accepts
  it; \<open>ok\<close> is the outcome of the handler's own \<open>Accept\<close>.
\<close>

definition channel_opens :: "bool \<Rightarrow> 'conn forwarding \<Rightarrow> 'conn \<Rightarrow> bytes \<Rightarrow> bool" where
  "channel_opens ok s c data \<longleftrightarrow> bound (fwd s) = Some c \<and>
     (case exits s c of None \<Rightarrow> False | Some u \<Rightarrow> served (fst (handleSSHChannel ok data u)))"

text \<open>The rest of \<open>pipeRemote\<close> for a goroutine of proxy \<open>i\<close> that got \<open>conn\<close>, up to where its pipe runs.\<close>

definition forward_pipe :: "bool \<Rightarrow> nat \<Rightarrow> 'conn option \<Rightarrow> 'conn forwarding \<Rightarrow> 'conn forwarding" where
  "forward_pipe ok i conn s =
     (let (res, p) = pipeRemote conn (channel_opens ok s) (proxies s ! i);
          s = s\<lparr>proxies := (proxies s)[i := p], taken_conns := remove1 (i, conn) (taken_conns s)\<rparr>
      in case res of
           NoConnection \<Rightarrow> s
         | StreamError \<Rightarrow> s
         | Piped c data \<Rightarrow>
             (case exits s c of
                None \<Rightarrow> s
              | Some u \<Rightarrow>
                  (let (sv, u') = handleSSHChannel ok data u in
                   s\<lparr>exits := (exits s)(c \<mapsto> u'), chans := \<lparr>chan_remote = proxy_remote p, chan_conn = c, chan_service = sv\<rparr> # chans s\<rparr>)))"

text \<open>The handler of a channel returns: the pipe, the SOCKS server or the connection has ended.\<close>

definition channel_close :: "'conn channel \<Rightarrow> 'conn forwarding \<Rightarrow> 'conn forwarding" where
  "channel_close ch s = s\<lparr>chans := remove1 ch (chans s),
     exits := (exits s)(chan_conn ch := map_option channel_end (exits s (chan_conn ch)))\<rparr>"

subsection \<open>Steps\<close>

datatype 'conn forward_event =
    TunnelMoves "'conn tunnel_event"
  | Dials 'conn
  | Takes nat "'conn option"
  | Pipes nat "'conn option"
  | Returns "'conn channel"

text \<open>
  A connection is bound together with a new session of the server; a proxy's accepted
  connection takes what \<open>getSSH\<close> returns, and goes on with it at any later time; the tunnel's other
  steps and the ends of handlers come at any time.
\<close>

inductive forward_step :: "ServerConfig \<Rightarrow> 'conn forwarding \<Rightarrow> 'conn forward_event \<Rightarrow> 'conn forwarding \<Rightarrow> bool" for sc where
  dials: "tunnel_step (fwd s) (Bind c) (Inr t) \<Longrightarrow> exits s c = None \<Longrightarrow>
    forward_step sc s (Dials c) (s\<lparr>fwd := t, exits := (exits s)(c \<mapsto> New (session_tunnel sc))\<rparr>)"
| moves: "tunnel_step (fwd s) e (Inr t) \<Longrightarrow> \<forall>c. e \<noteq> Bind c \<Longrightarrow> \<forall>r. e \<noteq> Got r \<Longrightarrow>
    forward_step sc s (TunnelMoves e) (s\<lparr>fwd := t\<rparr>)"
| takes: "tunnel_step (fwd s) (Got conn) (Inr t) \<Longrightarrow> i < length (proxies s) \<Longrightarrow>
    Proxy_Run (proxies s ! i) = Inr RunTCP \<Longrightarrow>
    forward_step sc s (Takes i conn) (s\<lparr>fwd := t, taken_conns := (i, conn) # taken_conns s\<rparr>)"
| pipes: "(i, conn) \<in> set (taken_conns s) \<Longrightarrow> forward_step sc s (Pipes i conn) (forward_pipe ok i conn s)"
| returns: "ch \<in> set (chans s) \<Longrightarrow> forward_step sc s (Returns ch) (channel_close ch s)"

inductive_cases forward_stepE: "forward_step sc s e s'"

inductive forward_reachable :: "ServerConfig \<Rightarrow> TunnelConfig \<Rightarrow> Proxy list \<Rightarrow> 'conn forwarding \<Rightarrow> bool" for sc tc ps where
  start: "forward_reachable sc tc ps (forwarding_init tc ps)"
| step: "forward_reachable sc tc ps s \<Longrightarrow> forward_step sc s e s' \<Longrightarrow> forward_reachable sc tc ps s'"

subsection \<open>The invariant\<close>

text \<open>The proxies were made for remotes decoded from their specifications.\<close>

definition decoded_proxies :: "Proxy list \<Rightarrow> bool" where
  "decoded_proxies ps \<longleftrightarrow> (\<forall>p\<in>set ps. \<exists>spec listen. DecodeRemote spec = Inr (proxy_remote p) \<and>
     Proxy_listen listen (proxy_remote p) = Inr (listener p))"

lemma handleSSHChannel_keeps:
  assumes "handleSSHChannel ok extra u = (sv, u')"
  shows "tun_config u' = tun_config u" "socksServer u' = socksServer u"
    and "served sv \<Longrightarrow> handleSSHChannel True extra u = (sv, u')"
  using assms by (auto simp: handleSSHChannel_def Let_def served_def split: prod.splits if_splits)

lemma served_remote:
  assumes dec: "decoded_proxies ps" "p \<in> set ps" "Proxy_Run p = Inr RunTCP"
    and out: "cfg_Outbound (tun_config u)"
    and sv: "handleSSHChannel ok (Remote_Remote (proxy_remote p)) u = (sv, u')" "served sv"
  shows "sv = remote_service (socksServer u) (proxy_remote p)"
proof -
  let ?r = "proxy_remote p"
  obtain spec listen where d: "DecodeRemote spec = Inr ?r" "Proxy_listen listen ?r = Inr (listener p)"
    using dec(1,2) by (auto simp: decoded_proxies_def)
  have run: "\<not> Stdio ?r" "LocalProto ?r = ''tcp''" using dec(3) by (auto simp: Proxy_Run_def split: if_splits)
  then have "RemoteProto ?r = ''tcp''" using decoded_remote_facts [OF d(1)] by auto
  then have "channel_data ?r = Remote_Remote ?r" by (simp add: channel_data_def)
  with decoded_channel [OF d(1) run(1) d(2) out] handleSSHChannel_keeps(3) [OF sv] show ?thesis by simp
qed

definition live_on :: "'conn \<Rightarrow> 'conn forwarding \<Rightarrow> nat" where
  "live_on c s = length (filter (\<lambda>ch. chan_conn ch = c) (chans s))"

definition exit_ok :: "ServerConfig \<Rightarrow> 'conn forwarding \<Rightarrow> 'conn \<Rightarrow> 'conn Tunnel \<Rightarrow> bool" where
  "exit_ok sc s c u \<longleftrightarrow> tun_config u = session_tunnel sc \<and> socksServer u = Socks5 sc \<and>
     conn_open (connStats u) = of_nat (live_on c s)"

definition chan_ok :: "ServerConfig \<Rightarrow> Remote list \<Rightarrow> 'conn forwarding \<Rightarrow> 'conn channel \<Rightarrow> bool" where
  "chan_ok sc rs s ch \<longleftrightarrow> chan_remote ch \<in> set rs \<and> chan_service ch = remote_service (Socks5 sc) (chan_remote ch) \<and>
     exits s (chan_conn ch) \<noteq> None"

definition forward_inv :: "ServerConfig \<Rightarrow> TunnelConfig \<Rightarrow> Proxy list \<Rightarrow> 'conn forwarding \<Rightarrow> bool" where
  "forward_inv sc tc ps s \<longleftrightarrow>
     tunnel_reachable tc (fwd s) \<and>
     map proxy_remote (proxies s) = map proxy_remote ps \<and>
     (\<forall>x\<in>set (taken_conns s). fst x < length ps \<and> Proxy_Run (ps ! fst x) = Inr RunTCP) \<and>
     (\<forall>c u. exits s c = Some u \<longrightarrow> exit_ok sc s c u) \<and>
     (\<forall>ch\<in>set (chans s). chan_ok sc (map proxy_remote ps) s ch)"

lemma forward_invD:
  assumes "forward_inv sc tc ps s"
  shows "tunnel_reachable tc (fwd s)" "map proxy_remote (proxies s) = map proxy_remote ps"
    and "x \<in> set (taken_conns s) \<Longrightarrow> fst x < length ps \<and> Proxy_Run (ps ! fst x) = Inr RunTCP"
    and "exits s c = Some u \<Longrightarrow> exit_ok sc s c u"
    and "ch \<in> set (chans s) \<Longrightarrow> chan_ok sc (map proxy_remote ps) s ch"
  using assms by (auto simp: forward_inv_def)

lemma Proxy_Run_remote: "proxy_remote p = proxy_remote q \<Longrightarrow> Proxy_Run p = Proxy_Run q"
  by (simp add: Proxy_Run_def)

lemma forwarded_remote:
  assumes "forward_inv sc tc ps s" "i < length ps"
  shows "proxy_remote (proxies s ! i) = proxy_remote (ps ! i)" "length (proxies s) = length ps"
    "Proxy_Run (proxies s ! i) = Proxy_Run (ps ! i)"
  using forward_invD(2) [OF assms(1)] assms(2) by (metis length_map nth_map Proxy_Run_remote)+

lemma forward_pipe_cases:
  obtains (none) p where "proxy_remote p = proxy_remote (proxies s ! i)"
      "forward_pipe ok i conn s = s\<lparr>proxies := (proxies s)[i := p], taken_conns := remove1 (i, conn) (taken_conns s)\<rparr>"
  | (piped) p c u u' sv where "proxy_remote p = proxy_remote (proxies s ! i)"
      "exits s c = Some u" "handleSSHChannel ok (Remote_Remote (proxy_remote (proxies s ! i))) u = (sv, u')" "served sv"
      "forward_pipe ok i conn s = s\<lparr>proxies := (proxies s)[i := p], taken_conns := remove1 (i, conn) (taken_conns s),
        exits := (exits s)(c \<mapsto> u'), chans := \<lparr>chan_remote = proxy_remote (proxies s ! i), chan_conn = c, chan_service = sv\<rparr> # chans s\<rparr>"
proof (cases conn)
  case None
  show ?thesis by (rule none) (simp_all add: forward_pipe_def pipeRemote_def None)
next
  case (Some c)
  show ?thesis
  proof (cases "channel_opens ok s c (Remote_Remote (proxy_remote (proxies s ! i)))")
    case True
    then obtain u where "exits s c = Some u" "served (fst (handleSSHChannel ok (Remote_Remote (proxy_remote (proxies s ! i))) u))"
      by (auto simp: channel_opens_def split: option.splits)
    moreover obtain sv u' where h: "handleSSHChannel ok (Remote_Remote (proxy_remote (proxies s ! i))) u = (sv, u')" by fastforce
    ultimately show ?thesis
      by (intro piped [OF _ _ h, of "(proxies s ! i)\<lparr>proxy_count := proxy_count (proxies s ! i) + 1\<rparr>"])
        (simp_all add: forward_pipe_def pipeRemote_def Some True Let_def)
  next
    case False
    show ?thesis by (rule none) (simp_all add: forward_pipe_def pipeRemote_def Some False Let_def)
  qed
qed

lemma live_on_remove:
  assumes "ch \<in> set (chans s)"
  shows "live_on c s = live_on c (channel_close ch s) + (if chan_conn ch = c then 1 else 0)"
proof -
  have "length (filter P xs) = length (filter P (remove1 x xs)) + (if P x then 1 else 0)" if "x \<in> set xs" for P x and xs :: "'b list"
    using that by (induction xs) auto
  from this [OF assms] show ?thesis by (simp add: live_on_def channel_close_def)
qed

lemma forward_pipe_inv:
  assumes inv: "forward_inv sc tc ps s" and dec: "decoded_proxies ps" and i: "(i, conn) \<in> set (taken_conns s)"
  shows "forward_inv sc tc ps (forward_pipe ok i conn s)"
proof -
  have x: "i < length ps" "Proxy_Run (ps ! i) = Inr RunTCP" using forward_invD(3) [OF inv i] by auto
  note same = forwarded_remote [OF inv x(1)]
  have proxies: "map proxy_remote ((proxies s)[i := p]) = map proxy_remote ps" if "proxy_remote p = proxy_remote (proxies s ! i)" for p
    using forward_invD(2) [OF inv] that by (simp add: map_update list_update_same_conv same x(1))
  have taken: "y \<in> set (remove1 (i, conn) (taken_conns s)) \<Longrightarrow> y \<in> set (taken_conns s)" for y
    using set_remove1_subset by fastforce
  show ?thesis
  proof (rule forward_pipe_cases [of s i ok conn])
    fix p
    assume none: "proxy_remote p = proxy_remote (proxies s ! i)"
      "forward_pipe ok i conn s = s\<lparr>proxies := (proxies s)[i := p], taken_conns := remove1 (i, conn) (taken_conns s)\<rparr>"
    with inv proxies [OF none(1)] taken show ?thesis
      by (auto simp: forward_inv_def exit_ok_def live_on_def chan_ok_def)
  next
    fix p c u u' sv
    assume piped: "proxy_remote p = proxy_remote (proxies s ! i)"
      "exits s c = Some u" "handleSSHChannel ok (Remote_Remote (proxy_remote (proxies s ! i))) u = (sv, u')" "served sv"
      "forward_pipe ok i conn s = s\<lparr>proxies := (proxies s)[i := p], taken_conns := remove1 (i, conn) (taken_conns s),
        exits := (exits s)(c \<mapsto> u'), chans := \<lparr>chan_remote = proxy_remote (proxies s ! i), chan_conn = c, chan_service = sv\<rparr> # chans s\<rparr>"
    let ?r = "proxy_remote (ps ! i)"
    have u: "tun_config u = session_tunnel sc" "socksServer u = Socks5 sc" "conn_open (connStats u) = of_nat (live_on c s)"
      using forward_invD(4) [OF inv piped(2)] by (simp_all add: exit_ok_def)
    have sv: "sv = remote_service (Socks5 sc) ?r"
      using served_remote [OF dec _ x(2), of u ok sv u'] x(1) piped(3,4) u(1,2) by (simp add: same session_tunnel_def)
    have u': "tun_config u' = tun_config u" "socksServer u' = socksServer u"
      "conn_open (connStats u') = conn_open (connStats u) + 1"
      using handleSSHChannel_keeps [OF piped(3)] handleSSHChannel_stats [OF piped(3)] piped(4) by simp_all
    show ?thesis
      using inv proxies [OF piped(1)] taken u u' x(1) piped(2)
      by (auto simp: forward_inv_def exit_ok_def live_on_def chan_ok_def piped(5) sv same)
  qed
qed

lemma forward_step_inv:
  assumes step: "forward_step sc s e s'" and inv: "forward_inv sc tc ps s" and dec: "decoded_proxies ps"
  shows "forward_inv sc tc ps s'"
  using step
proof (cases rule: forward_step.cases)
  case (dials c t)
  have "chan_conn ch \<noteq> c" if "ch \<in> set (chans s)" for ch
    using forward_invD(5) [OF inv that] dials(4) by (auto simp: chan_ok_def)
  then have "live_on c s = 0" by (simp add: live_on_def filter_empty_conv)
  with dials inv tunnel_reachable.step [OF forward_invD(1) [OF inv] dials(3)] show ?thesis
    by (auto simp: forward_inv_def exit_ok_def live_on_def chan_ok_def New_def session_tunnel_def)
next
  case (moves e t)
  with inv tunnel_reachable.step [OF forward_invD(1) [OF inv] moves(3)] show ?thesis
    by (auto simp: forward_inv_def exit_ok_def live_on_def chan_ok_def)
next
  case (takes conn t i)
  with inv tunnel_reachable.step [OF forward_invD(1) [OF inv] takes(3)] forwarded_remote [OF inv, of i] show ?thesis
    by (auto simp: forward_inv_def exit_ok_def live_on_def chan_ok_def dest: arg_cong [where f = length])
next
  case (pipes i conn ok)
  with forward_pipe_inv [OF inv dec] show ?thesis by blast
next
  case (returns ch)
  let ?s = "channel_close ch s"
  have "exit_ok sc ?s c u'" if exit: "exits ?s c = Some u'" for c u'
  proof -
    obtain u where u: "exits s c = Some u" "u' = (if c = chan_conn ch then channel_end u else u)"
      using exit by (auto simp: channel_close_def split: if_splits)
    have "(of_nat (live_on c ?s) :: 32 word) = of_nat (live_on c s) - (if chan_conn ch = c then 1 else 0)"
      by (simp add: live_on_remove [OF returns(3), of c])
    with forward_invD(4) [OF inv u(1)] show ?thesis
      by (auto simp: exit_ok_def u(2) channel_end_def ConnCount_Close_def)
  qed
  moreover have "chan_ok sc (map proxy_remote ps) ?s x" if "x \<in> set (chans ?s)" for x
    using that forward_invD(5) [OF inv, of x] set_remove1_subset
    by (fastforce simp: chan_ok_def channel_close_def)
  ultimately show ?thesis
    using inv returns by (simp add: forward_inv_def) (simp add: channel_close_def)
qed

interpretation forwards: stepping "\<lambda>s. s = forwarding_init tc ps" "forward_step sc" "forward_reachable sc tc ps" for sc tc ps
proof unfold_locales
  show "P s" if "forward_reachable sc tc ps s" "\<And>s. s = forwarding_init tc ps \<Longrightarrow> P s"
    "\<And>s e s'. forward_reachable sc tc ps s \<Longrightarrow> P s \<Longrightarrow> forward_step sc s e s' \<Longrightarrow> P s'" for s P
    using that by (induction rule: forward_reachable.induct) blast+
qed (rule forward_reachable.step)

lemma forward_reachable_inv:
  assumes "forward_reachable sc tc ps s" "decoded_proxies ps"
  shows "forward_inv sc tc ps s"
  using assms(1)
proof (rule forwards.reach_rule)
  show "forward_inv sc tc ps s" if "s = forwarding_init tc ps" for s
    using that tunnel_reachable.start by (simp add: forward_inv_def forwarding_init_def)
  show "forward_inv sc tc ps s'" if "forward_inv sc tc ps s" "forward_step sc s e s'" for s e s'
    using that(2,1) assms(2) by (rule forward_step_inv)
qed

lemma client_proxies:
  assumes client: "NewClient url_parse read_file certs_ok load_pair bind c = Inr cl"
    and bound: "client_inbound listen cl (t :: 'conn Tunnel) = (None, ps, t')"
  shows "decoded_proxies ps" "set (map proxy_remote ps) \<subseteq> {r \<in> set (computed_remotes cl). \<not> Reverse r}"
proof -
  let ?rs = "Reversed False (computed_remotes cl)"
  have ps: "set (map proxy_remote ps) \<subseteq> set ?rs \<and> (\<forall>p\<in>set ps. Proxy_listen listen (proxy_remote p) = Inr (listener p))"
  proof (cases "?rs = []")
    case True
    with bound show ?thesis by (simp add: client_inbound_def)
  next
    case False
    then have bind: "BindRemotes listen ?rs t = (None, ps, t')" using bound by (simp add: client_inbound_def)
    then have "cfg_Inbound (tun_config t)" by (auto simp: BindRemotes_def split: if_splits)
    from BindRemotes_facts [OF bind False this] have "map proxy_remote ps = ?rs" by simp
    with BindRemotes_listen [OF bind] show ?thesis by simp
  qed
  then show "set (map proxy_remote ps) \<subseteq> {r \<in> set (computed_remotes cl). \<not> Reverse r}"
    by (auto simp: Reversed_iff)
  show "decoded_proxies ps"
    using ps computed_decoded [OF client] by (fastforce simp: decoded_proxies_def Reversed_iff)
qed

subsection \<open>Remotes do not interfere\<close>

text \<open>
  C7: the forward remotes of a client do not interfere: however the connections accepted for
  them interleave with each other and with the coming, going and rebinding of the tunnel's
  connections, every channel that a server handles was opened for a remote of the client that is not
  reversed, and is served as exactly that remote's: its host and port dialled, or the
  SOCKS server run. And the counter of open channels that the server keeps for a connection
  is, modulo its 32 bits, the number of its channels whose handlers run, so it is zero
  again once they have returned.
\<close>

theorem remotes_do_not_interfere:
  assumes client: "NewClient url_parse read_file certs_ok load_pair bind c = Inr cl"
    and bound: "client_inbound listen cl (New (client_tunnel cl) :: 'conn Tunnel) = (None, ps, t)"
    and reach: "forward_reachable sc (client_tunnel cl) ps (s :: 'conn forwarding)"
  shows "list_all (\<lambda>ch. chan_remote ch \<in> set (computed_remotes cl) \<and> \<not> Reverse (chan_remote ch) \<and>
      chan_service ch = remote_service (Socks5 sc) (chan_remote ch)) (chans s) \<and>
    (\<forall>k u. exits s k = Some u \<longrightarrow> conn_open (connStats u) = of_nat (length (filter (\<lambda>ch. chan_conn ch = k) (chans s))))"
proof -
  note proxies = client_proxies [OF client bound]
  note inv = forward_reachable_inv [OF reach proxies(1)]
  show ?thesis
    using forward_invD(4,5) [OF inv] proxies(2) by (fastforce simp: list_all_iff chan_ok_def exit_ok_def live_on_def)
qed

theorem remotes_do_not_interfere_witness:
  "\<exists>cl ps t (s :: nat forwarding) u. sample_new [''3000:db:22''] = Inr cl \<and>
    client_inbound (\<lambda>_ _. True) cl (New (client_tunnel cl) :: nat Tunnel) = (None, ps, t) \<and>
    forward_reachable sample_config (client_tunnel cl) ps s \<and> map chan_service (chans s) = [ServeTCP ''db:22''] \<and>
    exits s 7 = Some u \<and> conn_open (connStats u) = 1"
proof -
  let ?r = "plain_remote ''0.0.0.0'' ''3000'' ''db'' ''22'' ''tcp'' False"
  have "DecodeRemote ''3000:db:22'' = Inr ?r" by (simp add: decode_eval plain_remote_def)
  then obtain cl where cl: "sample_new [''3000:db:22''] = Inr cl" "computed_remotes cl = [?r]"
    using sample_new_remotes [of "[''3000:db:22'']" "[?r]"] by (auto simp: CanListen_def plain_remote_def)
  define p where "p = \<lparr>proxy_id = 1, proxy_count = 0, proxy_remote = ?r, listener = TcpListener ''0.0.0.0:3000''\<rparr>"
  let ?tc = "client_tunnel cl"
  have "cfg_Inbound ?tc" using sample_new_tunnel [OF cl(1)] by simp
  then obtain t where bound: "client_inbound (\<lambda>_ _. True) cl (New ?tc :: nat Tunnel) = (None, [p], t)"
    by (simp add: client_inbound_def cl(2) New_def BindRemotes_def NewProxy_def Proxy_listen_def plain_remote_def p_def)
  let ?s0 = "forwarding_init ?tc [p] :: nat forwarding"
  let ?t1 = "(live_New ?tc)\<lparr>tun := (New ?tc)\<lparr>activeConn := Some 7\<rparr>, activatingConn := \<lparr>wg_n = 0, wg_inner = 0\<rparr>,
    bound := Some 7, linked := [7], connections := 1\<rparr> :: nat live_tunnel"
  have "tunnel_step (fwd ?s0) (Bind 7) (Inr ?t1)"
    using tunnel_step.bind [of "fwd ?s0" 7] live_ops(1) [OF live_inv_New, of ?tc "7::nat"]
    by (simp add: forwarding_init_def live_New_def)
  from forward_reachable.step [OF forward_reachable.start forward_step.dials [OF this]]
  obtain s1 :: "nat forwarding" where s1: "forward_reachable sample_config ?tc [p] s1" "fwd s1 = ?t1" "proxies s1 = [p]"
      "exits s1 7 = Some (New (session_tunnel sample_config))" "chans s1 = []"
    by (fastforce simp: forwarding_init_def)
  have "tunnel_step (fwd s1) (Got (Some 7)) (Inr (fwd s1))" by (rule tunnel_step.got) (simp add: s1(2))
  from forward_reachable.step [OF s1(1) forward_step.takes [OF this, of 0]]
  obtain s2 :: "nat forwarding" where s2: "forward_reachable sample_config ?tc [p] s2" "fwd s2 = ?t1" "proxies s2 = [p]"
      "exits s2 7 = Some (New (session_tunnel sample_config))" "chans s2 = []" "(0, Some 7) \<in> set (taken_conns s2)"
    using s1 by (fastforce simp: p_def Proxy_Run_def plain_remote_def)
  have reach: "forward_reachable sample_config ?tc [p] (forward_pipe True 0 (Some 7) s2)"
    using s2(1) forward_step.pipes [OF s2(6)] by (rule forward_reachable.step)
  have data: "Remote_Remote ?r = ''db:22''" by (simp add: Remote_Remote_def plain_remote_def)
  have h: "L4Proto ''db:22'' = (''db:22'', '''')" by (rule L4Proto_no_slash) simp
  have one: "\<exists>u. exits (forward_pipe True 0 (Some 7) s2) 7 = Some u \<and>
      chans (forward_pipe True 0 (Some 7) s2) = [\<lparr>chan_remote = ?r, chan_conn = 7, chan_service = ServeTCP ''db:22''\<rparr>]"
    by (simp add: forward_pipe_def pipeRemote_def channel_opens_def s2 p_def data handleSSHChannel_def h New_def
        session_tunnel_def served_def ConnCount_New_def Let_def)
  then obtain u where u: "exits (forward_pipe True 0 (Some 7) s2) 7 = Some u"
      "chans (forward_pipe True 0 (Some 7) s2) = [\<lparr>chan_remote = ?r, chan_conn = 7, chan_service = ServeTCP ''db:22''\<rparr>]"
    by blast
  have "conn_open (connStats u) = 1"
    using remotes_do_not_interfere [OF cl(1) [unfolded sample_new_def] bound reach] u by simp
  with u cl(1) bound reach show ?thesis
    by (intro exI [of _ cl] exI [of _ "[p]"] exI [of _ t] exI [of _ "forward_pipe True 0 (Some 7) s2"] exI [of _ u]) simp
qed

end
