(* ===== verification/Tunnel_Race.thy ===== *)
theory Tunnel_Race
  imports Tunnel_System
begin

section \<open>The wait group among the goroutines of a tunnel\<close>

text \<open>
  The goroutines of a client's tunnel (share/tunnel/tunnel.go) with every atomic access to its
  wait group (share/tunnel/wg.go) as a step of its own: \<open>BindSSH\<close>, the goroutine that links each
  connection to its context, and the calls of \<open>Wait\<close> made for \<open>getSSH\<close>. Tunnel_System takes
  each use of the group as one step; here their parts interleave, and the panics of
  the library's \<open>sync.WaitGroup\<close> are all those that can happen.
\<close>

subsection \<open>The library's wait group\<close>

text \<open>
  \<open>group\<close> holds the visible and the inner counter. \<open>asleep\<close> is the number of calls of the inner
  \<open>Wait\<close> that sleep, \<open>awake\<close> that of the calls which were woken and have not yet looked at the counter
  again. The inner \<open>Add\<close> panics when the counter drops below zero, and when it leaves zero while
  calls sleep; a woken \<open>Wait\<close> panics when it finds the group in use again.
\<close>

datatype done_pc = Loads | Swaps int | Decrements | Releases nat

datatype bind_pc =
    NotBinding
  | Locking nat
  | InDone nat done_pc
  | InUse nat
  | Counting nat
  | Clearing nat

datatype linker_pc = AwaitsContext | Tests | InLoop done_pc | Gone

text \<open>
  \<open>binding\<close> is where the call of \<open>BindSSH\<close> under way is; the connections are numbered in the
  order of the calls. \<open>linkers\<close> says where the goroutine of each connection is. \<open>callers\<close> is the
  number of goroutines about to call \<open>Wait\<close>, and \<open>ended\<close> says whether the client's context is done.
\<close>

record race_state =
  active :: "nat option"
  group :: waitGroup
  asleep :: nat
  awake :: nat
  binding :: bind_pc
  linkers :: "linker_pc list"
  callers :: nat
  ended :: bool

definition race_New :: race_state where
  "race_New = \<lparr>active = None, group = \<lparr>wg_n = 1, wg_inner = 1\<rparr>, asleep = 0, awake = 0, binding = NotBinding,
     linkers = [], callers = 0, ended = False\<rparr>"

definition added_while_waiting :: go_panic where
  "added_while_waiting = PanicCall ''sync: WaitGroup misuse: Add called concurrently with Wait''"

definition reused :: go_panic where
  "reused = PanicCall ''sync: WaitGroup is reused before previous Wait has returned''"

definition double_bind :: go_panic where
  "double_bind = PanicCall ''double bind ssh''"

definition set_n :: "int \<Rightarrow> race_state \<Rightarrow> race_state" where
  "set_n n s = s\<lparr>group := (group s)\<lparr>wg_n := n\<rparr>\<rparr>"

definition sync_Add :: "int \<Rightarrow> race_state \<Rightarrow> go_panic + race_state" where
  "sync_Add k s =
     (let v = wg_inner (group s) + k in
      if v < 0 then Inl negative_counter
      else if asleep s \<noteq> 0 \<and> k > 0 \<and> v = k then Inl added_while_waiting
      else Inr (s\<lparr>group := (group s)\<lparr>wg_inner := v\<rparr>\<rparr>))"

text \<open>The end of an inner \<open>Add\<close> that has brought the counter to zero: the sleeping calls are woken.\<close>

definition sync_release :: "nat \<Rightarrow> race_state \<Rightarrow> go_panic + race_state" where
  "sync_release w s =
     (if wg_inner (group s) \<noteq> 0 \<or> asleep s \<noteq> w then Inl added_while_waiting
      else Inr (s\<lparr>asleep := 0, awake := awake s + w\<rparr>))"

definition sync_Wait :: "race_state \<Rightarrow> race_state" where
  "sync_Wait s = (if wg_inner (group s) = 0 then s else s\<lparr>asleep := Suc (asleep s)\<rparr>)"

definition sync_woken :: "race_state \<Rightarrow> go_panic + race_state" where
  "sync_woken s =
     (if wg_inner (group s) \<noteq> 0 \<or> asleep s \<noteq> 0 then Inl reused else Inr (s\<lparr>awake := awake s - 1\<rparr>))"

subsection \<open>Steps\<close>

text \<open>One step of \<open>Done\<close>, with what is left of the call (none when it has returned).\<close>

fun done_step :: "done_pc \<Rightarrow> race_state \<Rightarrow> go_panic + (done_pc option \<times> race_state)" where
  "done_step Loads s = Inr (if wg_n (group s) > 0 then Some (Swaps (wg_n (group s))) else None, s)"
| "done_step (Swaps n) s = Inr (if wg_n (group s) = n then (Some Decrements, set_n (n - 1) s) else (None, s))"
| "done_step Decrements s =
     (case sync_Add (-1) s of
        Inl p \<Rightarrow> Inl p
      | Inr s' \<Rightarrow> Inr (if wg_inner (group s') = 0 \<and> asleep s' \<noteq> 0 then Some (Releases (asleep s')) else None, s'))"
| "done_step (Releases w) s = map_sum id (Pair None) (sync_release w s)"

definition in_BindSSH :: "nat \<Rightarrow> bind_pc \<Rightarrow> bool" where
  "in_BindSSH c b = (case b of NotBinding \<Rightarrow> False | Locking d \<Rightarrow> d = c | InDone d _ \<Rightarrow> d = c | InUse d \<Rightarrow> d = c
     | Counting d \<Rightarrow> d = c | Clearing d \<Rightarrow> d = c)"

text \<open>
  The events: the next step of \<open>BindSSH\<close> (its start and the end of the connection among them),
  of the goroutine of a connection, and of the calls of \<open>Wait\<close>; and the end of the client. The context of a connection is
  done once the client has ended or the call of \<open>BindSSH\<close> for it has returned.
\<close>

datatype race_event =
    BindStep
  | LinkStep nat
  | ClientEnds
  | Asks
  | CallsWait
  | WakesUp

definition bind_step :: "race_state \<Rightarrow> go_panic + race_state" where
  "bind_step s =
     (case binding s of
        NotBinding \<Rightarrow> Inr (s\<lparr>binding := Locking (length (linkers s)), linkers := linkers s @ [AwaitsContext]\<rparr>)
      | Locking c \<Rightarrow> if active s \<noteq> None then Inl double_bind else Inr (s\<lparr>active := Some c, binding := InDone c Loads\<rparr>)
      | InDone c pc \<Rightarrow>
          (case done_step pc s of
             Inl p \<Rightarrow> Inl p
           | Inr (left, s') \<Rightarrow> Inr (s'\<lparr>binding := (case left of None \<Rightarrow> InUse c | Some pc' \<Rightarrow> InDone c pc')\<rparr>))
      | InUse c \<Rightarrow> Inr ((set_n (wg_n (group s) + 1) s)\<lparr>binding := Counting c\<rparr>)
      | Counting c \<Rightarrow> map_sum id (\<lambda>s'. s'\<lparr>binding := Clearing c\<rparr>) (sync_Add 1 s)
      | Clearing c \<Rightarrow> Inr (s\<lparr>active := None, binding := NotBinding\<rparr>))"

definition link_to :: "nat \<Rightarrow> linker_pc \<Rightarrow> race_state \<Rightarrow> race_state" where
  "link_to c pc s = s\<lparr>linkers := (linkers s)[c := pc]\<rparr>"

definition link_step :: "nat \<Rightarrow> race_state \<Rightarrow> (go_panic + race_state) option" where
  "link_step c s =
     (case linkers s ! c of
        AwaitsContext \<Rightarrow> if ended s \<or> \<not> in_BindSSH c (binding s) then Some (Inr (link_to c Tests s)) else None
      | Tests \<Rightarrow> Some (Inr (link_to c (if wg_n (group s) > 0 then InLoop Loads else Gone) s))
      | InLoop pc \<Rightarrow>
          Some (case done_step pc s of
             Inl p \<Rightarrow> Inl p
           | Inr (left, s') \<Rightarrow> Inr (link_to c (case left of None \<Rightarrow> Tests | Some pc' \<Rightarrow> InLoop pc') s'))
      | Gone \<Rightarrow> None)"

text \<open>None for an event that cannot happen.\<close>

fun race_step :: "race_event \<Rightarrow> race_state \<Rightarrow> (go_panic + race_state) option" where
  "race_step BindStep s = Some (bind_step s)"
| "race_step (LinkStep c) s = (if c < length (linkers s) then link_step c s else None)"
| "race_step ClientEnds s = Some (Inr (s\<lparr>ended := True\<rparr>))"
| "race_step Asks s = (if active s = None then Some (Inr (s\<lparr>callers := Suc (callers s)\<rparr>)) else None)"
| "race_step CallsWait s =
     (if callers s > 0 then Some (Inr (sync_Wait (s\<lparr>callers := callers s - 1\<rparr>))) else None)"
| "race_step WakesUp s = (if awake s > 0 then Some (sync_woken s) else None)"

inductive race_reachable :: "race_state \<Rightarrow> bool" where
  start: "race_reachable race_New"
| step: "race_reachable s \<Longrightarrow> race_step e s = Some (Inr s') \<Longrightarrow> race_reachable s'"

subsection \<open>The invariant\<close>

text \<open>The calls of \<open>Done\<close> under way.\<close>

fun loop_op :: "linker_pc \<Rightarrow> done_pc option" where
  "loop_op (InLoop pc) = Some pc"
| "loop_op _ = None"

fun bind_op :: "bind_pc \<Rightarrow> done_pc option" where
  "bind_op (InDone c pc) = Some pc"
| "bind_op _ = None"

fun opt_mset :: "'a option \<Rightarrow> 'a multiset" where
  "opt_mset None = {#}"
| "opt_mset (Some x) = {#x#}"

definition in_flight :: "race_state \<Rightarrow> done_pc multiset" where
  "in_flight s = opt_mset (bind_op (binding s)) + (\<Sum>l\<leftarrow>linkers s. opt_mset (loop_op l))"

fun counting :: "bind_pc \<Rightarrow> bool" where
  "counting (Counting c) \<longleftrightarrow> True"
| "counting _ \<longleftrightarrow> False"

fun releases :: "done_pc \<Rightarrow> bool" where
  "releases (Releases w) \<longleftrightarrow> True"
| "releases _ \<longleftrightarrow> False"

text \<open>
  The inner counter is the visible one plus the decrements under way, less one while \<open>BindSSH\<close>
  is between the two additions; at most one call is about to wake the sleepers.
\<close>

definition group_inv :: "done_pc multiset \<Rightarrow> bool \<Rightarrow> race_state \<Rightarrow> bool" where
  "group_inv R adding s \<longleftrightarrow>
     (let n = wg_n (group s); v = wg_inner (group s) in
      v = n + int (count R Decrements) - of_bool adding \<and> v \<ge> 0 \<and> n \<in> {0, 1} \<and>
      (\<forall>k. Swaps k \<in># R \<longrightarrow> k = 1) \<and>
      (\<forall>w. Releases w \<in># R \<longrightarrow> v = 0 \<and> asleep s = w \<and> w \<noteq> 0) \<and> size (filter_mset releases R) \<le> 1 \<and>
      (asleep s \<noteq> 0 \<and> v = 0 \<longrightarrow> (\<exists>w. Releases w \<in># R)))"

fun past_swap :: "done_pc \<Rightarrow> bool" where
  "past_swap Decrements \<longleftrightarrow> True"
| "past_swap (Releases w) \<longleftrightarrow> True"
| "past_swap _ \<longleftrightarrow> False"

fun opened :: "bind_pc \<Rightarrow> bool" where
  "opened (InDone c pc) \<longleftrightarrow> past_swap pc"
| "opened (InUse c) \<longleftrightarrow> True"
| "opened _ \<longleftrightarrow> False"

fun bound_conn :: "bind_pc \<Rightarrow> nat option" where
  "bound_conn NotBinding = None"
| "bound_conn (Locking c) = None"
| "bound_conn (InDone c pc) = Some c"
| "bound_conn (InUse c) = Some c"
| "bound_conn (Counting c) = Some c"
| "bound_conn (Clearing c) = Some c"

definition race_inv :: "race_state \<Rightarrow> bool" where
  "race_inv s \<longleftrightarrow>
     group_inv (in_flight s) (counting (binding s)) s \<and>
     (opened (binding s) \<longrightarrow> wg_n (group s) = 0) \<and> active s = bound_conn (binding s)"

lemma no_releases: "filter_mset releases R = {#} \<longleftrightarrow> (\<forall>w. Releases w \<notin># R)"
proof -
  have "filter_mset releases R = {#} \<longleftrightarrow> (\<forall>x\<in>#R. \<not> releases x)"
    by (simp add: filter_mset_eq_conv)
  also have "\<dots> \<longleftrightarrow> (\<forall>w. Releases w \<notin># R)" by (metis releases.elims(2) releases.simps(1))
  finally show ?thesis .
qed

lemma group_invD:
  assumes "group_inv R adding s"
  shows "wg_inner (group s) = wg_n (group s) + int (count R Decrements) - of_bool adding" "wg_inner (group s) \<ge> 0"
    "wg_n (group s) = 0 \<or> wg_n (group s) = 1" "Swaps k \<in># R \<Longrightarrow> k = 1"
    "Releases w \<in># R \<Longrightarrow> wg_inner (group s) = 0 \<and> asleep s = w \<and> w \<noteq> 0"
    "size (filter_mset releases R) \<le> 1" "asleep s \<noteq> 0 \<Longrightarrow> wg_inner (group s) = 0 \<Longrightarrow> \<exists>w. Releases w \<in># R"
  using assms by (auto simp: group_inv_def Let_def)

text \<open>What a step of \<open>Done\<close> does to the counters when it does not panic.\<close>

lemma done_loads:
  assumes "group_inv (add_mset Loads R) adding s"
  shows "group_inv (opt_mset (if wg_n (group s) > 0 then Some (Swaps (wg_n (group s))) else None) + R) adding s"
  using assms by (auto simp: group_inv_def Let_def)

lemma done_swaps:
  assumes "group_inv (add_mset (Swaps k) R) adding s"
  shows "if wg_n (group s) = k then group_inv (add_mset Decrements R) adding (set_n (k - 1) s) else group_inv R adding s"
  using assms by (auto simp: group_inv_def Let_def set_n_def)

lemma done_decrements:
  assumes inv: "group_inv (add_mset Decrements R) adding s" and s': "sync_Add (-1) s = Inr s'"
  shows "group_inv (opt_mset (if wg_inner (group s') = 0 \<and> asleep s' \<noteq> 0 then Some (Releases (asleep s')) else None) + R) adding s'"
proof -
  note d = group_invD [OF inv]
  have s'_def: "s' = s\<lparr>group := (group s)\<lparr>wg_inner := wg_inner (group s) - 1\<rparr>\<rparr>" and pos: "wg_inner (group s) > 0"
    using s' by (auto simp: sync_Add_def Let_def split: if_splits)
  have none: "Releases w \<notin># R" for w using d(5) [of w] pos by auto
  then have empty: "filter_mset releases R = {#}" using no_releases [of R] by blast
  with d(1,3,4) pos none show ?thesis by (auto simp: group_inv_def Let_def s'_def empty)
qed

lemma done_releases:
  assumes inv: "group_inv (add_mset (Releases w) R) adding s"
  shows "sync_release w s = Inr (s\<lparr>asleep := 0, awake := awake s + w\<rparr>) \<and>
    group_inv R adding (s\<lparr>asleep := 0, awake := awake s + w\<rparr>)"
proof -
  note d = group_invD [OF inv]
  have empty: "filter_mset releases R = {#}" using d(6) by simp
  then have none: "Releases v \<notin># R" for v using no_releases [of R] by blast
  with d show ?thesis by (auto simp: group_inv_def Let_def sync_release_def empty)
qed

lemma done_step_inv:
  assumes "done_step pc s = Inr (left, s')" "group_inv (add_mset pc R) adding s"
  shows "group_inv (opt_mset left + R) adding s'"
  using assms done_loads [of R adding s] done_swaps [of _ R adding s] done_decrements [of R adding s] done_releases [of _ R adding s]
  by (cases pc) (auto split: if_splits sum.splits)

lemma done_step_keeps:
  assumes "done_step pc s = Inr (left, s')"
  shows "binding s' = binding s" "linkers s' = linkers s" "active s' = active s" "ended s' = ended s" "callers s' = callers s"
  using assms by (cases pc; auto simp: set_n_def sync_Add_def sync_release_def Let_def split: if_splits sum.splits)+

text \<open>Past its swap, a call of \<open>Done\<close> has seen the group open.\<close>

lemma done_step_opens:
  assumes "done_step pc s = Inr (left, s')" "group_inv (add_mset pc R) adding s" "past_swap pc \<Longrightarrow> wg_n (group s) = 0"
    "case left of None \<Rightarrow> True | Some pc' \<Rightarrow> past_swap pc'"
  shows "wg_n (group s') = 0"
  using assms group_invD(3,4) [OF assms(2)]
  by (cases pc) (auto simp: set_n_def sync_Add_def sync_release_def Let_def split: if_splits sum.splits)

lemma done_step_lowers:
  assumes "done_step pc s = Inr (left, s')" "group_inv (add_mset pc R) adding s" "wg_n (group s) = 0"
  shows "wg_n (group s') = 0"
proof -
  have "pc = Swaps k \<Longrightarrow> k = 1" for k using group_invD(4) [OF assms(2), of k] by simp
  with assms show ?thesis
    by (cases pc) (auto simp: set_n_def sync_Add_def sync_release_def Let_def split: if_splits sum.splits)
qed

subsection \<open>Every step keeps the invariant\<close>

lemma in_flight_binding: "in_flight (s\<lparr>binding := b\<rparr>) + opt_mset (bind_op (binding s)) = in_flight s + opt_mset (bind_op b)"
  by (simp add: in_flight_def)

lemma link_to_flight:
  assumes "c < length (linkers s)"
  obtains R where "in_flight s = opt_mset (loop_op (linkers s ! c)) + R"
    "\<And>t l. binding t = binding s \<Longrightarrow> linkers t = linkers s \<Longrightarrow> in_flight (link_to c l t) = opt_mset (loop_op l) + R"
proof
  let ?f = "\<lambda>ls. \<Sum>l\<leftarrow>ls. opt_mset (loop_op l)"
  let ?R = "opt_mset (bind_op (binding s)) + ?f (take c (linkers s)) + ?f (drop (Suc c) (linkers s))"
  have upd: "?f ((linkers s)[c := l]) = ?f (take c (linkers s)) + opt_mset (loop_op l) + ?f (drop (Suc c) (linkers s))" for l
    using assms by (simp add: upd_conv_take_nth_drop)
  show "in_flight s = opt_mset (loop_op (linkers s ! c)) + ?R"
    using upd [of "linkers s ! c"] by (simp add: in_flight_def)
  show "in_flight (link_to c l t) = opt_mset (loop_op l) + ?R" if "binding t = binding s" "linkers t = linkers s" for t l
    using upd [of l] that by (simp add: in_flight_def link_to_def)
qed

lemma group_inv_other:
  "group_inv R adding t" if "group_inv R adding s" "group t = group s" "asleep t = asleep s"
  using that by (simp add: group_inv_def)

lemma group_inv_loads: "group_inv R adding s \<Longrightarrow> group_inv (add_mset Loads R) adding s"
  by (auto simp: group_inv_def Let_def)

lemma group_inv_counts:
  assumes "group_inv R False s" "wg_n (group s) = 0"
  shows "group_inv R True (set_n (wg_n (group s) + 1) s)"
  using assms by (auto simp: group_inv_def Let_def set_n_def)

lemma group_inv_adds:
  assumes inv: "group_inv R True s" and t: "sync_Add 1 s = Inr t"
  shows "group_inv R False t \<and> binding t = binding s \<and> linkers t = linkers s \<and> active t = active s \<and> wg_n (group t) = wg_n (group s)"
proof -
  note d = group_invD [OF inv]
  have t_def: "t = s\<lparr>group := (group s)\<lparr>wg_inner := wg_inner (group s) + 1\<rparr>\<rparr>"
    and "asleep s = 0 \<or> wg_inner (group s) \<noteq> 0"
    using t by (auto simp: sync_Add_def Let_def split: if_splits)
  then have none: "Releases w \<notin># R" for w using d(5) [of w] by auto
  with d show ?thesis by (simp add: group_inv_def Let_def t_def)
qed

lemma group_inv_waits:
  assumes "group_inv R adding s"
  shows "group_inv R adding (sync_Wait s)"
proof (cases "wg_inner (group s) = 0")
  case False
  then have "Releases w \<notin># R" for w using group_invD(5) [OF assms, of w] by auto
  with False group_invD [OF assms] show ?thesis by (simp add: group_inv_def Let_def sync_Wait_def)
qed (use assms in \<open>simp add: sync_Wait_def\<close>)

lemma race_New_inv: "race_inv race_New"
  by (simp add: race_inv_def race_New_def group_inv_def in_flight_def)

lemma link_step_inv:
  assumes "link_step c s = Some (Inr s')" "c < length (linkers s)" and inv: "race_inv s"
  shows "race_inv s'"
proof -
  obtain R where R: "in_flight s = opt_mset (loop_op (linkers s ! c)) + R"
    "\<And>t l. binding t = binding s \<Longrightarrow> linkers t = linkers s \<Longrightarrow> in_flight (link_to c l t) = opt_mset (loop_op l) + R"
    using link_to_flight [OF assms(2)] by blast
  have g: "group_inv (in_flight s) (counting (binding s)) s" "opened (binding s) \<Longrightarrow> wg_n (group s) = 0"
    "active s = bound_conn (binding s)" using inv by (auto simp: race_inv_def)
  have moved: "race_inv (link_to c l t)"
    if "binding t = binding s" "linkers t = linkers s" "active t = active s" "opened (binding s) \<Longrightarrow> wg_n (group t) = 0"
      "group_inv (opt_mset (loop_op l) + R) (counting (binding s)) t" for t l
    using that R(2) [OF that(1,2), of l] g(3) group_inv_other [OF that(5), of "link_to c l t"]
    by (simp add: race_inv_def link_to_def)
  show ?thesis
  proof (cases "linkers s ! c")
    case (InLoop pc)
    with assms(1) obtain left t where t: "done_step pc s = Inr (left, t)"
        "s' = link_to c (case left of None \<Rightarrow> Tests | Some pc' \<Rightarrow> InLoop pc') t"
      by (auto simp: link_step_def split: sum.split_asm prod.split_asm)
    have inv': "group_inv (add_mset pc R) (counting (binding s)) s" using g(1) R(1) InLoop by simp
    from done_step_inv [OF t(1) this] done_step_keeps [OF t(1)] done_step_lowers [OF t(1) inv'] g(2)
    show ?thesis unfolding t(2) by (intro moved) (auto split: option.splits)
  next
    case AwaitsContext
    with assms(1) R(1) g(1,2) show ?thesis by (auto simp: link_step_def split: if_splits intro!: moved)
  next
    case Tests
    with assms(1) R(1) g(1,2) group_inv_loads [OF g(1)] show ?thesis
      by (auto simp: link_step_def split: if_splits intro!: moved)
  next
    case Gone
    with assms(1) show ?thesis by (simp add: link_step_def)
  qed
qed

lemma bind_step_inv:
  assumes "bind_step s = Inr s'" and inv: "race_inv s"
  shows "race_inv s'"
proof -
  let ?L = "\<Sum>l\<leftarrow>linkers s. opt_mset (loop_op l)"
  have g: "group_inv (in_flight s) (counting (binding s)) s" "opened (binding s) \<Longrightarrow> wg_n (group s) = 0"
    "active s = bound_conn (binding s)" using inv by (auto simp: race_inv_def)
  show ?thesis
  proof (cases "binding s")
    case (InDone c pc)
    with assms(1) obtain left t where t: "done_step pc s = Inr (left, t)"
        "s' = t\<lparr>binding := (case left of None \<Rightarrow> InUse c | Some pc' \<Rightarrow> InDone c pc')\<rparr>"
      by (auto simp: bind_step_def split: sum.split_asm prod.split_asm)
    have inv': "group_inv (add_mset pc ?L) False s" using g(1) InDone by (simp add: in_flight_def)
    from done_step_inv [OF t(1) inv'] have "group_inv (opt_mset left + ?L) False s'"
      by (rule group_inv_other) (simp_all add: t(2))
    moreover have "opened (binding s') \<Longrightarrow> wg_n (group s') = 0"
      using done_step_opens [OF t(1) inv'] g(2) InDone by (auto simp: t(2) split: option.splits)
    ultimately show ?thesis
      using done_step_keeps [OF t(1)] g(3) InDone by (cases left) (auto simp: race_inv_def in_flight_def t(2))
  next
    case (InUse c)
    then have "group_inv (in_flight s) False s" "wg_n (group s) = 0" using g by simp_all
    from group_inv_counts [OF this] have "group_inv (in_flight s) True s'"
      by (rule group_inv_other) (use assms(1) InUse in \<open>auto simp: bind_step_def\<close>)
    with assms(1) g(3) InUse show ?thesis by (auto simp: bind_step_def race_inv_def in_flight_def set_n_def)
  next
    case (Counting c)
    then obtain t where t: "sync_Add 1 s = Inr t" "s' = t\<lparr>binding := Clearing c\<rparr>"
      using assms(1) by (cases "sync_Add 1 s") (auto simp: bind_step_def)
    have "group_inv (in_flight s) True s" using g(1) Counting by simp
    note added = group_inv_adds [OF this t(1)]
    then have "group_inv (in_flight s) False s'" by (intro group_inv_other [of _ _ t s']) (simp_all add: t(2))
    with added g(3) Counting show ?thesis by (simp add: race_inv_def in_flight_def t(2))
  next
    case (Locking c)
    with assms(1) g group_inv_loads [OF g(1)] group_inv_other [of "add_mset Loads (in_flight s)" False s s'] show ?thesis
      by (auto simp: bind_step_def race_inv_def in_flight_def split: if_splits)
  next
    case NotBinding
    with assms(1) g group_inv_other [of "in_flight s" False s s'] show ?thesis
      by (auto simp: bind_step_def race_inv_def in_flight_def)
  next
    case (Clearing c)
    with assms(1) g group_inv_other [of "in_flight s" False s s'] show ?thesis
      by (auto simp: bind_step_def race_inv_def in_flight_def)
  qed
qed

lemma race_inv_other:
  assumes "race_inv s" "group_inv (in_flight s) (counting (binding s)) t" "binding t = binding s" "linkers t = linkers s"
    "active t = active s" "wg_n (group t) = wg_n (group s)"
  shows "race_inv t"
  using assms by (simp add: race_inv_def in_flight_def)

lemma race_step_inv:
  assumes "race_step e s = Some (Inr s')" and inv: "race_inv s"
  shows "race_inv s'"
proof -
  note g = inv [unfolded race_inv_def, THEN conjunct1]
  show ?thesis
  proof (cases e)
    case CallsWait
    let ?t = "s\<lparr>callers := callers s - 1\<rparr>"
    have "s' = sync_Wait ?t" using assms(1) CallsWait by (auto split: if_splits)
    moreover have "group_inv (in_flight s) (counting (binding s)) (sync_Wait ?t)"
      by (rule group_inv_waits) (use g in \<open>rule group_inv_other; simp\<close>)
    ultimately show ?thesis by (intro race_inv_other [OF inv]) (simp_all add: sync_Wait_def)
  next
    case WakesUp
    with assms(1) have "s' = s\<lparr>awake := awake s - 1\<rparr>" by (auto simp: sync_woken_def split: if_splits)
    with g show ?thesis by (intro race_inv_other [OF inv] group_inv_other [OF g]) simp_all
  next
    case (LinkStep c)
    with assms link_step_inv show ?thesis by (auto split: if_splits)
  next
    case BindStep
    with assms bind_step_inv show ?thesis by simp
  next
    case ClientEnds
    with assms(1) show ?thesis by (intro race_inv_other [OF inv] group_inv_other [OF g]) auto
  next
    case Asks
    with assms(1) have "s' = s\<lparr>callers := Suc (callers s)\<rparr>" by (simp split: if_splits)
    then show ?thesis by (intro race_inv_other [OF inv] group_inv_other [OF g]) simp_all
  qed
qed

interpretation race_steps: invariant_stepping "\<lambda>s. s = race_New" "\<lambda>s e s'. race_step e s = Some (Inr s')" race_reachable race_inv
proof unfold_locales
  show "P s" if "race_reachable s" "\<And>s. s = race_New \<Longrightarrow> P s"
    "\<And>s e s'. race_reachable s \<Longrightarrow> P s \<Longrightarrow> race_step e s = Some (Inr s') \<Longrightarrow> P s'" for s P
    using that by (induction rule: race_reachable.induct) blast+
qed (auto intro: race_reachable.step race_New_inv race_step_inv)

subsection \<open>When the tunnel panics\<close>

lemma done_step_panics:
  assumes "group_inv (add_mset pc R) adding s"
  shows "done_step pc s = Inl p \<longleftrightarrow> p = negative_counter \<and> pc = Decrements \<and> wg_inner (group s) = 0"
    and "done_step pc s = Inl p \<Longrightarrow> adding"
proof -
  note d = group_invD(1-3) [OF assms]
  show panics: "done_step pc s = Inl p \<longleftrightarrow> p = negative_counter \<and> pc = Decrements \<and> wg_inner (group s) = 0"
  proof (cases pc)
    case Decrements
    with d(2) show ?thesis by (auto simp: sync_Add_def Let_def)
  next
    case (Releases w)
    with done_releases assms show ?thesis by force
  qed simp_all
  show adding if "done_step pc s = Inl p"
    using panics that d by (cases adding) auto
qed

lemma link_step_panics:
  assumes "race_inv s" "d < length (linkers s)"
  shows "link_step d s = Some (Inl p) \<longleftrightarrow> p = negative_counter \<and> linkers s ! d = InLoop Decrements \<and>
    (\<exists>c. binding s = Counting c) \<and> wg_inner (group s) = 0"
proof (cases "linkers s ! d")
  case (InLoop pc)
  obtain R where "in_flight s = opt_mset (loop_op (linkers s ! d)) + R" using link_to_flight [OF assms(2)] by blast
  then have inv: "group_inv (add_mset pc R) (counting (binding s)) s" using assms(1) InLoop by (simp add: race_inv_def)
  have "link_step d s = Some (Inl p) \<longleftrightarrow> done_step pc s = Inl p"
    using InLoop by (auto simp: link_step_def split: sum.split)
  with done_step_panics [OF inv, of p] InLoop show ?thesis by (cases "binding s") auto
qed (auto simp: link_step_def)

lemma bind_step_panics:
  assumes "race_inv s"
  shows "bind_step s = Inl p \<longleftrightarrow> p = added_while_waiting \<and>
    (\<exists>c d w. binding s = Counting c \<and> d < length (linkers s) \<and> linkers s ! d = InLoop (Releases w))"
proof (cases "binding s")
  case (InDone c pc)
  then have "group_inv (add_mset pc (\<Sum>l\<leftarrow>linkers s. opt_mset (loop_op l))) False s"
    using assms by (simp add: race_inv_def in_flight_def)
  note done_step_panics(2) [OF this]
  with InDone show ?thesis by (auto simp: bind_step_def split: sum.split)
next
  case (Counting c)
  have inv: "group_inv (in_flight s) True s" using assms Counting by (simp add: race_inv_def)
  note d = group_invD [OF inv]
  have flight: "Releases w \<in># in_flight s \<longleftrightarrow> (\<exists>d < length (linkers s). linkers s ! d = InLoop (Releases w))" for w
  proof -
    have "pc \<in># opt_mset (loop_op l) \<longleftrightarrow> l = InLoop pc" for pc l by (cases l) auto
    then have "pc \<in># (\<Sum>l\<leftarrow>ls. opt_mset (loop_op l)) \<longleftrightarrow> InLoop pc \<in> set ls" for pc ls
      by (induction ls) auto
    with Counting show ?thesis by (auto simp: in_flight_def in_set_conv_nth)
  qed
  have "bind_step s = Inl p \<longleftrightarrow> p = added_while_waiting \<and> asleep s \<noteq> 0 \<and> wg_inner (group s) = 0"
    using Counting d(2) by (auto simp: bind_step_def sync_Add_def Let_def)
  also have "\<dots> \<longleftrightarrow> p = added_while_waiting \<and> (\<exists>w. Releases w \<in># in_flight s)"
    using d(5,7) by auto
  finally show ?thesis using Counting flight by auto
qed (use assms in \<open>auto simp: bind_step_def race_inv_def\<close>)

text \<open>
  C32: when a client's tunnel panics, however the steps of its goroutines interleave. There are
  three races, all of the wait group with the end of \<open>BindSSH\<close>, and no other panic: between the
  two counters of \<open>BindSSH\<close>'s addition, the goroutine of a connection, in its loop of
  \<open>Done\<close>, takes the inner counter below zero; in that same moment such a goroutine is about to wake the sleeping
  calls of \<open>Wait\<close>, and the addition finds them asleep; or a call of \<open>Wait\<close> that was woken runs
  only when the counter is up again. So the tunnel never binds a connection while one is bound, its
  own \<open>Done\<close> never panics, and without a call of \<open>Wait\<close> or of \<open>DoneAll\<close> under way nothing does.
\<close>

theorem tunnel_panics_are_races:
  assumes reach: "race_reachable s"
  shows "race_step e s = Some (Inl p) \<longleftrightarrow>
    p = negative_counter \<and> (\<exists>c d. e = LinkStep d \<and> d < length (linkers s) \<and> linkers s ! d = InLoop Decrements \<and>
        binding s = Counting c \<and> wg_inner (group s) = 0) \<or>
    p = added_while_waiting \<and> e = BindStep \<and>
      (\<exists>c d w. binding s = Counting c \<and> d < length (linkers s) \<and> linkers s ! d = InLoop (Releases w)) \<or>
    p = reused \<and> e = WakesUp \<and> awake s > 0 \<and> (wg_inner (group s) \<noteq> 0 \<or> asleep s \<noteq> 0)"
proof -
  have inv: "race_inv s" using reach by (rule race_steps.reach_inv)
  show ?thesis
  proof (cases e)
    case (LinkStep d)
    with link_step_panics [OF inv, of d p] show ?thesis by auto
  next
    case WakesUp
    then show ?thesis by (auto simp: sync_woken_def)
  qed (use bind_step_panics [OF inv, of p] in auto)
qed

subsection \<open>The three races\<close>

fun race_run :: "race_event list \<Rightarrow> race_state \<Rightarrow> race_state option" where
  "race_run [] s = Some s"
| "race_run (e # es) s = (case race_step e s of Some (Inr s') \<Rightarrow> race_run es s' | _ \<Rightarrow> None)"

lemma race_run_reachable: "race_run es s = Some s' \<Longrightarrow> race_reachable s \<Longrightarrow> race_reachable s'"
  by (induction es arbitrary: s) (auto split: option.splits sum.splits intro: race_reachable.step)

text \<open>A connection is bound: \<open>BindSSH\<close> starts, marks it active and runs \<open>Done\<close>.\<close>

definition bind_run :: "race_event list" where
  "bind_run = [BindStep, BindStep, BindStep, BindStep, BindStep]"

text \<open>The client is stopped; \<open>BindSSH\<close> raises one counter while the goroutine of the connection runs \<open>DoneAll\<close>.\<close>

definition negative_run :: "race_event list" where
  "negative_run = bind_run @ [ClientEnds, LinkStep 0, BindStep, LinkStep 0, LinkStep 0, LinkStep 0]"

text \<open>
  The goroutine of a lost connection is late: the client has connected and lost the connection
  again when it wakes the proxy that waits.
\<close>

definition waiting_run :: "race_event list" where
  "waiting_run = bind_run @ [BindStep, BindStep, BindStep, Asks, CallsWait, LinkStep 0, LinkStep 0, LinkStep 0, LinkStep 0,
     BindStep, BindStep, BindStep, BindStep, LinkStep 0]"

text \<open>A proxy waits for the first connection, which is lost before the proxy's goroutine runs again.\<close>

definition reused_run :: "race_event list" where
  "reused_run = [Asks, CallsWait] @ bind_run @ [BindStep, BindStep, BindStep]"

theorem tunnel_panics_are_races_witness:
  "(\<exists>s. race_run negative_run race_New = Some s \<and> race_step (LinkStep 0) s = Some (Inl negative_counter)) \<and>
   (\<exists>s. race_run waiting_run race_New = Some s \<and> race_step BindStep s = Some (Inl added_while_waiting)) \<and>
   (\<exists>s. race_run reused_run race_New = Some s \<and> race_step WakesUp s = Some (Inl reused))"
proof (intro conjI)
  note reach = race_run_reachable [OF _ race_reachable.start]
  note run = race_New_def bind_run_def bind_step_def link_step_def link_to_def in_BindSSH_def sync_Add_def sync_Wait_def
    sync_release_def set_n_def Let_def
  obtain s where s: "race_run negative_run race_New = Some s" "linkers s = [InLoop Decrements]" "binding s = Counting 0"
      "wg_inner (group s) = 0" by (simp add: negative_run_def run)
  with tunnel_panics_are_races [OF reach [OF s(1)], of "LinkStep 0" negative_counter]
  show "\<exists>s. race_run negative_run race_New = Some s \<and> race_step (LinkStep 0) s = Some (Inl negative_counter)" by auto
  obtain s where s: "race_run waiting_run race_New = Some s" "linkers s = [InLoop (Releases 1), AwaitsContext]" "binding s = Counting 1"
    by (simp add: waiting_run_def run)
  then have "0 < length (linkers s)" "linkers s ! 0 = InLoop (Releases 1)" by simp_all
  with s tunnel_panics_are_races [OF reach [OF s(1)], of BindStep added_while_waiting]
  show "\<exists>s. race_run waiting_run race_New = Some s \<and> race_step BindStep s = Some (Inl added_while_waiting)" by blast
  obtain s where s: "race_run reused_run race_New = Some s" "awake s = 1" "wg_inner (group s) = 1"
    by (simp add: reused_run_def run)
  with tunnel_panics_are_races [OF reach [OF s(1)], of WakesUp reused]
  show "\<exists>s. race_run reused_run race_New = Some s \<and> race_step WakesUp s = Some (Inl reused)" by auto
qed

end
