(* ===== verification/Go_Fmt.thy ===== *)
theory Go_Fmt
  imports Go_Strings
begin

section \<open>Formatted texts of the Go library\<close>

text \<open>
  \<open>fmt.Sprintf\<close> for the verbs the program uses: \<open>%s\<close>, \<open>%v\<close> and \<open>%d\<close> without flags or widths,
  on texts, numbers and errors, with what Go prints for a missing, superfluous or mismatched
  argument. A format beyond that gives none. Nothing in this theory models a line of the
  program.
\<close>

subsection \<open>Arguments\<close>

text \<open>An integer comes with the name of its type; an error is what its \<open>Error\<close> gives.\<close>

datatype go_arg = StrArg string | IntArg string int | ErrArg string

definition bad_verb :: "char \<Rightarrow> string \<Rightarrow> string \<Rightarrow> string" where
  "bad_verb c ty v = ''%!'' @ [c] @ ''('' @ ty @ ''='' @ v @ '')''"

fun print_arg :: "char \<Rightarrow> go_arg \<Rightarrow> string option" where
  "print_arg c (StrArg s) =
     (if c \<in> set ''sv'' then Some s else if c \<in> set ''xXqTpw'' then None else Some (bad_verb c ''string'' s))"
| "print_arg c (IntArg ty n) =
     (if c \<in> set ''dv'' then Some (show_int n)
      else if c \<in> set ''boOxXcqUTpw'' then None else Some (bad_verb c ty (show_int n)))"
| "print_arg c (ErrArg s) = (if c \<in> set ''sv'' then Some s else None)"

fun extra_arg :: "go_arg \<Rightarrow> string option" where
  "extra_arg (StrArg s) = Some (''string='' @ s)"
| "extra_arg (IntArg ty n) = Some (ty @ ''='' @ show_int n)"
| "extra_arg (ErrArg s) = None"

definition extra_args :: "go_arg list \<Rightarrow> string option" where
  "extra_args args =
     (if args = [] then Some ''''
      else if list_all (\<lambda>a. extra_arg a \<noteq> None) args
      then Some (''%!(EXTRA '' @ Join (List.map_filter extra_arg args) '', '' @ '')'')
      else None)"

subsection \<open>Sprintf\<close>

text \<open>A verb outside ASCII, and one after a flag, a width, a precision or an index, is not modelled.\<close>

definition plain_verb :: "char \<Rightarrow> bool" where
  "plain_verb c \<longleftrightarrow> c \<notin> set ''#0+- .[*123456789'' \<and> (of_char c :: nat) < 128"

fun Sprintf :: "string \<Rightarrow> go_arg list \<Rightarrow> string option" where
  "Sprintf [] args = extra_args args"
| "Sprintf [c] args =
     (if c = CHR ''%'' then map_option (\<lambda>t. ''%!(NOVERB)'' @ t) (extra_args args)
      else map_option (Cons c) (extra_args args))"
| "Sprintf (c # d # f) args =
     (if c \<noteq> CHR ''%'' then map_option (Cons c) (Sprintf (d # f) args)
      else if \<not> plain_verb d then None
      else if d = CHR ''%'' then map_option (Cons d) (Sprintf f args)
      else (case args of
              [] \<Rightarrow> map_option (\<lambda>t. ''%!'' @ [d] @ ''(MISSING)'' @ t) (Sprintf f [])
            | a # args \<Rightarrow>
                (case print_arg d a of None \<Rightarrow> None | Some s \<Rightarrow> map_option (\<lambda>t. s @ t) (Sprintf f args))))"

lemma Sprintf_Cons: "c \<noteq> CHR ''%'' \<Longrightarrow> Sprintf (c # f) args = map_option (Cons c) (Sprintf f args)"
  by (cases f) simp_all

text \<open>Text without a percent sign is printed as it is.\<close>

lemma Sprintf_text: "CHR ''%'' \<notin> set p \<Longrightarrow> Sprintf (p @ f) args = map_option (\<lambda>t. p @ t) (Sprintf f args)"
  by (cases "Sprintf f args"; induction p) (auto simp: Sprintf_Cons)

lemma Sprintf_plain: "CHR ''%'' \<notin> set f \<Longrightarrow> Sprintf f [] = Some f"
  using Sprintf_text [of f "[]" "[]"] by (simp add: extra_args_def)

lemma Sprintf_verb:
  "plain_verb d \<Longrightarrow> d \<noteq> CHR ''%'' \<Longrightarrow> print_arg d a = Some s \<Longrightarrow>
   Sprintf (CHR ''%'' # d # f) (a # args) = map_option (\<lambda>t. s @ t) (Sprintf f args)"
  by simp

end
