(* ===== verification/Signals.thy ===== *)
theory Signals
  imports Go_Fmt
begin

section \<open>Signals and waiting\<close>

text \<open>
  Models share/cos: \<open>InterruptContext\<close> and \<open>SleepSignal\<close> of common.go, and \<open>AfterSignal\<close> and
  \<open>GoStats\<close> of signal.go and signal_windows.go. A process receives signals at times counted from the
  call, in order of time; \<open>time.After\<close> fires at its duration. An interrupt that no channel is
  registered for ends the process, as the runtime's default is.
\<close>

datatype os_signal = Interrupt | Hangup | OtherSignal

subsection \<open>A wait that a hang-up cuts short\<close>

text \<open>The time at which the returned channel is closed.\<close>

fun AfterSignal :: "time \<Rightarrow> (time \<times> os_signal) list \<Rightarrow> time" where
  "AfterSignal d [] = d"
| "AfterSignal d ((t, s) # sigs) =
     (if t \<ge> d then d else if s = Hangup then t else AfterSignal d sigs)"

text \<open>On Windows no signal is listened to.\<close>

definition AfterSignal_windows :: "time \<Rightarrow> (time \<times> os_signal) list \<Rightarrow> time" where
  "AfterSignal_windows d sigs = d"

text \<open>\<open>SleepSignal\<close> returns when the channel is closed.\<close>

definition SleepSignal :: "time \<Rightarrow> (time \<times> os_signal) list \<Rightarrow> time" where
  "SleepSignal d sigs = AfterSignal d sigs"

lemma AfterSignal_first_hangup:
  assumes "sorted (map fst sigs)"
  shows "AfterSignal d sigs = Min (insert d {t. (t, Hangup) \<in> set sigs})"
  using assms
proof (induction sigs)
  case (Cons p sigs)
  obtain t s where p: "p = (t, s)" by (cases p)
  have later: "u \<ge> t" if "(u, s') \<in> set sigs" for u s'
    using Cons.prems that p by force
  have fin: "finite {u. (u, Hangup) \<in> set sigs}"
    by (rule finite_subset [of _ "fst ` set sigs"]) force+
  have new: "{u. (u, Hangup) \<in> set (p # sigs)} = (if s = Hangup then {t} else {}) \<union> {u. (u, Hangup) \<in> set sigs}"
    using p by auto
  have ih: "AfterSignal d sigs = Min (insert d {u. (u, Hangup) \<in> set sigs})" using Cons by simp
  consider "t \<ge> d" | "t < d" "s = Hangup" | "t < d" "s \<noteq> Hangup" by linarith
  then show ?case
  proof cases
    case 1
    then have "Min (insert d {u. (u, Hangup) \<in> set (p # sigs)}) = d"
      unfolding new using fin later by (intro Min_eqI) (force split: if_splits)+
    then show ?thesis using 1 p by simp
  next
    case 2
    then have "Min (insert d {u. (u, Hangup) \<in> set (p # sigs)}) = t"
      unfolding new using fin later by (intro Min_eqI) (force split: if_splits)+
    then show ?thesis using 2 p by simp
  next
    case 3
    then show ?thesis using p ih new by simp
  qed
qed simp

subsection \<open>The context an interrupt cancels\<close>

text \<open>
  The goroutine of \<open>InterruptContext\<close> takes one interrupt from its channel, gives the signal
  back to the runtime and cancels the context.
\<close>

datatype interrupt_state = Watching | InterruptSeen | ProcessKilled

fun InterruptContext :: "interrupt_state \<Rightarrow> os_signal \<Rightarrow> interrupt_state" where
  "InterruptContext Watching Interrupt = InterruptSeen"
| "InterruptContext InterruptSeen Interrupt = ProcessKilled"
| "InterruptContext st s = st"

text \<open>
  One interrupt cancels the context and leaves the process to end by itself; a second one
  kills it, whatever is still running.
\<close>

lemma interrupts:
  "fold (\<lambda>s st. InterruptContext st s) sigs Watching =
    (case length (filter (\<lambda>s. s = Interrupt) sigs) of
       0 \<Rightarrow> Watching | Suc n \<Rightarrow> if n = 0 then InterruptSeen else ProcessKilled)"
proof -
  have killed: "fold (\<lambda>s st. InterruptContext st s) sigs ProcessKilled = ProcessKilled" for sigs
    by (induction sigs) auto
  have seen: "fold (\<lambda>s st. InterruptContext st s) sigs InterruptSeen =
      (if length (filter (\<lambda>s. s = Interrupt) sigs) = 0 then InterruptSeen else ProcessKilled)" for sigs
  proof (induction sigs)
    case (Cons s sigs)
    then show ?case using killed by (cases s) auto
  qed simp
  show ?thesis
  proof (induction sigs)
    case (Cons s sigs)
    then show ?case using seen by (cases s) auto
  qed simp
qed

subsection \<open>Statistics on a signal\<close>

text \<open>
  \<open>GoStats\<close> registers for the signal with the number 31 one second after its call and prints a
  line for each it receives. The channel holds one signal that arrives while a line is being
  printed, which takes \<open>busy\<close>; further ones are lost. The sizes' text is the parameter
  \<open>show_size\<close>, and the number of goroutines and the memory at a time are \<open>stats\<close>.
\<close>

definition SIGUSR2 :: nat where
  "SIGUSR2 = 0x1f"

definition stats_line :: "(int \<Rightarrow> string) \<Rightarrow> int \<times> int \<Rightarrow> string option" where
  "stats_line show_size = (\<lambda>(goroutines, alloc).
     Sprintf ''recieved SIGUSR2, go-routines: %d, go-memory-usage: %s'' [IntArg ''int'' goroutines, StrArg (show_size alloc)])"

text \<open>The times at which lines are printed: the loop is free at \<open>free\<close>, with a signal \<open>queued\<close> or not.\<close>

fun stats_times :: "time \<Rightarrow> time \<Rightarrow> bool \<Rightarrow> time list \<Rightarrow> time list" where
  "stats_times busy free queued [] = (if queued then [free] else [])"
| "stats_times busy free queued (t # ts) =
     (if \<not> free \<le> t then stats_times busy free True ts
      else if \<not> queued then t # stats_times busy (t + busy) False ts
      else if free + busy \<le> t then free # t # stats_times busy (t + busy) False ts
      else free # stats_times busy (free + busy) True ts)"

definition GoStats :: "(int \<Rightarrow> string) \<Rightarrow> (time \<Rightarrow> int \<times> int) \<Rightarrow> time \<Rightarrow> (time \<times> nat) list \<Rightarrow> string option list" where
  "GoStats show_size stats busy sigs =
     map (\<lambda>t. stats_line show_size (stats t))
       (stats_times busy second False (map fst (filter (\<lambda>(t, s). s = SIGUSR2 \<and> second \<le> t) sigs)))"

definition GoStats_windows :: "string option list" where
  "GoStats_windows = []"

text \<open>Signals that come no faster than lines are printed get a line each, at their times.\<close>

lemma stats_times_spaced:
  "sorted_wrt (\<lambda>t u. t + busy \<le> u) ts \<Longrightarrow> \<forall>t \<in> set ts. free \<le> t \<Longrightarrow> stats_times busy free False ts = ts"
  by (induction ts arbitrary: free) auto

text \<open>
  The number is that of SIGUSR2 on macOS alone; on Linux, where it is 12, no line is ever
  printed for it.
\<close>

lemma linux_SIGUSR2_silent: "\<forall>(t, s) \<in> set sigs. s = 12 \<Longrightarrow> GoStats show_size stats busy sigs = []"
proof -
  assume "\<forall>(t, s) \<in> set sigs. s = 12"
  then have "filter (\<lambda>(t, s). s = SIGUSR2 \<and> second \<le> t) sigs = []"
    by (auto simp: filter_empty_conv SIGUSR2_def)
  then show ?thesis unfolding GoStats_def by simp
qed

lemma stats_line_text:
  "stats_line show_size (n, a) =
     Some (''recieved SIGUSR2, go-routines: '' @ show_int n @ '', go-memory-usage: '' @ show_size a)"
  by (simp add: stats_line_def Sprintf_verb plain_verb_def extra_args_def)

end
