(* ===== verification/Json_Fuel.thy ===== *)
theory Json_Fuel
  imports Json
begin

section \<open>The JSON reader's fuel is enough\<close>

text \<open>
  \<open>parse_json\<close> bounds its recursion by the length of the text. Here: what is read never takes
  more recursion than bytes, so no text is refused for want of fuel, however large a bound
  would have read it.
\<close>

lemma skip_ws_shorter: "length (skip_ws s) \<le> length s"
  by (simp add: skip_ws_def length_dropWhile_le)

lemma parse_string_shorter: "parse_string s = Some (t, r) \<Longrightarrow> length r < length s"
proof (induction s arbitrary: t r rule: parse_string.induct)
  case (2 c cs)
  consider "c = CHR 0x22" | "c = CHR 0x5C" | "c \<noteq> CHR 0x22" "c \<noteq> CHR 0x5C" "\<not> byte c < 32"
    using "2.prems" by (auto split: if_splits)
  then show ?case
  proof cases
    case 2
    then obtain e cs' where cs: "cs = e # cs'" using "2.prems" by (cases cs) (auto split: if_splits)
    show ?thesis
    proof (cases "e = CHR ''u''")
      case True
      then obtain x n t' where n: "unescape_u cs' = Some (x, n)" and rest: "parse_string (drop n cs') = Some (t', r)"
        using "2.prems" 2 cs by (auto split: option.splits if_splits)
      have "length r < length (drop n cs')"
        by (rule "2.IH"(1) [OF _ _ _ cs True n refl rest]) (use 2 "2.prems" in \<open>auto split: if_splits\<close>)
      then show ?thesis by (simp add: cs)
    next
      case False
      then obtain x t' where x: "simple_escape e = Some x" and rest: "parse_string cs' = Some (t', r)"
        using "2.prems" 2 cs by (auto split: option.splits if_splits)
      have "length r < length cs'"
        by (rule "2.IH"(2) [OF _ _ _ cs False x rest]) (use 2 "2.prems" in \<open>auto split: if_splits\<close>)
      then show ?thesis by (simp add: cs)
    qed
  next
    case 3
    obtain rn size where d: "DecodeRune (c # cs) = (rn, size)" by (cases "DecodeRune (c # cs)")
    with 3 obtain t' where rest: "parse_string (drop (size - 1) cs) = Some (t', r)"
      using "2.prems" by auto
    have "length r < length (drop (size - 1) cs)"
      by (rule "2.IH"(3) [OF 3(1,3,2) d [symmetric] refl rest])
    then show ?thesis by simp
  qed (use "2.prems" in simp)
qed simp

lemma scan_digits_shorter: "scan_digits s = Some (ds, r) \<Longrightarrow> length r < length s"
proof -
  assume "scan_digits s = Some (ds, r)"
  then have "takeWhile is_digit s \<noteq> []" "r = dropWhile is_digit s" by (auto simp: scan_digits_def Let_def split: if_splits)
  then show ?thesis
    by (metis length_append length_greater_0_conv less_add_same_cancel2 takeWhile_dropWhile_id)
qed

lemma scan_exponent_shorter: "scan_exponent s = Some (ds, r) \<Longrightarrow> length r \<le> length s"
  by (auto simp: scan_exponent_def Let_def split: if_splits dest!: scan_digits_shorter)

lemma scan_fraction_shorter: "scan_fraction s = Some (ds, r) \<Longrightarrow> length r \<le> length s"
  by (auto simp: scan_fraction_def split: if_splits dest!: scan_digits_shorter)

lemma parse_number_shorter: "parse_number s = Some (t, r) \<Longrightarrow> length r < length s"
proof -
  assume read: "parse_number s = Some (t, r)"
  define s0 where "s0 = drop (length (if s \<noteq> [] \<and> hd s = CHR ''-'' then ''-'' else '''')) s"
  obtain ds r1 fr r2 ex where
    "(if s0 \<noteq> [] \<and> hd s0 = CHR ''0'' then Some (''0'', tl s0) else scan_digits s0) = Some (ds, r1)"
    "scan_fraction r1 = Some (fr, r2)" "scan_exponent r2 = Some (ex, r)"
    using read unfolding parse_number_def Let_def s0_def [symmetric] by (auto split: option.splits)
  then have "length r1 < length s0" "length r2 \<le> length r1" "length r \<le> length r2"
    using scan_digits_shorter scan_fraction_shorter scan_exponent_shorter by (fastforce split: if_splits)+
  moreover have "length s0 \<le> length s" by (simp add: s0_def)
  ultimately show ?thesis by linarith
qed

text \<open>What is read is shorter, and any bound of as many steps as bytes read does it.\<close>

abbreviation reads :: "(nat \<Rightarrow> string \<Rightarrow> ('a \<times> string) option) \<Rightarrow> string \<Rightarrow> 'a \<Rightarrow> string \<Rightarrow> bool" where
  "reads p s v r \<equiv> length r < length s \<and> (\<forall>m. length s \<le> m + length r \<longrightarrow> p m s = Some (v, r))"

lemma readsI:
  assumes "length r < length s" "\<And>m. length s \<le> Suc m + length r \<Longrightarrow> p (Suc m) s = Some (v, r)"
  shows "reads p s v r"
proof (intro conjI allI impI)
  show "p m s = Some (v, r)" if "length s \<le> m + length r" for m
    using assms that by (cases m) auto
qed (rule assms)

lemma skip_ws_Cons: "skip_ws s = c # cs \<Longrightarrow> length cs < length s"
  using skip_ws_shorter [of s] by simp

lemma fuel_enough:
  "parse_value n d s = Some (v, r) \<Longrightarrow> reads (\<lambda>m. parse_value m d) s v r"
  "parse_elements n d s = Some (vs, r) \<Longrightarrow> reads (\<lambda>m. parse_elements m d) s vs r"
  "parse_members n d s = Some (kvs, r) \<Longrightarrow> reads (\<lambda>m. parse_members m d) s kvs r"
proof (induction n arbitrary: d s v vs kvs r)
  case (Suc n)
  {
    case 1
    then obtain c cs where s: "skip_ws s = c # cs" by (cases "skip_ws s") auto
    note len = skip_ws_Cons [OF s]
    consider (array) vs where "c = CHR ''[''" "d \<noteq> 0" "\<not> HasPrefix (skip_ws cs) '']''" "v = JArray vs"
        "parse_elements n (d - 1) cs = Some (vs, r)"
      | (object) kvs where "c = CHR ''{''" "d \<noteq> 0" "\<not> HasPrefix (skip_ws cs) ''}''" "v = JObject kvs"
        "parse_members n (d - 1) cs = Some (kvs, r)"
      | (leaf) "\<And>m. parse_value (Suc m) d s = Some (v, r)" "length r < length s"
    proof (cases "c = CHR ''['' \<and> \<not> HasPrefix (skip_ws cs) '']'' \<or> c = CHR ''{'' \<and> \<not> HasPrefix (skip_ws cs) ''}''")
      case True
      then show ?thesis
      proof
        assume "c = CHR ''['' \<and> \<not> HasPrefix (skip_ws cs) '']''"
        then show ?thesis using 1 s by (cases "d = 0") (auto intro: array)
      next
        assume "c = CHR ''{'' \<and> \<not> HasPrefix (skip_ws cs) ''}''"
        then show ?thesis using 1 s by (cases "d = 0") (auto intro: object)
      qed
    next
      case False
      then have "parse_value (Suc m) d s = parse_value (Suc n) d s" for m
        by (cases "c = CHR ''[''"; cases "c = CHR ''{''") (simp_all add: s)
      with 1 have "parse_value (Suc m) d s = Some (v, r)" for m by metis
      moreover have "length r < length s"
        using 1 s False len skip_ws_shorter [of cs]
        by (auto split: if_splits dest!: parse_string_shorter parse_number_shorter)
      ultimately show ?thesis by (rule leaf)
    qed
    then show ?case
    proof cases
      case array
      with Suc.IH(2) [OF array(5)] len show ?thesis by (intro readsI) (auto simp: s)
    next
      case object
      with Suc.IH(3) [OF object(5)] len show ?thesis by (intro readsI) (auto simp: s)
    next
      case leaf
      then show ?thesis by (intro readsI)
    qed
  next
    case 2
    obtain v1 r1 where v1: "parse_value n d s = Some (v1, r1)" using 2 by (auto split: option.splits)
    obtain c r' where c: "skip_ws r1 = c # r'" using 2 v1 by (cases "skip_ws r1") auto
    note len = skip_ws_Cons [OF c] and first = Suc.IH(1) [OF v1]
    show ?case
    proof (cases "c = CHR '',''")
      case True
      then obtain vs' where vs': "parse_elements n d r' = Some (vs', r)" "vs = v1 # vs'"
        using 2 v1 c by auto
      from Suc.IH(2) [OF vs'(1)] first len show ?thesis
        by (intro readsI) (auto simp: c True vs'(2))
    next
      case False
      then have "c = CHR '']''" "vs = [v1]" "r = r'" using 2 v1 c by (auto split: if_splits)
      with first len show ?thesis by (intro readsI) (auto simp: c)
    qed
  next
    case 3
    obtain s1 where s1: "skip_ws s = CHR 0x22 # s1" using 3 by (cases "skip_ws s") (auto split: if_splits)
    obtain k s2 where k: "parse_string s1 = Some (k, s2)" using 3 s1 by (auto split: option.splits)
    have colon: "HasPrefix (skip_ws s2) '':''" using 3 s1 k by (auto split: if_splits)
    obtain v1 r1 where v1: "parse_value n d (tl (skip_ws s2)) = Some (v1, r1)"
      using 3 s1 k colon by (auto split: option.splits)
    obtain c r' where c: "skip_ws r1 = c # r'" using 3 s1 k colon v1 by (cases "skip_ws r1") auto
    note len = skip_ws_Cons [OF s1] parse_string_shorter [OF k] skip_ws_shorter [of s2] skip_ws_Cons [OF c]
      and first = Suc.IH(1) [OF v1]
    show ?case
    proof (cases "c = CHR '',''")
      case True
      then obtain kvs' where kvs': "parse_members n d r' = Some (kvs', r)" "kvs = (k, v1) # kvs'"
        using 3 s1 k colon v1 c by auto
      from Suc.IH(3) [OF kvs'(1)] first len show ?thesis
        by (intro readsI) (auto simp: s1 k colon c True kvs'(2))
    next
      case False
      then have "c = CHR ''}''" "kvs = [(k, v1)]" "r = r'" using 3 s1 k colon v1 c by (auto split: if_splits)
      with first len show ?thesis by (intro readsI) (auto simp: s1 k colon c)
    qed
  }
qed simp_all

text \<open>So \<open>parse_json\<close> accepts a text exactly when some bound reads it.\<close>

lemma parse_json_iff:
  "parse_json s = Some v \<longleftrightarrow> (\<exists>n r. parse_value n 10000 s = Some (v, r) \<and> skip_ws r = [])"
proof
  assume "\<exists>n r. parse_value n 10000 s = Some (v, r) \<and> skip_ws r = []"
  then obtain n r where "parse_value n 10000 s = Some (v, r)" "skip_ws r = []" by blast
  moreover from fuel_enough(1) [OF this(1)] have "parse_value (Suc (length s)) 10000 s = Some (v, r)"
    by (simp del: parse_value.simps)
  ultimately show "parse_json s = Some v" by (simp add: parse_json_def del: parse_value.simps)
qed (fastforce simp: parse_json_def simp del: parse_value.simps split: option.splits if_splits)

end
