(* ===== verification/Logging.thy ===== *)
theory Logging
  imports Go_Fmt
begin

section \<open>Loggers\<close>

text \<open>
  Models share/cio/logger.go: loggers forked from one another, with a prefix each and levels
  that follow those of the root, and the lines they print. The time stamp of a line is a
  parameter.
\<close>

subsection \<open>State\<close>

text \<open>
  A logger has flags of its own and, if it was forked, a link to the flags of the logger at
  the root, which live in a store by address.
\<close>

record log_flags =
  Info :: bool
  Debug :: bool

record Logger =
  log_prefix :: string
  flags_at :: nat
  root_flags :: "nat option"

type_synonym log_store = "(nat \<Rightarrow> log_flags) \<times> nat"

definition NewLogger :: "string \<Rightarrow> log_store \<Rightarrow> Logger \<times> log_store" where
  "NewLogger p = (\<lambda>(fl, n). (\<lparr>log_prefix = p, flags_at = n, root_flags = None\<rparr>,
     (fl(n := \<lparr>Info = False, Debug = False\<rparr>), n + 1)))"

definition Prefix :: "Logger \<Rightarrow> string" where
  "Prefix l = log_prefix l"

text \<open>A logger with the given prefix that copies the levels and keeps the link to the root's.\<close>

definition linked_logger :: "string \<Rightarrow> Logger \<Rightarrow> log_store \<Rightarrow> Logger \<times> log_store" where
  "linked_logger p l = (\<lambda>(fl, n).
     (\<lparr>log_prefix = p, flags_at = n,
       root_flags = Some (case root_flags l of Some a \<Rightarrow> a | None \<Rightarrow> flags_at l)\<rparr>,
      (fl(n := \<lparr>Info = Info (fl (flags_at l)), Debug = Debug (fl (flags_at l))\<rparr>), n + 1)))"

text \<open>The prefix of a fork is formatted with the parent's slipped in front.\<close>

definition Fork :: "string \<Rightarrow> go_arg list \<Rightarrow> Logger \<Rightarrow> log_store \<Rightarrow> (Logger \<times> log_store) option" where
  "Fork p args l st =
     map_option (\<lambda>name. linked_logger name l st) (Sprintf (''%s: '' @ p) (StrArg (log_prefix l) # args))"

definition IsInfo :: "Logger \<Rightarrow> log_store \<Rightarrow> bool" where
  "IsInfo l st \<longleftrightarrow> Info (fst st (flags_at l)) \<or> (case root_flags l of None \<Rightarrow> False | Some a \<Rightarrow> Info (fst st a))"

definition IsDebug :: "Logger \<Rightarrow> log_store \<Rightarrow> bool" where
  "IsDebug l st \<longleftrightarrow> Debug (fst st (flags_at l)) \<or> (case root_flags l of None \<Rightarrow> False | Some a \<Rightarrow> Debug (fst st a))"

subsection \<open>Lines\<close>

text \<open>The standard logger puts the stamp before a line and ends it if it is not ended.\<close>

definition log_line :: "string \<Rightarrow> string \<Rightarrow> string" where
  "log_line stamp msg = stamp @ msg @ (if msg = [] \<or> last msg \<noteq> CHR 0x0A then [CHR 0x0A] else [])"

text \<open>
  What is appended to the output, none for a format that is not modelled. The logger's prefix
  is part of the format, so its percent signs are read as verbs.
\<close>

definition Infof :: "string \<Rightarrow> string \<Rightarrow> go_arg list \<Rightarrow> Logger \<Rightarrow> log_store \<Rightarrow> string option" where
  "Infof stamp f args l st =
     (if IsInfo l st then map_option (log_line stamp) (Sprintf (log_prefix l @ '': '' @ f) args) else Some '''')"

definition Debugf :: "string \<Rightarrow> string \<Rightarrow> go_arg list \<Rightarrow> Logger \<Rightarrow> log_store \<Rightarrow> string option" where
  "Debugf stamp f args l st =
     (if IsDebug l st then map_option (log_line stamp) (Sprintf (log_prefix l @ '': '' @ f) args) else Some '''')"

text \<open>\<open>Errorf\<close> prints nothing: it makes an error with this text.\<close>

definition Errorf :: "string \<Rightarrow> go_arg list \<Rightarrow> Logger \<Rightarrow> string option" where
  "Errorf f args l = Sprintf (log_prefix l @ '': '' @ f) args"

subsection \<open>Prefixes\<close>

lemma plain_prefixes:
  assumes "CHR ''%'' \<notin> set (log_prefix l)"
  shows "Errorf f args l = map_option (\<lambda>t. log_prefix l @ '': '' @ t) (Sprintf f args)"
    "IsInfo l st \<Longrightarrow> Infof stamp f args l st = map_option (\<lambda>t. log_line stamp (log_prefix l @ '': '' @ t)) (Sprintf f args)"
    "IsDebug l st \<Longrightarrow> Debugf stamp f args l st = map_option (\<lambda>t. log_line stamp (log_prefix l @ '': '' @ t)) (Sprintf f args)"
  using Sprintf_text [of "log_prefix l @ '': ''" f args] assms
  by (simp_all add: Errorf_def Infof_def Debugf_def option.map_comp comp_def)

text \<open>
  A fork of a logger is named after it, whatever its prefix; but a prefix with a percent sign
  takes the arguments of the messages: a proxy's prefix holds the text of its remote, which
  on a server the client chooses.
\<close>

lemma Fork_prefix:
  "Fork p args l st = map_option (\<lambda>t. linked_logger (log_prefix l @ '': '' @ t) l st) (Sprintf p args)"
  by (simp add: Fork_def plain_verb_def Sprintf_Cons option.map_comp comp_def)

lemma prefix_takes_arguments:
  assumes "IsInfo l st" "log_prefix l = ''server: proxy#R:3000=>%s:80''"
  shows "Infof '''' ''Accept error: %s'' [StrArg ''closed''] l st =
    Some (''server: proxy#R:3000=>closed:80: Accept error: %!s(MISSING)'' @ [CHR 0x0A])"
  using assms by (simp add: Infof_def log_line_def plain_verb_def extra_args_def)

subsection \<open>Levels\<close>

text \<open>Forking any number of times from a root.\<close>

fun forks :: "(string \<times> go_arg list) list \<Rightarrow> Logger \<times> log_store \<Rightarrow> (Logger \<times> log_store) option" where
  "forks [] s = Some s"
| "forks ((p, args) # ps) (l, st) = Option.bind (Fork p args l st) (forks ps)"

lemma forks_root:
  assumes "forks ps (l, (fl, n)) = Some (l', (fl', n'))" "ps \<noteq> []" "flags_at l < n"
    "\<forall>a. root_flags l = Some a \<longrightarrow> a < n"
  shows "root_flags l' = Some (case root_flags l of Some a \<Rightarrow> a | None \<Rightarrow> flags_at l) \<and>
    (\<forall>a < n. fl' a = fl a)"
  using assms
proof (induction ps arbitrary: l fl n)
  case (Cons q ps)
  obtain p args where q: "q = (p, args)" by fastforce
  obtain s1 where fork: "Fork p args l (fl, n) = Some s1" and run: "forks ps s1 = Some (l', (fl', n'))"
    using Cons.prems(1) by (cases "Fork p args l (fl, n)") (simp_all add: q)
  obtain name where "s1 = linked_logger name l (fl, n)"
    using fork by (auto simp: Fork_def simp del: Sprintf.simps)
  with run have rest: "forks ps (linked_logger name l (fl, n)) = Some (l', (fl', n'))" by simp
  let ?l1 = "\<lparr>log_prefix = name, flags_at = n,
       root_flags = Some (case root_flags l of Some a \<Rightarrow> a | None \<Rightarrow> flags_at l)\<rparr>"
  let ?fl1 = "fl(n := \<lparr>Info = Info (fl (flags_at l)), Debug = Debug (fl (flags_at l))\<rparr>)"
  have step: "forks ps (?l1, (?fl1, n + 1)) = Some (l', (fl', n'))"
    using rest by (simp add: linked_logger_def)
  have root: "(case root_flags l of Some a \<Rightarrow> a | None \<Rightarrow> flags_at l) < n"
    using Cons.prems(3,4) by (simp split: option.split)
  show ?case
  proof (cases "ps = []")
    case True
    with step show ?thesis by auto
  next
    case False
    with Cons.IH [OF step] root show ?thesis by (auto simp: less_SucI)
  qed
qed simp

text \<open>
  Switching the information or debug messages of a logger on switches them on for every
  logger forked from it, directly or through other forks.
\<close>

lemma fork_follows_root:
  assumes root: "NewLogger p st = (l, st1)" and "forks ps (l, st1) = Some (l', (fl, n))" "ps \<noteq> []"
  shows "IsInfo l' (fl(flags_at l := \<lparr>Info = True, Debug = d\<rparr>), n) \<and>
    IsDebug l' (fl(flags_at l := \<lparr>Info = i, Debug = True\<rparr>), n)"
proof -
  obtain fl0 n0 where st: "st = (fl0, n0)" by fastforce
  with root have l: "l = \<lparr>log_prefix = p, flags_at = n0, root_flags = None\<rparr>"
      "st1 = (fl0(n0 := \<lparr>Info = False, Debug = False\<rparr>), n0 + 1)"
    by (simp_all add: NewLogger_def)
  from forks_root [of ps l "fl0(n0 := \<lparr>Info = False, Debug = False\<rparr>)" "n0 + 1" l' fl n] assms(2,3)
  have "root_flags l' = Some (flags_at l)" by (simp add: l)
  then show ?thesis by (simp add: IsInfo_def IsDebug_def)
qed

end
