(* ===== verification/Go_Float.thy ===== *)
theory Go_Float
  imports Complex_Main "HOL-Library.Log_Nat"
begin

section \<open>Double-precision numbers\<close>

text \<open>
  Go's \<open>float64\<close> for values whose magnitude stays within the normal range: a number is
  rounded to 53 significant bits, to the even neighbour on a tie, after each conversion and
  operation. Values are rational, so the definitions compute. Nothing in this theory models
  a line of the program.
\<close>

subsection \<open>Rounding\<close>

definition round_to_even :: "rat \<Rightarrow> int" where
  "round_to_even x =
     (let q = \<lfloor>x\<rfloor>; r = x - of_int q in
      if r < 1 / 2 then q else if r > 1 / 2 then q + 1 else if even q then q else q + 1)"

text \<open>The exponent of the leading bit of a positive number.\<close>

definition float_exp :: "rat \<Rightarrow> int" where
  "float_exp x =
     (let (n, d) = quotient_of x; k = bitlen n - bitlen d in if 2 powi k \<le> x then k else k - 1)"

definition float64 :: "rat \<Rightarrow> rat" where
  "float64 x =
     (if x = 0 then 0
      else (let e = float_exp \<bar>x\<bar> - 52 in sgn x * of_int (round_to_even (\<bar>x\<bar> / 2 powi e)) * 2 powi e))"

text \<open>Conversion to \<open>int64\<close> drops the fraction; what does not fit is not specified.\<close>

definition truncate_rat :: "rat \<Rightarrow> int" where
  "truncate_rat x = (if x < 0 then - \<lfloor>- x\<rfloor> else \<lfloor>x\<rfloor>)"

definition int64_of :: "rat \<Rightarrow> int option" where
  "int64_of x = (let n = truncate_rat x in if - (2 ^ 63) \<le> n \<and> n < 2 ^ 63 then Some n else None)"

subsection \<open>Error bounds\<close>

lemma round_half_even_error: "\<bar>of_int (round_to_even x) - x\<bar> \<le> 1 / 2"
proof -
  have r: "0 \<le> x - of_int \<lfloor>x\<rfloor>" "x - of_int \<lfloor>x\<rfloor> < 1" by linarith+
  consider "x - of_int \<lfloor>x\<rfloor> < 1 / 2" | "x - of_int \<lfloor>x\<rfloor> > 1 / 2" | "x - of_int \<lfloor>x\<rfloor> = 1 / 2" by linarith
  then show ?thesis
    by cases (use r in \<open>simp_all add: round_to_even_def Let_def abs_le_iff\<close>)
qed

lemma float_exp_bounds:
  assumes "x > 0"
  shows "2 powi (float_exp x) \<le> x" "x < 2 powi (float_exp x + 1)"
proof -
  obtain n d where q: "quotient_of x = (n, d)" by fastforce
  then have d: "d > 0" and x: "x = of_int n / of_int d"
    using quotient_of_denom_pos quotient_of_div by blast+
  with assms have n: "n > 0" by (simp add: zero_less_divide_iff)
  let ?k = "bitlen n - bitlen d"
  have pow: "(2::rat) powi (bitlen m - 1) \<le> of_int m \<and> (of_int m :: rat) < 2 powi (bitlen m)" if "m > 0" for m
  proof -
    have "bitlen m \<ge> 1" using that bitlen_nonneg [of m] bitlen_eq_zero_iff [of m] by linarith
    then have "(2::rat) powi (bitlen m - 1) = of_int (2 ^ nat (bitlen m - 1))"
      "(2::rat) powi (bitlen m) = of_int (2 ^ nat (bitlen m))"
      by (simp_all add: power_int_def)
    with bitlen_bounds [OF that] show ?thesis by (metis of_int_le_iff of_int_less_iff)
  qed
  have low: "2 powi (?k - 1) \<le> x"
  proof -
    have "(2::rat) powi (?k - 1) * of_int d \<le> 2 powi (?k - 1) * 2 powi (bitlen d)"
      using pow [OF d] by (intro mult_left_mono) auto
    also have "\<dots> = 2 powi (bitlen n - 1)" by (subst power_int_add [symmetric]) auto
    also have "\<dots> \<le> of_int n" using pow [OF n] by simp
    finally show ?thesis using d by (simp add: x pos_le_divide_eq)
  qed
  have high: "x < 2 powi (?k + 1)"
  proof -
    have "(of_int n :: rat) < 2 powi (bitlen n)" using pow [OF n] by simp
    also have "\<dots> = 2 powi (?k + 1) * 2 powi (bitlen d - 1)" by (subst power_int_add [symmetric]) auto
    also have "\<dots> \<le> 2 powi (?k + 1) * of_int d" using pow [OF d] by (intro mult_left_mono) auto
    finally show ?thesis using d by (simp add: x pos_divide_less_eq)
  qed
  show "2 powi (float_exp x) \<le> x" "x < 2 powi (float_exp x + 1)"
    using low high by (auto simp: float_exp_def q Let_def)
qed

text \<open>A rounding changes a number by at most one part in \<open>2 ^ 53\<close>.\<close>

lemma float64_error: "\<bar>float64 x - x\<bar> \<le> \<bar>x\<bar> / 2 ^ 53"
proof (cases "x = 0")
  case False
  let ?a = "\<bar>x\<bar>" and ?e = "float_exp \<bar>x\<bar> - 52"
  let ?u = "(2::rat) powi ?e"
  have pos: "?u > 0" by simp
  have "?a / ?u * ?u = ?a" by simp
  then have "\<bar>of_int (round_to_even (?a / ?u)) * ?u - ?a\<bar> = \<bar>of_int (round_to_even (?a / ?u)) - ?a / ?u\<bar> * ?u"
    by (metis abs_mult abs_of_pos left_diff_distrib pos)
  also have "\<dots> \<le> 1 / 2 * ?u" using round_half_even_error [of "?a / ?u"] pos by (intro mult_right_mono) auto
  also have "\<dots> = 2 powi (float_exp ?a) / 2 ^ 53" by (simp add: power_int_diff)
  also have "\<dots> \<le> ?a / 2 ^ 53" using float_exp_bounds(1) [of ?a] False by (intro divide_right_mono) auto
  finally have err: "\<bar>of_int (round_to_even (?a / ?u)) * ?u - ?a\<bar> \<le> ?a / 2 ^ 53" .
  have "float64 x - x = sgn x * (of_int (round_to_even (?a / ?u)) * ?u - ?a)"
    using False by (simp add: float64_def Let_def algebra_simps sgn_if abs_if)
  with err False show ?thesis by (simp add: abs_mult abs_sgn_eq)
qed (simp add: float64_def)

text \<open>An integer below \<open>2 ^ 53\<close> is not rounded.\<close>

lemma float64_of_int:
  assumes "\<bar>n\<bar> < 2 ^ 53"
  shows "float64 (of_int n) = of_int n"
proof (cases "n = 0")
  case False
  let ?e = "float_exp \<bar>of_int n\<bar> - 52"
  have "float_exp \<bar>of_int n\<bar> < 53"
  proof (rule ccontr)
    assume "\<not> ?thesis"
    then have "(2::rat) powi 53 \<le> 2 powi (float_exp \<bar>of_int n\<bar>)" by (intro power_int_increasing) auto
    also have "\<dots> \<le> \<bar>of_int n\<bar>" using float_exp_bounds(1) [of "\<bar>of_int n\<bar>"] False by simp
    finally have "(of_int (2 ^ 53) :: rat) \<le> of_int \<bar>n\<bar>" by simp
    then show False using assms unfolding of_int_le_iff by simp
  qed
  then have e: "?e \<le> 0" by simp
  then obtain k where k: "?e = - int k" by (metis int_nat_eq minus_equation_iff neg_0_le_iff_le nat_0_le)
  have shift: "\<bar>of_int n\<bar> / 2 powi ?e = (of_int (\<bar>n\<bar> * 2 ^ k) :: rat)"
    unfolding k by (simp add: power_int_minus divide_inverse)
  have whole: "round_to_even (of_int m) = m" for m by (simp add: round_to_even_def)
  have "of_int (round_to_even (\<bar>of_int n\<bar> / 2 powi ?e)) * 2 powi ?e = \<bar>of_int n :: rat\<bar> / 2 powi ?e * 2 powi ?e"
    unfolding shift whole ..
  also have "\<dots> = \<bar>of_int n\<bar>" by simp
  finally have "sgn (of_int n) * (of_int (round_to_even (\<bar>of_int n\<bar> / 2 powi ?e)) * 2 powi ?e) = (of_int n :: rat)"
    by (simp only: sgn_mult_abs)
  then show ?thesis using False by (simp add: float64_def Let_def mult.assoc)
qed (simp add: float64_def)

lemma truncate_rat_error: "\<bar>of_int (truncate_rat x) - x\<bar> < 1"
  unfolding truncate_rat_def by (cases "x < 0") (simp_all add: abs_if, linarith+)

end
