(* ===== verification/Meter.thy ===== *)
theory Meter
  imports Logging Systems Go_Float "HOL-Library.Word"
begin

section \<open>The meter of a connection\<close>

text \<open>
  Models share/cnet/meter.go: the counters, where a meter is put into a connection, and the
  goroutine that prints the rates of a period, with its arithmetic on 64-bit integers and on
  double-precision numbers. The text of a size is a third party's, a parameter.
\<close>

subsection \<open>Counting\<close>

record Meter =
  sent_bytes :: "64 word"
  recv_bytes :: "64 word"
  printing :: "32 word"
  last_ns :: "64 word"
  lsent :: "64 word"
  lrecv :: "64 word"

definition NewMeter :: Meter where
  "NewMeter = \<lparr>sent_bytes = 0, recv_bytes = 0, printing = 0, last_ns = 0, lsent = 0, lrecv = 0\<rparr>"

text \<open>Whether a goroutine is started, and the meter after.\<close>

definition meter_print :: "Meter \<Rightarrow> bool \<times> Meter" where
  "meter_print m = (if printing m = 0 then (True, m\<lparr>printing := 1\<rparr>) else (False, m))"

definition meter_Read :: "nat \<Rightarrow> Meter \<Rightarrow> bool \<times> Meter" where
  "meter_Read n m = meter_print (m\<lparr>recv_bytes := recv_bytes m + of_nat n\<rparr>)"

definition meter_Write :: "nat \<Rightarrow> Meter \<Rightarrow> bool \<times> Meter" where
  "meter_Write n m = meter_print (m\<lparr>sent_bytes := sent_bytes m + of_nat n\<rparr>)"

text \<open>
  Inserted into a connection, the meter counts only if the logger is in debug mode; without,
  the connection is read and written directly.
\<close>

record meterConn =
  mread :: bool
  mwrite :: bool
  meter :: Meter

definition TeeReader :: "Logger \<Rightarrow> log_store \<Rightarrow> bool" where
  "TeeReader l st = IsDebug l st"

definition TeeWriter :: "Logger \<Rightarrow> log_store \<Rightarrow> bool" where
  "TeeWriter l st = IsDebug l st"

definition MeterConn :: "Logger \<Rightarrow> log_store \<Rightarrow> meterConn" where
  "MeterConn l st = \<lparr>mread = TeeReader l st, mwrite = TeeWriter l st, meter = NewMeter\<rparr>"

text \<open>\<open>MeterRWC\<close> does the same to a stream whose reads, writes and closing are all it has.\<close>

definition MeterRWC :: "Logger \<Rightarrow> log_store \<Rightarrow> meterConn" where
  "MeterRWC l st = \<lparr>mread = TeeReader l st, mwrite = TeeWriter l st, meter = NewMeter\<rparr>"

text \<open>Reading and writing \<open>n\<close> bytes through it.\<close>

definition meterConn_Read :: "nat \<Rightarrow> meterConn \<Rightarrow> meterConn" where
  "meterConn_Read n c = (if mread c then c\<lparr>meter := snd (meter_Read n (meter c))\<rparr> else c)"

definition meterConn_Write :: "nat \<Rightarrow> meterConn \<Rightarrow> meterConn" where
  "meterConn_Write n c = (if mwrite c then c\<lparr>meter := snd (meter_Write n (meter c))\<rparr> else c)"

subsection \<open>Printing the rates of a period\<close>

text \<open>
  \<open>goprint\<close> after its second of sleep: the counters and the clock it loads, the rates per
  second, the line, and what it stores at the end.
\<close>

record snapshot =
  snap_sent :: "64 word"
  snap_recv :: "64 word"
  snap_now :: "64 word"

definition goprint_load :: "64 word \<Rightarrow> Meter \<Rightarrow> snapshot" where
  "goprint_load now m = \<lparr>snap_sent = sent_bytes m, snap_recv = recv_bytes m, snap_now = now\<rparr>"

text \<open>A number per nanoseconds as a number per second; none where Go leaves the result open.\<close>

definition per_second :: "64 word \<Rightarrow> 64 word \<Rightarrow> int option" where
  "per_second n dt =
     (if dt = 0 then None
      else int64_of (float64 (float64 (float64 (of_int (sint n)) / float64 (of_int (sint dt))) * float64 1000000000)))"

definition goprint_line ::
  "(int \<Rightarrow> string) \<Rightarrow> string \<Rightarrow> Logger \<Rightarrow> log_store \<Rightarrow> snapshot \<Rightarrow> Meter \<Rightarrow> string option" where
  "goprint_line sizestr stamp l st snap m =
     (let dt = snap_now snap - last_ns m in
      case (per_second (snap_sent snap - lsent m) dt, per_second (snap_recv snap - lrecv m) dt) of
        (Some sps, Some rps) \<Rightarrow>
          (if sint (last_ns m) > 0 \<and> (sps \<noteq> 0 \<or> rps \<noteq> 0)
           then Debugf stamp ''write %s/s read %s/s'' [StrArg (sizestr sps), StrArg (sizestr rps)] l st
           else Some '''')
      | _ \<Rightarrow> None)"

definition goprint_store :: "snapshot \<Rightarrow> Meter \<Rightarrow> Meter" where
  "goprint_store snap m = m\<lparr>lsent := snap_sent snap, lrecv := snap_recv snap, last_ns := snap_now snap, printing := 0\<rparr>"

subsection \<open>The rates\<close>

text \<open>
  C40: the rate printed for a period is the bytes of the period over its length, up to one
  byte per second and one part in \<open>2 ^ 51\<close>, as long as both are below \<open>2 ^ 53\<close> (the length
  in nanoseconds, a hundred days); the rounding of the numbers costs no more.
\<close>

theorem per_second_accuracy:
  assumes "per_second n dt = Some v" and "\<bar>sint n\<bar> < 2 ^ 53" "\<bar>sint dt\<bar> < 2 ^ 53"
  shows "\<bar>of_int v - of_int (sint n) * 1000000000 / of_int (sint dt)\<bar>
    \<le> 1 + \<bar>of_int (sint n) * 1000000000 / of_int (sint dt) :: rat\<bar> / 2 ^ 51"
proof -
  define q :: rat where "q = of_int (sint n) / of_int (sint dt)"
  define p where "p = float64 q"
  define r where "r = float64 (p * 1000000000)"
  have "float64 (of_int 1000000000) = of_int 1000000000" by (rule float64_of_int) simp
  then have G: "float64 1000000000 = 1000000000" by simp
  have v: "v = truncate_rat r"
    using assms(1) float64_of_int [OF assms(2)] float64_of_int [OF assms(3)]
    by (auto simp: per_second_def int64_of_def Let_def G r_def p_def q_def split: if_splits)
  have p: "\<bar>p - q\<bar> \<le> \<bar>q\<bar> / 2 ^ 53" unfolding p_def by (rule float64_error)
  have r: "\<bar>r - p * 1000000000\<bar> \<le> \<bar>p * 1000000000\<bar> / 2 ^ 53" unfolding r_def by (rule float64_error)
  have "\<bar>of_int v - r\<bar> \<le> 1" using truncate_rat_error [of r] unfolding v by linarith
  moreover have "\<bar>r - q * 1000000000\<bar> \<le> \<bar>q * 1000000000\<bar> / 2 ^ 51"
  proof -
    have "r - q * 1000000000 = (r - p * 1000000000) + (p - q) * 1000000000" by (simp add: algebra_simps)
    then have "\<bar>r - q * 1000000000\<bar> \<le> \<bar>r - p * 1000000000\<bar> + \<bar>p - q\<bar> * 1000000000"
      by (metis abs_mult abs_numeral abs_triangle_ineq)
    moreover have "\<bar>p\<bar> \<le> \<bar>q\<bar> + \<bar>q\<bar> / 2 ^ 53" using p by linarith
    moreover have "\<bar>p * 1000000000\<bar> = \<bar>p\<bar> * 1000000000" "\<bar>q * 1000000000\<bar> = \<bar>q\<bar> * 1000000000"
      by (simp_all add: abs_mult)
    moreover have "A \<le> Q * 1000000000 / 2 ^ 51"
      if "A \<le> B + C * 1000000000" "P \<le> Q + Q / 2 ^ 53" "C \<le> Q / 2 ^ 53" "B \<le> P * 1000000000 / 2 ^ 53" "0 \<le> Q"
      for A B C P Q :: rat
      using that by simp
    ultimately show ?thesis using p r by (metis abs_ge_zero)
  qed
  ultimately have "\<bar>of_int v - q * 1000000000\<bar> \<le> 1 + \<bar>q * 1000000000\<bar> / 2 ^ 51" by linarith
  then show ?thesis by (simp add: q_def)
qed

theorem per_second_accuracy_witness:
  "\<exists>v. per_second 3000 1500000000 = Some v \<and>
    \<bar>of_int v - of_int (sint (3000 :: 64 word)) * 1000000000 / of_int (sint (1500000000 :: 64 word))\<bar>
      \<le> 1 + \<bar>of_int (sint (3000 :: 64 word)) * 1000000000 / of_int (sint (1500000000 :: 64 word)) :: rat\<bar> / 2 ^ 51"
proof -
  have "per_second 3000 1500000000 \<noteq> None" by code_simp
  then obtain v where v: "per_second 3000 1500000000 = Some v" by blast
  have "\<bar>sint (3000 :: 64 word)\<bar> < 2 ^ 53" "\<bar>sint (1500000000 :: 64 word)\<bar> < 2 ^ 53" by simp_all
  from per_second_accuracy [OF v this] v show ?thesis by blast
qed

subsection \<open>The goroutine beside the connection\<close>

text \<open>
  Reads and writes count at any time; \<open>sleeping\<close> goroutines wait for their second, \<open>loaded\<close>
  ones have taken their snapshot. \<open>periods\<close> records the bytes each period was printed for,
  and \<open>total_sent\<close>, \<open>total_recv\<close> all that was counted.
\<close>

record meter_run =
  run_meter :: Meter
  sleeping :: nat
  loaded :: "snapshot list"
  periods :: "(64 word \<times> 64 word) list"
  total_sent :: nat
  total_recv :: nat

definition meter_start :: meter_run where
  "meter_start = \<lparr>run_meter = NewMeter, sleeping = 0, loaded = [], periods = [], total_sent = 0, total_recv = 0\<rparr>"

datatype meter_event = MeterReads nat | MeterWrites nat | MeterLoads "64 word" | MeterStores snapshot

inductive meter_step :: "meter_run \<Rightarrow> meter_event \<Rightarrow> meter_run \<Rightarrow> bool" where
  reads: "meter_Read n (run_meter s) = (starts, m) \<Longrightarrow>
    meter_step s (MeterReads n) (s\<lparr>run_meter := m, sleeping := sleeping s + (if starts then 1 else 0),
      total_recv := total_recv s + n\<rparr>)"
| writes: "meter_Write n (run_meter s) = (starts, m) \<Longrightarrow>
    meter_step s (MeterWrites n) (s\<lparr>run_meter := m, sleeping := sleeping s + (if starts then 1 else 0),
      total_sent := total_sent s + n\<rparr>)"
| loads: "sleeping s > 0 \<Longrightarrow>
    meter_step s (MeterLoads now) (s\<lparr>sleeping := sleeping s - 1, loaded := goprint_load now (run_meter s) # loaded s\<rparr>)"
| stores: "snap \<in> set (loaded s) \<Longrightarrow>
    meter_step s (MeterStores snap) (s\<lparr>run_meter := goprint_store snap (run_meter s), loaded := remove1 snap (loaded s),
      periods := (snap_sent snap - lsent (run_meter s), snap_recv snap - lrecv (run_meter s)) # periods s\<rparr>)"

inductive meter_reachable :: "meter_run \<Rightarrow> bool" where
  start: "meter_reachable meter_start"
| step: "meter_reachable s \<Longrightarrow> meter_step s e s' \<Longrightarrow> meter_reachable s'"

definition meter_inv :: "meter_run \<Rightarrow> bool" where
  "meter_inv s \<longleftrightarrow>
     sleeping s + length (loaded s) = (if printing (run_meter s) = 0 then 0 else 1) \<and>
     sum_list (map fst (periods s)) = lsent (run_meter s) \<and> sum_list (map snd (periods s)) = lrecv (run_meter s) \<and>
     sent_bytes (run_meter s) = of_nat (total_sent s) \<and> recv_bytes (run_meter s) = of_nat (total_recv s)"

lemma meter_step_inv:
  assumes "meter_step s e s'" "meter_inv s"
  shows "meter_inv s'"
  using assms
proof (cases rule: meter_step.cases)
  case (stores snap)
  with assms(2) have "sleeping s = 0" "loaded s = [snap]"
    by (cases "loaded s"; auto simp: meter_inv_def split: if_splits)+
  with stores assms(2) show ?thesis by (simp add: meter_inv_def goprint_store_def)
qed (use assms(2) in \<open>auto simp: meter_inv_def meter_Read_def meter_Write_def meter_print_def split: if_splits\<close>)

interpretation meter: invariant_stepping "\<lambda>s. s = meter_start" meter_step meter_reachable meter_inv
proof unfold_locales
  show "P s" if "meter_reachable s" "\<And>s. s = meter_start \<Longrightarrow> P s"
    "\<And>s e s'. meter_reachable s \<Longrightarrow> P s \<Longrightarrow> meter_step s e s' \<Longrightarrow> P s'" for s P
    using that by (induction rule: meter_reachable.induct) blast+
  show "meter_inv s" if "s = meter_start" for s
    using that by (simp add: meter_start_def meter_inv_def NewMeter_def)
qed (rule meter_reachable.step meter_step_inv; assumption)+

text \<open>
  At every moment at most one goroutine prints, and every byte is in exactly one period: the
  bytes of the periods printed and those counted since the last snapshot stored are together
  all that was read and written, up to the 64 bits of the counters.
\<close>

lemma meter_periods:
  assumes "meter_reachable s"
  shows "sleeping s + length (loaded s) \<le> 1 \<and>
    sum_list (map fst (periods s)) + (sent_bytes (run_meter s) - lsent (run_meter s)) = of_nat (total_sent s) \<and>
    sum_list (map snd (periods s)) + (recv_bytes (run_meter s) - lrecv (run_meter s)) = of_nat (total_recv s)"
  using meter.reach_inv [OF assms] by (simp add: meter_inv_def)

text \<open>The first period is not printed, as it has no beginning, nor is one without traffic.\<close>

lemma first_period_silent:
  assumes "last_ns m = 0" "goprint_line sizestr stamp l st snap m = Some line"
  shows "line = ''''"
  using assms by (auto simp: goprint_line_def Let_def split: option.splits)

lemma idle_period_silent:
  assumes "snap_sent snap = lsent m" "snap_recv snap = lrecv m" "goprint_line sizestr stamp l st snap m = Some line"
  shows "line = ''''"
proof -
  have "per_second 0 dt = Some v \<Longrightarrow> v = 0" for dt v
    by (auto simp: per_second_def float64_def int64_of_def truncate_rat_def Let_def split: if_splits)
  with assms show ?thesis by (auto simp: goprint_line_def Let_def split: option.splits if_splits)
qed

end
