(* ===== verification/Control_Json.thy ===== *)
theory Control_Json
  imports Json_Files Control_Plane
begin

section \<open>The control plane on texts\<close>

text \<open>
  The bytes of the control plane of server/server_handler.go: how the body of a POST is
  decoded, and the text, status and content type that \<open>rJSON\<close> and \<open>rError\<close> write, with the
  types of server/port_allocation.go as encoding/json sees them. How a time prints is the
  parameter \<open>show_time\<close>.
\<close>

subsection \<open>Requests\<close>

definition fill_int :: "json \<Rightarrow> int \<Rightarrow> int option" where
  "fill_int v old =
     (case v of JNumber n \<Rightarrow> (case Atoi n of Inr i \<Rightarrow> Some i | Inl _ \<Rightarrow> None) | JNull \<Rightarrow> Some old | _ \<Rightarrow> None)"

definition fill_PortAllocationRequest :: "string \<Rightarrow> json \<Rightarrow> PortAllocationRequest \<Rightarrow> PortAllocationRequest option" where
  "fill_PortAllocationRequest k v r =
     (if names_field k ''clientId'' then map_option (\<lambda>s. r\<lparr>ClientId_req := s\<rparr>) (fill_string v (ClientId_req r))
      else if names_field k ''userId'' then map_option (\<lambda>s. r\<lparr>UserId_req := s\<rparr>) (fill_string v (UserId_req r))
      else if names_field k ''appName'' then map_option (\<lambda>s. r\<lparr>AppName_req := s\<rparr>) (fill_string v (AppName_req r))
      else if names_field k ''clientPort'' then map_option (\<lambda>i. r\<lparr>ClientPort_req := i\<rparr>) (fill_int v (ClientPort_req r))
      else Some r)"

definition decode_request :: "bytes \<Rightarrow> PortAllocationRequest option" where
  "decode_request b = Option.bind (decode_first b) (\<lambda>v. fill_struct fill_PortAllocationRequest v
     \<lparr>ClientId_req = '''', UserId_req = '''', AppName_req = '''', ClientPort_req = 0\<rparr>)"

subsection \<open>Answers\<close>

fun status_text :: "PortStatus \<Rightarrow> string" where
  "status_text Freed = ''freed''"
| "status_text Allocated = ''allocated''"
| "status_text Connected = ''connected''"

text \<open>A pointer with \<open>omitempty\<close>.\<close>

definition omit_nil :: "(time \<Rightarrow> string) \<Rightarrow> string \<Rightarrow> time option \<Rightarrow> (string \<times> json) list" where
  "omit_nil show_time name t = (case t of None \<Rightarrow> [] | Some t \<Rightarrow> [(name, JString (show_time t))])"

definition lease_json :: "(time \<Rightarrow> string) \<Rightarrow> PortAllocation \<Rightarrow> json" where
  "lease_json show_time v = JObject
     ([(''clientId'', JString (ClientId v)), (''userId'', JString (UserId v)), (''appName'', JString (AppName v)),
       (''clientVersion'', JString (ClientVersion v)), (''clientPort'', JNumber (show_int (ClientPort v))),
       (''mappingPort'', JNumber (show_int (MappingPort v))), (''status'', JString (status_text (Status v)))]
      @ omit_nil show_time ''allocTime'' (AllocTime v) @ omit_nil show_time ''startTime'' (StartTime v))"

fun body_json :: "(time \<Rightarrow> string) \<Rightarrow> http_body \<Rightarrow> json" where
  "body_json show_time (ErrorBody m) = JObject [(''error'', JString m)]"
| "body_json show_time (PortQueryResponse p) = JObject [(''mappingPort'', JNumber (show_int p))]"
| "body_json show_time (PortsBody vs) = JArray (map (lease_json show_time) vs)"
| "body_json show_time (AllocationBody v) = lease_json show_time v"
| "body_json show_time (TextBody s) = JString s"

text \<open>An \<open>Encoder\<close> ends each value with a newline.\<close>

definition body_text :: "(time \<Rightarrow> string) \<Rightarrow> http_body \<Rightarrow> bytes" where
  "body_text show_time b = show_json (body_json show_time b) @ [CHR 0x0A]"

record http_answer =
  ans_status :: int
  ans_header :: "(string \<times> string) list"
  ans_body :: bytes

text \<open>A request whose body are the given bytes, up to the answer on the wire.\<close>

definition serve_text ::
  "(time \<Rightarrow> string) \<Rightarrow> (string \<Rightarrow> (string \<rightharpoonup> go_value) option) \<Rightarrow> time \<Rightarrow> string list \<Rightarrow> http_request \<Rightarrow> bytes \<Rightarrow>
   PortAllocator \<Rightarrow> http_answer \<times> PortAllocator" where
  "serve_text show_time parse_jwt now order r body pa =
     (let ((code, b), pa') = handleControlPlaneHandler parse_jwt now order (r\<lparr>Body := decode_request body\<rparr>) pa
      in (\<lparr>ans_status = code, ans_header = [(''Content-Type'', ''application/json'')], ans_body = body_text show_time b\<rparr>,
          pa'))"

subsection \<open>A caller's reading of the answers\<close>

record PortAllocationResponse =
  ClientId_resp :: string
  UserId_resp :: string
  AppName_resp :: string
  ClientPort_resp :: int
  MappingPort_resp :: int

definition fill_PortAllocationResponse :: "string \<Rightarrow> json \<Rightarrow> PortAllocationResponse \<Rightarrow> PortAllocationResponse option" where
  "fill_PortAllocationResponse k v r =
     (if names_field k ''clientId'' then map_option (\<lambda>s. r\<lparr>ClientId_resp := s\<rparr>) (fill_string v (ClientId_resp r))
      else if names_field k ''userId'' then map_option (\<lambda>s. r\<lparr>UserId_resp := s\<rparr>) (fill_string v (UserId_resp r))
      else if names_field k ''appName'' then map_option (\<lambda>s. r\<lparr>AppName_resp := s\<rparr>) (fill_string v (AppName_resp r))
      else if names_field k ''clientPort'' then map_option (\<lambda>i. r\<lparr>ClientPort_resp := i\<rparr>) (fill_int v (ClientPort_resp r))
      else if names_field k ''mappingPort'' then map_option (\<lambda>i. r\<lparr>MappingPort_resp := i\<rparr>) (fill_int v (MappingPort_resp r))
      else Some r)"

definition decode_response :: "bytes \<Rightarrow> PortAllocationResponse option" where
  "decode_response b = Option.bind (decode_first b) (\<lambda>v. fill_struct fill_PortAllocationResponse v
     \<lparr>ClientId_resp = '''', UserId_resp = '''', AppName_resp = '''', ClientPort_resp = 0, MappingPort_resp = 0\<rparr>)"

definition fill_PortQueryResponse :: "string \<Rightarrow> json \<Rightarrow> int \<Rightarrow> int option" where
  "fill_PortQueryResponse k v p = (if names_field k ''mappingPort'' then fill_int v p else Some p)"

definition decode_port :: "bytes \<Rightarrow> int option" where
  "decode_port b = Option.bind (decode_first b) (\<lambda>v. fill_struct fill_PortQueryResponse v 0)"

subsection \<open>Round trips\<close>

definition int64 :: "int \<Rightarrow> bool" where
  "int64 i \<longleftrightarrow> - (2 ^ 63) \<le> i \<and> i < 2 ^ 63"

lemma Atoi_show_int:
  assumes "int64 i"
  shows "Atoi (show_int i) = Inr i"
proof (cases "i < 0")
  case True
  then have "digits_value (show_nat (nat (- i))) 0 = Some (nat (- i))" "show_nat (nat (- i)) \<noteq> []"
    using digits_value_show_nat [of "nat (- i)"] show_nat_start [of "nat (- i)"] by auto
  with True assms show ?thesis by (simp add: show_int_def Atoi_def int64_def)
next
  case False
  with assms show ?thesis by (simp add: show_int_def Atoi_show_nat int64_def)
qed

lemma plain_number [simp]: "int64 i \<Longrightarrow> plain_json (JNumber (show_int i))"
  by (simp add: Atoi_show_int)

lemma fill_number [simp]: "int64 i \<Longrightarrow> fill_int (JNumber (show_int i)) old = Some i"
  by (simp add: fill_int_def Atoi_show_int)

definition ascii_lease :: "PortAllocation \<Rightarrow> bool" where
  "ascii_lease v \<longleftrightarrow> list_all ascii [ClientId v, UserId v, AppName v, ClientVersion v] \<and>
     int64 (ClientPort v) \<and> int64 (MappingPort v)"

definition response_of :: "PortAllocation \<Rightarrow> PortAllocationResponse" where
  "response_of v = \<lparr>ClientId_resp = ClientId v, UserId_resp = UserId v, AppName_resp = AppName v,
     ClientPort_resp = ClientPort v, MappingPort_resp = MappingPort v\<rparr>"

definition request_json :: "PortAllocationRequest \<Rightarrow> json" where
  "request_json r = JObject
     [(''clientId'', JString (ClientId_req r)), (''userId'', JString (UserId_req r)), (''appName'', JString (AppName_req r)),
      (''clientPort'', JNumber (show_int (ClientPort_req r)))]"

text \<open>The keys of the four types, which no other letter folds to.\<close>

lemma api_keys:
  assumes "k \<in> {''clientId'', ''userId'', ''appName'', ''clientVersion'', ''clientPort'', ''mappingPort'', ''status'',
    ''allocTime'', ''startTime'', ''error''}"
  shows "ascii k" "names_field k name \<longleftrightarrow> ToLower k = ToLower name"
proof -
  from assms show "ascii k" by (auto simp: ascii_def byte_def)
  then show "names_field k name \<longleftrightarrow> ToLower k = ToLower name" by (rule names_field_ascii)
qed

lemmas api_fill = fill_struct_def fill_string_def api_keys ToLower_def lower_char_def

lemma decode_request_json:
  assumes "list_all ascii [ClientId_req r, UserId_req r, AppName_req r]" "int64 (ClientPort_req r)"
  shows "decode_request (show_json (request_json r) @ rest) = Some r"
proof -
  have "decode_first (show_json (request_json r) @ rest) = Some (request_json r)"
    using assms by (intro decode_first_show) (simp_all add: request_json_def api_keys del: plain_json.simps(1))
  then show ?thesis
    using assms by (simp add: decode_request_def request_json_def fill_PortAllocationRequest_def api_fill)
qed

lemma decode_lease:
  assumes "ascii_lease v" "\<And>t. ascii (show_time t)"
  shows "decode_response (body_text show_time (AllocationBody v)) = Some (response_of v)"
proof -
  have status: "ascii (status_text s)" for s by (cases s) (auto simp: ascii_def byte_def)
  have "decode_first (body_text show_time (AllocationBody v)) = Some (lease_json show_time v)"
    unfolding body_text_def body_json.simps using assms status
    by (intro decode_first_show)
      (auto simp: lease_json_def ascii_lease_def api_keys omit_nil_def simp del: plain_json.simps(1) split: option.splits)
  then show ?thesis
    using assms by (auto simp: decode_response_def lease_json_def fill_PortAllocationResponse_def response_of_def
        ascii_lease_def omit_nil_def api_fill split: option.splits)
qed

lemma decode_mapping_port:
  assumes "int64 p"
  shows "decode_port (body_text show_time (PortQueryResponse p)) = Some p"
proof -
  have "decode_first (body_text show_time (PortQueryResponse p)) = Some (JObject [(''mappingPort'', JNumber (show_int p))])"
    unfolding body_text_def body_json.simps using assms
    by (intro decode_first_show) (simp_all add: api_keys del: plain_json.simps(1))
  then show ?thesis
    using assms by (simp add: decode_port_def fill_PortQueryResponse_def api_fill)
qed

subsection \<open>The API from text to text\<close>

text \<open>The handlers see no body but the decoded one.\<close>

lemma other_body [simp]:
  "getUserId parse_jwt (r\<lparr>Body := b\<rparr>) = getUserId parse_jwt r"
  "create_user parse_jwt (r\<lparr>Body := b\<rparr>) req = create_user parse_jwt r req"
  "query_identity parse_jwt (r\<lparr>Body := b\<rparr>) = query_identity parse_jwt r"
  "handleGetPorts parse_jwt order (r\<lparr>Body := b\<rparr>) pa = handleGetPorts parse_jwt order r pa"
proof -
  show user: "getUserId parse_jwt (r\<lparr>Body := b\<rparr>) = getUserId parse_jwt r" by (simp add: getUserId_def)
  then show "create_user parse_jwt (r\<lparr>Body := b\<rparr>) req = create_user parse_jwt r req" by (simp add: create_user_def)
  from user show identity: "query_identity parse_jwt (r\<lparr>Body := b\<rparr>) = query_identity parse_jwt r"
    by (simp add: query_identity_def Let_def)
  show "handleGetPorts parse_jwt order (r\<lparr>Body := b\<rparr>) pa = handleGetPorts parse_jwt order r pa"
    by (simp only: handleGetPorts_def identity)
qed

definition ascii_registry :: "PortAllocator \<Rightarrow> bool" where
  "ascii_registry pa \<longleftrightarrow> (\<forall>k v. leases pa k = Some v \<longrightarrow> ascii_lease v) \<and> int64 (minPort pa) \<and> int64 (maxPort pa)"

lemma allocated_ascii:
  assumes "pa_exclusive pa" "ascii_registry pa" "list_all ascii [c, u, n]" "int64 cp"
    and "AllocatePort now c u n cp pa = (Inr v, pa')"
  shows "ascii_lease v" "ClientPort v = cp"
proof -
  have "fst (spec_allocate now c u n cp (minPort pa) (maxPort pa) (leases pa)) = Inr v"
    using AllocatePort_effect [OF assms(1), of now c u n cp] assms(5) by (metis fst_conv fst_map_prod id_apply)
  then show "ascii_lease v" "ClientPort v = cp"
    using assms(2-4)
    by (auto simp: spec_allocate_def Let_def ascii_registry_def ascii_lease_def new_lease_def int64_def ascii_def
        scan_ports_Some_iff split: option.splits)
qed

lemma serve_create:
  assumes "Method r = ''POST''" "ports_api_path (Path r)" "decode_request body = Some req"
    and "ClientId_req req \<noteq> ''''" "create_user parse_jwt r req \<noteq> ''''" "AppName_req req \<noteq> ''''"
  shows "serve_text show_time parse_jwt now order r body pa =
    (let (res, pa') = AllocatePort now (ClientId_req req) (create_user parse_jwt r req) (AppName_req req) (ClientPort_req req) pa;
         (code, b) = (case res of Inl _ \<Rightarrow> (507, ErrorBody ''No available ports'') | Inr v \<Rightarrow> (200, AllocationBody v))
     in (\<lparr>ans_status = code, ans_header = [(''Content-Type'', ''application/json'')], ans_body = body_text show_time b\<rparr>, pa'))"
proof -
  obtain res pa' where "AllocatePort now (ClientId_req req) (create_user parse_jwt r req) (AppName_req req) (ClientPort_req req) pa
      = (res, pa')" by fastforce
  with assms show ?thesis
    by (cases "UserId_req req = ''''"; cases res)
      (simp_all add: serve_text_def control_plane_routing handleCreatePort_def create_user_def rError_def rJSON_def)
qed

lemma serve_query:
  assumes "Method g = ''GET''" "ports_api_path (Path g)"
  shows "serve_text show_time parse_jwt now order g body pa =
    (let (code, b) = handleGetPorts parse_jwt order g pa
     in (\<lparr>ans_status = code, ans_header = [(''Content-Type'', ''application/json'')], ans_body = body_text show_time b\<rparr>, pa))"
  using assms by (simp add: serve_text_def control_plane_routing split: prod.split)

text \<open>
  C14: the API on the wire. The JSON text of a request in ASCII, posted to a path of the ports
  API, either finds no port, is answered 507 and changes no lease, or is answered 200 with a
  text that decodes to the lease the key then has, with the client port asked for. A GET for the
  same identity, whatever its body, then leaves the allocator as it is and is answered 200 with a text
  that decodes to that lease's port, when the lease carries the identity asked for. Otherwise
  (the key was already registered by another identity with the same key text) it is answered 404.
\<close>

theorem port_api_in_text:
  assumes ex: "pa_exclusive pa" and reg: "ascii_registry pa" "\<And>t. ascii (show_time t)"
    and post: "Method r = ''POST''" "ports_api_path (Path r)"
      "serve_text show_time parse_jwt now order r (show_json (request_json req) @ rest) pa = (a, pa')"
    and req: "ClientId_req req = c" "create_user parse_jwt r req = u" "AppName_req req = n" "c \<noteq> ''''" "u \<noteq> ''''" "n \<noteq> ''''"
      "list_all ascii [c, u, n, UserId_req req]" "int64 (ClientPort_req req)"
    and get: "Method g = ''GET''" "ports_api_path (Path g)" "query_identity parse_jwt g = (c, u, n)"
      "enumerates order' (names pa')"
      "serve_text show_time parse_jwt now' order' g body pa' = (b, pa'')"
  shows "pa'' = pa' \<and>
    (ans_status a = 507 \<and> leases pa' = leases pa \<or>
     ans_status a = 200 \<and>
     (\<exists>v. leases pa' (alloc_key c u n) = Some v \<and> ClientPort v = ClientPort_req req \<and>
          decode_response (ans_body a) = Some (response_of v) \<and>
          (if ClientId v = c \<and> UserId v = u \<and> AppName v = n
           then ans_status b = 200 \<and> decode_port (ans_body b) = Some (MappingPort v)
           else ans_status b = 404)))"
proof -
  have ascii: "list_all ascii [c, u, n]" using req(7) by simp
  have "decode_request (show_json (request_json req) @ rest) = Some req"
    using req by (intro decode_request_json) simp_all
  note create = serve_create [OF post(1,2) this, of parse_jwt show_time now order pa, unfolded req(1-3), OF req(4-6), unfolded post(3)]
  note query = serve_query [OF get(1,2), of show_time parse_jwt now' order' body pa', unfolded get(5)]
  obtain res where alloc: "AllocatePort now c u n (ClientPort_req req) pa = (res, pa')"
    using create by (auto split: prod.splits)
  from query have "pa'' = pa'" by (simp split: prod.splits)
  moreover have "ans_status a = 507 \<and> leases pa' = leases pa" if "res = Inl e" for e
    using create alloc AllocatePort_effect [OF ex, of now c u n "ClientPort_req req"] that
    by (auto simp: spec_allocate_def Let_def split: option.splits)
  moreover have "ans_status a = 200 \<and> decode_response (ans_body a) = Some (response_of v) \<and>
      leases pa' (alloc_key c u n) = Some v \<and> ClientPort v = ClientPort_req req \<and>
      (if ClientId v = c \<and> UserId v = u \<and> AppName v = n
       then ans_status b = 200 \<and> decode_port (ans_body b) = Some (MappingPort v) else ans_status b = 404)"
    if "res = Inr v" for v
  proof -
    note alloc = alloc [unfolded that]
    note v = allocated_ascii [OF ex reg(1) ascii req(8) alloc]
    have "leases pa' (alloc_key c u n) = Some v" by (rule reg.allocate_finds [OF ex alloc])
    moreover have "pa_sound pa'"
      using reg.allocate_good [OF ex] alloc by (metis snd_conv pa_exclusiveD(1))
    ultimately show ?thesis
      using create query alloc v decode_lease [OF v(1) reg(2)] decode_mapping_port [of "MappingPort v" show_time]
      by (simp add: handleGetPorts_full [OF _ get(4,3) req(4-6)] ascii_lease_def split: prod.splits if_splits)
  qed
  ultimately show ?thesis by (cases res) blast+
qed

theorem port_api_in_text_witness:
  "\<exists>a b pa'.
     serve_text (\<lambda>_. ''2025-06-01T00:00:00Z'') (\<lambda>_. None) 5 [] (post_request '''' '''' '''' 0)
       (show_json (request_json \<lparr>ClientId_req = ''m'', UserId_req = ''u'', AppName_req = ''web'', ClientPort_req = 80\<rparr>) @ [CHR 0x0A])
       (NewPortAllocator 30000 30001) = (a, pa') \<and>
     serve_text (\<lambda>_. ''2025-06-01T00:00:00Z'') (\<lambda>_. None) 6 [''m-u-web''] (get_request ''m'' ''u'' ''web'') '''' pa' = (b, pa') \<and>
     ans_status a = 200 \<and> ans_status b = 200 \<and> decode_port (ans_body b) = Some 30000"
proof -
  let ?time = "\<lambda>_ :: time. ''2025-06-01T00:00:00Z''" and ?new = "NewPortAllocator 30000 30001"
  let ?req = "\<lparr>ClientId_req = ''m'', UserId_req = ''u'', AppName_req = ''web'', ClientPort_req = 80\<rparr>"
  let ?r = "post_request '''' '''' '''' 0" and ?g = "get_request ''m'' ''u'' ''web''"
  let ?text = "show_json (request_json ?req) @ [CHR 0x0A]"
  obtain a pa' where post: "serve_text ?time (\<lambda>_. None) 5 [] ?r ?text ?new = (a, pa')" by fastforce
  obtain b pa'' where get: "serve_text ?time (\<lambda>_. None) 6 [''m-u-web''] ?g '''' pa' = (b, pa'')" by fastforce
  have ascii: "ascii ''m''" "ascii ''u''" "ascii ''web''" "ascii ''2025-06-01T00:00:00Z''" by (auto simp: ascii_def byte_def)
  have path: "ports_api_path (Path ?r)" "ports_api_path (Path ?g)" "Method ?r = ''POST''" "Method ?g = ''GET''"
    unfolding route_ok_iff [symmetric] by (simp_all add: post_request_def get_request_def, (code_simp)+)
  have "decode_request ?text = Some ?req" by (rule decode_request_json) (simp_all add: ascii int64_def)
  note create = serve_create [OF path(3,1) this, of "\<lambda>_. None" ?time 5 "[]" ?new]
  obtain pa1 where alloc: "AllocatePort 5 ''m'' ''u'' ''web'' 80 ?new = (Inr (new_lease 5 ''m'' ''u'' ''web'' 80 30000), pa1)"
    by (simp add: request_eval)
  then have pa1: "pa1 = snd (AllocatePort 5 ''m'' ''u'' ''web'' 80 ?new)" by simp
  have "(a, pa') = (\<lparr>ans_status = 200, ans_header = [(''Content-Type'', ''application/json'')],
      ans_body = body_text ?time (AllocationBody (new_lease 5 ''m'' ''u'' ''web'' 80 30000))\<rparr>, pa1)"
    unfolding post [symmetric] by (subst create) (simp_all add: create_user_def alloc)
  then have pa': "pa' = snd (AllocatePort 5 ''m'' ''u'' ''web'' 80 ?new)" "ans_status a = 200"
    using pa1 by simp_all
  have registered: "names pa' = [''m-u-web'' \<mapsto> 0]" "leases pa' ''m-u-web'' = Some (new_lease 5 ''m'' ''u'' ''web'' 80 30000)"
    by (simp_all add: pa'(1) request_eval)
  have "pa'' = pa' \<and> ans_status b = 200 \<and> decode_port (ans_body b) = Some 30000"
    using port_api_in_text [OF NewPortAllocator_exclusive _ _ path(3,1) post _ _ _ _ _ _ _ _ path(4,2) _ _ get, of "''m''" "''u''" "''web''"]
      registered pa'(2) ascii
    by (simp add: create_user_def ascii_registry_def leases_def NewPortAllocator_def int64_def enumerates_def alloc_key_def new_lease_def)
  with post get pa'(2) show ?thesis by blast
qed

end
