(* ===== verification/Spec2Isabelle.thy ===== *)
theory Spec2Isabelle
  imports Lease_Liveness Registry_System Login_System Reload_System Remote_Patterns Serving Tunnel_System Pipe_System Udp_System
    Client_Run Client_Main Server_Run Reconnect_System Udp_Client Channel_System Tunnel_Race Help Signals Json_Fuel Meter Control_Json
begin

text \<open>
  A verification library of cotun, a TCP and UDP tunnel over HTTP and SSH, in which clients
  behind a firewall lease ports of the server and share their services through them.

  \<^bold>\<open>The program.\<close> A server (server/, started by server-main/) listens for clients over
  WebSockets and for an HTTP control plane. A client (client/, started by client-main/)
  dials the server, speaks SSH over the WebSocket, sends its remotes as a configuration, and
  retries when the connection is lost. Both ends then run a tunnel (share/tunnel/): proxies
  listen for the remotes of one direction and open a channel of the SSH connection for every
  connection they accept, which the other end dials. Ports of the server are leased by the
  port allocator (server/port_allocator.go): the control plane creates, lists and deletes
  leases, sessions of clients mark them connected, and a timer reclaims what hangs.

  \<^bold>\<open>Theories and the code they model.\<close>

  \<^item> \<open>Prelude\<close>: types, panics as values, collections of facts, lemmas on maps and on
    enumerations of a map's keys, and the law of groups of goroutines; no code. \<open>Systems\<close>: the
    locales of transition systems, with invariants, refinements and what infinite runs lead to;
    the step relations below are interpretations.
  \<^item> \<open>Go_Strings\<close>, \<open>Go_Url\<close>, \<open>Base64\<close>, \<open>Json\<close>, \<open>Go_Regexp\<close>, \<open>Go_Flag\<close>, \<open>Go_Fmt\<close>, \<open>Go_Float\<close>: what the
    code uses of the packages strings, strconv, net/url, encoding/base64, encoding/json, regexp, flag
    and fmt, and of float64 arithmetic.
  \<^item> \<open>Port_Allocator\<close>: server/port_allocator.go and port_allocation.go. Leases are shared
    by pointer, so the state is a store of lease records by address, the two maps of the code
    from keys and from ports to addresses, and the range. \<open>Port_Invariant\<close> has the
    invariant, that the two maps agree and no two keys share a port, and its
    preservation by every operation. \<open>Port_Leases\<close> has the abstract view, a map from keys to
    leases, the specification of each operation on it, the refinement theorems and the
    locale \<open>lease_registry\<close>, interpreted on the allocator, which the control plane's
    lemmas use.
  \<^item> \<open>Control_Plane\<close>: the control plane's half of server/server_handler.go, from the
    router to the answers; \<open>Control_Json\<close>: the same from the bytes of a request to those of the
    answer, with the types of server/port_allocation.go in JSON.
  \<^item> \<open>Remotes\<close>: share/settings/remote.go, the tokenizer, decoder and encoder of remotes;
    \<open>Remote_Patterns\<close>: its regular expressions and that of client/client.go, as they are written.
  \<^item> \<open>Config_Message\<close>: share/settings/config.go, the JSON of the configuration.
  \<^item> \<open>Users\<close>: share/settings/users.go and user.go, with the locale \<open>keyed_store\<close>.
    \<open>Json_Files\<close>: how the texts of the users' file, of the client's auth.json and options file and of
    its authentication file fill their types.
  \<^item> \<open>Session\<close>: the clients' half of server/server_handler.go and the password check of
    server/server.go. A session is modelled in phases, opening, claiming the
    user, configuring, serving, closing, with what other goroutines do in between as
    functions on the server's state.
  \<^item> \<open>Port_System\<close>: the interleavings of all steps on the shared allocator, as an
    inductive step relation with its reachable states; \<open>Lease_Liveness\<close>: its infinite runs;
    \<open>Registry_System\<close>: the relation on registries that it refines. \<open>Login_System\<close>: logins, the
    claims of sessions and changes of the users in any order; \<open>Reload_System\<close>: the same with the
    reloads of the users' file that make those changes.
  \<^item> \<open>Environment\<close>: share/settings/env.go. \<open>Server_Setup\<close>: making a server and its users and
    timer in server/server.go, server/server_listen.go and the defaults of server-main/main.go.
    \<open>Server_Run\<close>: the life of a server, and server-main/main.go from its arguments to its end.
  \<^item> \<open>Keys\<close>: share/ccrypto, from the deterministic generator to the inline key format.
  \<^item> \<open>Client\<close>: making a client and its connection loop, in client/client.go and
    client_connect.go. \<open>Client_Run\<close>: its goroutines, their errors and its end. \<open>Reconnect_System\<close>:
    the connection loop and the tunnel it binds its connections to, as a step relation with its infinite
    runs; \<open>Udp_Client\<close>: the goroutines of a client with a udp remote, to its end. \<open>Client_Setup\<close>: the configuration in client-main/main.go, and client/authfile.go;
    \<open>Client_Main\<close>: client-main/main.go from its arguments to its end. \<open>Help\<close>: the help texts of both
    programs.
  \<^item> \<open>Wait_Group\<close>: share/tunnel/wg.go, its atomic steps in any interleaving.
  \<^item> \<open>Tunnel\<close>: share/tunnel/tunnel.go, tunnel_out_ssh.go, tunnel_in_proxy.go and
    share/cnet/connstats.go. \<open>Tunnel_System\<close>: a tunnel over its whole life, with the goroutines of
    its connections and the callers that wait, as a step relation; \<open>Tunnel_Race\<close>: the same goroutines
    with every atomic access to the wait group as a step; \<open>Channel_System\<close>: the proxies of
    several remotes on such a tunnel, with the channels they open. \<open>Udp_Listener\<close>: udp.go and
    tunnel_in_proxy_udp.go of share/tunnel; \<open>Udp_Tunnel\<close>: tunnel_out_ssh_udp.go; \<open>Udp_Channel\<close>: the
    bytes of udp.go's channel; \<open>Udp_System\<close>: a udp remote with both ends of its channel.
  \<^item> \<open>Conn\<close>: the WebSocket as a stream and the HTTP server's life of share/cnet, pipes and the
    standard streams of share/cio, dialling in share/tunnel. \<open>Pipe_System\<close>: a pipe's goroutines step
    by step, and two pipes in a row as a forwarded connection has them. \<open>Logging\<close>: the loggers of
    share/cio. \<open>Meter\<close>: share/cnet/meter.go with its goroutine. \<open>Signals\<close>: share/cos.
  \<^item> \<open>Serving\<close>: a remote from the client's command line over the server's session to the
    connection dialled for it, with the session's tunnel of server/server_handler.go.

  \<^bold>\<open>Conventions.\<close> Go strings and byte slices are lists of HOL's \<open>char\<close>, which is a byte;
  times are nanoseconds. Errors and panics are values: an operation that can panic returns a
  sum with \<open>go_panic\<close> on the left. Where Go leaves an order open (ranging over a map), the
  definition takes the order as an argument and theorems hold for each that enumerates
  the keys. Code outside the repository (the JWT parser, hash functions, the curve, SSH, sockets,
  files, groups of goroutines, the backoff timer, the users' patterns, the text of times and sizes) is a parameter, or its
  results are inputs of the definitions; the hypotheses on them are written in the theorems.
  Counters of fixed width are words.

  \<^bold>\<open>What the lemmas show.\<close> The claims C1 to C40 stand at the top level of their theories, each
  after a text that states it. The allocator: every run of the server is a run of the
  specification on registries (C1), and so is each operation by itself (C2-C4). Remotes from end to
  end: C5, C6, and several of them at once: C7. Under any interleaving: exclusive ports (C8), where a
  lease's port comes from (C9), kept connected leases (C10), the end of every idle lease (C11), a
  client that has a connection again and again (C12), and the whole session handler as a run of the
  steps (C13). From text to text: the control plane (C14) and the users' file (C20). Whom a
  session runs as: C15, and what the users' file has to do with it: C16. The bytes of a
  forwarded connection: C17, what the goroutines of a pipe compute: C18, and those of the connection
  loop: C19. The session handler: C21, C22. The control plane's answers: C23, and the
  identity of the client's command line, by which it finds the lease (C24). Remotes: the round trip,
  their regular expressions, and what every accepted remote satisfies (C25-C27); the
  configuration's round trip: C28. What the access rules do not cover: C29, and a server's
  command line: C30. The client: when it gives up (C31), and its end with a udp remote (C34). The
  tunnel's life: the races in which it panics (C32), and when its callers wait (C33).
  UDP: datagrams from end to end (C35) and the end of the handler (C36). Keys: C37. The WebSocket: C38.
  The help texts: C39. The meter's rates: C40.
  The reclaiming timer's effect is \<open>timer_reclaims\<close> of \<open>Server_Setup\<close>.

  \<^bold>\<open>Loops and bounds.\<close> Loops over lists are structural recursions. The accept loop, the
  connection loop, keep-alive, the loops of the udp files and the timer run on the list of their
  inputs to come, so every finite run is covered and not ending is the result with no input left.
  The reader of the deterministic generator is a partial function, proved to return for a hash of
  64 bytes. The JSON reader takes as fuel the length of its text and one more;
  \<open>Json_Fuel\<close> shows that what any fuel reads, this one reads with the same result.

  \<^bold>\<open>What is not modelled.\<close> Goroutine scheduling below the steps named above, except for the
  wait group; TLS, ACME and certificate parsing; the SOCKS server; where log lines are
  written and with which values, beyond what loggers make of a format; a gob stream with another
  description of the packet's type; in the joint system of both ends of a udp remote, the loss of the
  channel and an encoder that fails (the listener's own loops have both); the profiling server; the aliases of compat.go.
\<close>

end
